(* ===== verification/Mcxn_Prelude.thy ===== *)
theory Mcxn_Prelude
  imports Main "HOL-Library.Word"
begin

unbundle bit_operations_syntax

text \<open>
  Shared vocabulary of the MCX N device models: the C integer types as words,
  single-bit register flags, the calls a device makes on its output lines, the
  ways a device model can take the emulator down, little-endian loads and
  stores, and the sub-word merge that several register files share.
\<close>

section \<open>C integer types\<close>

type_synonym u8 = "8 word"
type_synonym u16 = "16 word"
type_synonym u32 = "32 word"
type_synonym u64 = "64 word"

named_theorems dev_simps
  \<open>register-level rewrite rules shared by the device proofs\<close>

section \<open>Single-bit flags\<close>

text \<open>
  A C flag constant \<^verbatim>\<open>(1u << n)\<close> is \<open>flag n\<close>; a C condition \<^verbatim>\<open>v & FLAG\<close> is
  \<open>tst v FLAG\<close>.
\<close>

definition flag :: "nat \<Rightarrow> 'a::len word" where
  "flag n = push_bit n 1"

definition tst :: "'a::len word \<Rightarrow> 'a word \<Rightarrow> bool" where
  "tst v m \<longleftrightarrow> v AND m \<noteq> 0"

lemma bit_flag_iff [bit_simps]: "bit (flag m :: 'a::len word) n \<longleftrightarrow> m = n \<and> n < LENGTH('a)"
  by (auto simp: flag_def bit_simps)

lemma and_flag_eq_0: "v AND flag n = 0 \<longleftrightarrow> \<not> bit v n" for v :: "'a::len word"
proof
  assume "v AND flag n = 0"
  then have "\<not> bit (v AND flag n) n" by simp
  then show "\<not> bit v n" using bit_imp_le_length [of v n] by (auto simp: bit_simps)
next
  assume "\<not> bit v n"
  then show "v AND flag n = 0" by (intro bit_word_eqI) (auto simp: bit_simps)
qed

lemma tst_flag [simp]: "tst v (flag n) \<longleftrightarrow> bit v n" for v :: "'a::len word"
  by (simp add: tst_def and_flag_eq_0)

lemma tst_zero [simp]: "\<not> tst 0 m" "\<not> tst v 0"
  by (simp_all add: tst_def)

lemma tst_or: "tst v (a OR b) \<longleftrightarrow> tst v a \<or> tst v b"
  by (simp add: tst_def bit.conj_disj_distrib or_eq_0_iff)

text \<open>Reading one flag of a register after another flag has been set or cleared.\<close>

lemma bit_or_flag [simp]:
  "bit (v OR flag m) n \<longleftrightarrow> bit v n \<or> m = n \<and> n < LENGTH('a)" for v :: "'a::len word"
  by (simp add: bit_simps)

lemma bit_clear_flag [simp]:
  "bit (v AND NOT (flag m)) n \<longleftrightarrow> bit v n \<and> m \<noteq> n" for v :: "'a::len word"
  by (auto simp: bit_simps dest: bit_imp_le_length)

lemma flag_clear_set [simp]: "(v AND NOT (flag m)) AND flag m = 0" for v :: "'a::len word"
  by (simp add: and_flag_eq_0)

text \<open>A write-1-to-clear register: the written ones leave the register, the rest stays.\<close>

lemma bit_w1c: "bit (r AND NOT v) n \<longleftrightarrow> bit r n \<and> \<not> bit v n" for r v :: "'a::len word"
  by (auto simp: bit_simps dest: bit_imp_le_length)

lemma w1c_idem [simp]: "(r AND NOT v) AND NOT v = r AND NOT v" for r v :: "'a::len word"
  by (intro bit_word_eqI) (auto simp: bit_simps)

text \<open>Widening keeps a value; a small value has no high bits.\<close>

lemma ucast_eq_0_up: "LENGTH('a) \<le> LENGTH('b) \<Longrightarrow> (ucast v :: 'b::len word) = 0 \<longleftrightarrow> v = 0"
  for v :: "'a::len word"
  by (metis ucast_0 ucast_up_ucast_id is_up)

lemma unat_ucast_le: "unat (ucast v :: 'b::len word) \<le> unat (v :: 'a::len word)"
  by (simp add: unsigned_ucast_eq take_bit_eq_mod)

lemma u32_less: "unat v < 2 ^ 32" for v :: u32
  using unsigned_less [of v] by simp

lemma unat_up: "unat (ucast v :: u64) = unat v" for v :: u32
  using u32_less [of v] by (simp add: unsigned_ucast_eq take_bit_eq_mod)

lemma sint_small:
  fixes v :: u64
  assumes "unat v < 2 ^ 63"
  shows "sint v = int (unat v)"
proof -
  have "uint v < 2 ^ 63" using assms nat_less_iff [of "uint v" "2 ^ 63"] by simp
  moreover have "- (2 ^ 63) \<le> uint v" by (rule order.trans [OF _ unsigned_greater_eq]) simp
  ultimately have "signed_take_bit 63 (uint v) = uint v" by (rule signed_take_bit_int_eq_self [rotated])
  then show ?thesis by (simp add: sint_uint)
qed

lemma bit_less_exp:
  fixes v :: "'a::len word"
  assumes "unat v < 2 ^ k" and "bit v n"
  shows "n < k"
proof (rule ccontr)
  assume "\<not> n < k"
  then have "(2::nat) ^ k \<le> 2 ^ n" by (simp add: power_increasing)
  with assms(1) have "unat v < 2 ^ n" by (rule less_le_trans)
  then have "unat v div 2 ^ n = 0" by (rule div_less)
  moreover have "odd (unat v div 2 ^ n)"
    using assms(2) bit_unsigned_iff [where ?'a = nat, of v n] by (simp add: bit_iff_odd)
  ultimately show False by simp
qed

section \<open>Output lines\<close>

text \<open>
  \<^verbatim>\<open>qemu_set_irq(irq, level)\<close> calls the handler at the other end of the line.  A
  device model records the calls it makes, oldest first; what the far end sees as
  the level of a line is the level of the last call on it.
\<close>

type_synonym 'l irq_log = "('l \<times> bool) list"

definition qemu_set_irq :: "'l \<Rightarrow> bool \<Rightarrow> 'l irq_log \<Rightarrow> 'l irq_log" where
  "qemu_set_irq l b lg = lg @ [(l, b)]"

definition qemu_irq_pulse :: "'l \<Rightarrow> 'l irq_log \<Rightarrow> 'l irq_log" where
  "qemu_irq_pulse l lg = qemu_set_irq l False (qemu_set_irq l True lg)"

definition line_level :: "'l irq_log \<Rightarrow> 'l \<Rightarrow> bool" where
  "line_level lg l = fold (\<lambda>(k, b) a. if k = l then b else a) lg False"

lemma line_level_Nil [simp]: "line_level [] l = False"
  by (simp add: line_level_def)

lemma line_level_set [simp]:
  "line_level (qemu_set_irq k b lg) l = (if k = l then b else line_level lg l)"
  by (simp add: line_level_def qemu_set_irq_def)

lemma line_level_pulse [simp]:
  "line_level (qemu_irq_pulse k lg) l = (if k = l then False else line_level lg l)"
  by (simp add: qemu_irq_pulse_def)

text \<open>What a device appended to a log of calls between two of its states.\<close>

definition new_calls :: "'a list \<Rightarrow> 'a list \<Rightarrow> 'a list" where
  "new_calls old new = drop (length old) new"

lemma new_calls_append [simp]: "new_calls lg (lg @ ls) = ls"
  by (simp add: new_calls_def)

lemma new_calls_self [simp]: "new_calls lg lg = []"
  by (simp add: new_calls_def)

text \<open>A level computed by a loop that raises it for every element satisfying a condition.\<close>

lemma fold_raise:
  "fold (\<lambda>n level. if P n then True else level) ns b = (b \<or> (\<exists>n \<in> set ns. P n))"
  by (induction ns arbitrary: b) auto

section \<open>Host failures\<close>

text \<open>
  What stops the emulator process itself: an integer division by zero, and a
  failed \<^verbatim>\<open>g_assert\<close>.  An operation that can do so returns a sum.
\<close>

datatype host_error = Div_by_zero | Assertion_failed

type_synonym 'a result = "host_error + 'a"

definition checked_div :: "u64 \<Rightarrow> u64 \<Rightarrow> u64 result" where
  "checked_div a b = (if b = 0 then Inl Div_by_zero else Inr (a div b))"

lemma checked_div_ok [simp]: "b \<noteq> 0 \<Longrightarrow> checked_div a b = Inr (a div b)"
  by (simp add: checked_div_def)

lemma checked_div_zero [simp]: "checked_div a 0 = Inl Div_by_zero"
  by (simp add: checked_div_def)

section \<open>Bytes\<close>

definition byte_of :: "nat \<Rightarrow> 'a::len word \<Rightarrow> u8" where
  "byte_of i v = ucast (drop_bit (8 * i) v)"

definition lduw_le_p :: "u8 list \<Rightarrow> nat \<Rightarrow> u16" where
  "lduw_le_p bs i = ucast (bs ! i) OR push_bit 8 (ucast (bs ! (i + 1)))"

definition ldl_le_p :: "u8 list \<Rightarrow> nat \<Rightarrow> u32" where
  "ldl_le_p bs i =
     ucast (bs ! i) OR push_bit 8 (ucast (bs ! (i + 1)))
       OR push_bit 16 (ucast (bs ! (i + 2))) OR push_bit 24 (ucast (bs ! (i + 3)))"

definition stl_le :: "u32 \<Rightarrow> u8 list" where
  "stl_le v = [byte_of 0 v, byte_of 1 v, byte_of 2 v, byte_of 3 v]"

lemma length_stl_le [simp]: "length (stl_le v) = 4"
  by (simp add: stl_le_def)

lemma bit_byte_of [bit_simps]:
  "bit (byte_of i v) n \<longleftrightarrow> n < 8 \<and> bit v (8 * i + n)" for v :: "'a::len word"
  by (auto simp: byte_of_def bit_simps dest: bit_imp_le_length)

lemma bit_ldl_le_p:
  "bit (ldl_le_p bs i) n \<longleftrightarrow> n < 32 \<and> bit (bs ! (i + n div 8)) (n mod 8)"
proof (cases "n < 32")
  case True
  define k r where "k = n div 8" and "r = n mod 8"
  then have n: "n = 8 * k + r" and r: "r < 8" by simp_all
  then have k: "k = 0 \<or> k = 1 \<or> k = 2 \<or> k = 3" using True by auto
  have hi: "\<not> bit b m" if "8 \<le> m" for b :: u8 and m
    using that by (auto dest: bit_imp_le_length)
  have "bit (ldl_le_p bs i) (8 * k + r) = bit (bs ! (i + k)) r"
    using k r by (elim disjE) (auto simp: ldl_le_p_def bit_simps hi)
  then show ?thesis using True by (simp add: n [symmetric] k_def [symmetric] r_def [symmetric])
next
  case False
  then show ?thesis by (auto dest: bit_imp_le_length)
qed

lemma nth_stl_le: "k < 4 \<Longrightarrow> stl_le v ! k = byte_of k v"
  by (auto simp: stl_le_def nth_Cons numeral_2_eq_2 numeral_3_eq_3 split: nat.splits)

lemma ldl_stl: "ldl_le_p (stl_le v) 0 = v"
  by (rule bit_word_eqI) (auto simp: bit_ldl_le_p nth_stl_le bit_byte_of less_mult_imp_div_less)

section \<open>Sub-word register writes\<close>

text \<open>
  A byte or halfword store into a 32-bit register replaces the addressed bytes
  only.  \<open>sz\<close> is the access size in bytes, \<open>off\<close> the byte offset.
\<close>

definition subword_shift :: "nat \<Rightarrow> nat" where
  "subword_shift off = (off mod 4) * 8"

definition subword_mask :: "nat \<Rightarrow> nat \<Rightarrow> u32" where
  "subword_mask off sz =
     (if sz \<ge> 4 then NOT 0 else push_bit (subword_shift off) (mask (sz * 8)))"

definition subword_merge :: "u32 \<Rightarrow> nat \<Rightarrow> nat \<Rightarrow> u32 \<Rightarrow> u32" where
  "subword_merge old off sz value =
     (old AND NOT (subword_mask off sz))
       OR (push_bit (subword_shift off) value AND subword_mask off sz)"

lemma bit_subword_mask [bit_simps]:
  "bit (subword_mask off sz) n \<longleftrightarrow>
     n < 32 \<and> (sz \<ge> 4 \<or> subword_shift off \<le> n \<and> n < subword_shift off + sz * 8)"
  by (auto simp: subword_mask_def bit_simps)

lemma subword_merge_word [simp]: "subword_merge old off 4 v = v" if "off mod 4 = 0"
  using that by (simp add: subword_merge_def subword_mask_def subword_shift_def)

lemma subword_merge_outside:
  assumes "sz < 4" and "\<not> (subword_shift off \<le> n \<and> n < subword_shift off + sz * 8)"
  shows "bit (subword_merge old off sz v) n = bit old n"
  using assms by (auto simp: subword_merge_def bit_simps dest: bit_imp_le_length)

section \<open>Counters driven by a clock\<close>

text \<open>
  The timers count \<open>E * f div G\<close> periods in \<open>E\<close> nanoseconds of a clock of \<open>f\<close> hertz (\<open>G\<close> is a
  second) and arm their deadline \<open>k * G div f\<close> nanoseconds ahead to see \<open>k\<close> more periods.  Both
  divisions round down, so at the deadline the counter is at most one period short.
\<close>

lemma deadline_reaches:
  fixes f G E k :: nat
  assumes "0 < f" and "f \<le> G"
  shows "(E + k * G div f) * f div G \<le> E * f div G + k"
    and "E * f div G + k \<le> Suc ((E + k * G div f) * f div G)"
proof -
  let ?d = "k * G div f"
  have G: "0 < G" using assms by simp
  have up: "?d * f \<le> k * G" by (rule div_times_less_eq_dividend)
  have low: "k * G < ?d * f + f" using dividend_less_times_div [OF assms(1), of "k * G"]
    by (simp add: algebra_simps)
  have kG: "(E * f + k * G) div G = E * f div G + k" using G by simp
  have "(E + ?d) * f \<le> E * f + k * G" using up by (simp add: algebra_simps)
  then show "(E + ?d) * f div G \<le> E * f div G + k" using kG div_le_mono by metis
  have "E * f + k * G \<le> (E + ?d) * f + G" using low assms(2) by (simp add: algebra_simps)
  then have "E * f div G + k \<le> ((E + ?d) * f + G) div G" using kG div_le_mono by metis
  then show "E * f div G + k \<le> Suc ((E + ?d) * f div G)"
    using G by (simp only: div_add_self2 Suc_eq_plus1)
qed

end
