(* ===== verification/Mcxn_Interfaces.thy ===== *)
theory Mcxn_Interfaces
  imports Mcxn_Prelude
begin

text \<open>
  The contracts several device models share, each a locale whose laws the
  providing component proves by an interpretation on its own register
  operations: a lock that agents take and release through register accesses
  (SEMA42 gates, the MAILBOX mutex), a bounded sample FIFO that drops on overflow
  (DAC, SAI), a level-driven DMA request line that publishes changes only
  (DAC, SAI), and a device whose events never take the emulator down and keep its
  invariant (FMU, MRT), with the special case of a device whose events cannot fail
  at all (FlexCAN, PINT, GPIO).
\<close>

section \<open>Locks taken through register accesses\<close>

text \<open>
  A run of a lock shared by agents.  An agent that does not hold the lock may try
  to take it; one that holds it may release it; \<open>env\<close> stands for any register
  access outside this protocol.  The second component of a state is the set of
  agents whose last attempt reported success and who have not released since.
\<close>

inductive lock_run ::
  "('a \<Rightarrow> bool) \<Rightarrow> ('a \<Rightarrow> 's \<Rightarrow> bool \<times> 's) \<Rightarrow> ('a \<Rightarrow> 's \<Rightarrow> 's) \<Rightarrow> ('s \<Rightarrow> 's \<Rightarrow> bool) \<Rightarrow> 's
    \<Rightarrow> 's \<Rightarrow> 'a set \<Rightarrow> bool"
  for valid :: "'a \<Rightarrow> bool" and acquire :: "'a \<Rightarrow> 's \<Rightarrow> bool \<times> 's" and unlock :: "'a \<Rightarrow> 's \<Rightarrow> 's"
    and env :: "'s \<Rightarrow> 's \<Rightarrow> bool" and s0 :: 's where
  start: "lock_run valid acquire unlock env s0 s0 {}"
| attempt: "lock_run valid acquire unlock env s0 s H \<Longrightarrow> valid a \<Longrightarrow> a \<notin> H \<Longrightarrow> acquire a s = (ok, s') \<Longrightarrow>
     lock_run valid acquire unlock env s0 s' (if ok then insert a H else H)"
| release: "lock_run valid acquire unlock env s0 s H \<Longrightarrow> a \<in> H \<Longrightarrow>
     lock_run valid acquire unlock env s0 (unlock a s) (H - {a})"
| other: "lock_run valid acquire unlock env s0 s H \<Longrightarrow> env s s' \<Longrightarrow>
     lock_run valid acquire unlock env s0 s' H"

locale lock_device =
  fixes valid :: "'a \<Rightarrow> bool"
    and free :: "'s \<Rightarrow> bool"
    and held :: "'a \<Rightarrow> 's \<Rightarrow> bool"
    and acquire :: "'a \<Rightarrow> 's \<Rightarrow> bool \<times> 's"
    and unlock :: "'a \<Rightarrow> 's \<Rightarrow> 's"
    and env :: "'s \<Rightarrow> 's \<Rightarrow> bool"
  assumes acquire_free: "valid a \<Longrightarrow> free s \<Longrightarrow> acquire a s = (ok, s') \<Longrightarrow> ok \<and> held a s'"
    and acquire_busy: "valid a \<Longrightarrow> valid b \<Longrightarrow> held b s \<Longrightarrow> a \<noteq> b \<Longrightarrow> acquire a s = (ok, s') \<Longrightarrow>
      \<not> ok \<and> held b s'"
    and unlock_held: "valid a \<Longrightarrow> held a s \<Longrightarrow> free (unlock a s)"
    and env_free: "env s s' \<Longrightarrow> free s \<Longrightarrow> free s'"
    and env_held: "env s s' \<Longrightarrow> valid a \<Longrightarrow> held a s \<Longrightarrow> held a s'"
begin

lemma run_owner:
  assumes "lock_run valid acquire unlock env s0 s H" and "free s0"
  shows "H = {} \<and> free s \<or> (\<exists>a. valid a \<and> H = {a} \<and> held a s)"
  using assms
proof (induction rule: lock_run.induct)
  case start
  then show ?case by simp
next
  case (attempt s H a ok s')
  from attempt.IH [OF attempt.prems] show ?case
  proof
    assume "H = {} \<and> free s"
    with attempt.hyps acquire_free [of a s ok s'] show ?thesis by auto
  next
    assume "\<exists>b. valid b \<and> H = {b} \<and> held b s"
    then obtain b where b: "valid b" "H = {b}" "held b s" by blast
    with attempt.hyps have "\<not> ok \<and> held b s'" by (intro acquire_busy [of a b s ok s']) auto
    with b show ?thesis by auto
  qed
next
  case (release s H a)
  then obtain b where "valid b" "H = {b}" "held b s" by auto
  with release.hyps unlock_held show ?case by auto
next
  case (other s H s')
  then show ?case using env_free env_held by blast
qed

lemma mutual_exclusion:
  assumes "lock_run valid acquire unlock env s0 s H" and "free s0" and "a \<in> H" and "b \<in> H"
  shows "a = b"
  using run_owner [OF assms(1,2)] assms(3,4) by auto

lemma obtainable:
  assumes "lock_run valid acquire unlock env s0 s {}" and "free s0" and "valid a"
  shows "fst (acquire a s)"
  using run_owner [OF assms(1,2)] assms(3) acquire_free [of a s "fst (acquire a s)" "snd (acquire a s)"] by auto

end

section \<open>Bounded FIFOs\<close>

text \<open>
  \<open>fifo_outs pop out n s\<close> is what \<open>n\<close> successive pops deliver; \<open>norm\<close> is what the
  device keeps of a pushed word (its data mask).
\<close>

fun fifo_outs :: "('s \<Rightarrow> 's) \<Rightarrow> ('s \<Rightarrow> 'y) \<Rightarrow> nat \<Rightarrow> 's \<Rightarrow> 'y list" where
  "fifo_outs pop out 0 s = []"
| "fifo_outs pop out (Suc n) s = (let s' = pop s in out s' # fifo_outs pop out n s')"

locale bounded_fifo =
  fixes push :: "'x \<Rightarrow> 's \<Rightarrow> 's"
    and pop :: "'s \<Rightarrow> 's"
    and out :: "'s \<Rightarrow> 'y"
    and norm :: "'x \<Rightarrow> 'y"
    and contents :: "'s \<Rightarrow> 'y list"
    and cap :: "nat"
    and inv :: "'s \<Rightarrow> bool"
  assumes contents_bound: "inv s \<Longrightarrow> length (contents s) \<le> cap"
    and inv_push: "inv s \<Longrightarrow> inv (push x s)"
    and inv_pop: "inv s \<Longrightarrow> inv (pop s)"
    and push_room: "inv s \<Longrightarrow> length (contents s) < cap \<Longrightarrow> contents (push x s) = contents s @ [norm x]"
    and push_full: "inv s \<Longrightarrow> length (contents s) = cap \<Longrightarrow> contents (push x s) = contents s"
    and pop_some: "inv s \<Longrightarrow> contents s = y # ys \<Longrightarrow> contents (pop s) = ys \<and> out (pop s) = y"
    and pop_none: "inv s \<Longrightarrow> contents s = [] \<Longrightarrow> contents (pop s) = []"
begin

lemma push_all:
  "inv s \<Longrightarrow> inv (fold push xs s) \<and>
     contents (fold push xs s) = contents s @ map norm (take (cap - length (contents s)) xs)"
proof (induction xs arbitrary: s)
  case Nil
  then show ?case by simp
next
  case (Cons x xs)
  have inv: "inv (push x s)" using Cons.prems by (rule inv_push)
  show ?case
  proof (cases "length (contents s) < cap")
    case True
    then have c: "contents (push x s) = contents s @ [norm x]" using Cons.prems push_room by blast
    from True have "cap - length (contents s) = Suc (cap - Suc (length (contents s)))" by simp
    with Cons.IH [OF inv] show ?thesis by (simp add: c)
  next
    case False
    with contents_bound [OF Cons.prems] have "length (contents s) = cap" by simp
    with Cons.prems push_full have c: "contents (push x s) = contents s" by blast
    with False Cons.IH [OF inv] show ?thesis by simp
  qed
qed

lemma pop_all:
  "inv s \<Longrightarrow> n \<le> length (contents s) \<Longrightarrow>
     fifo_outs pop out n s = take n (contents s) \<and> inv ((pop ^^ n) s)
       \<and> contents ((pop ^^ n) s) = drop n (contents s)"
proof (induction n arbitrary: s)
  case 0
  then show ?case by simp
next
  case (Suc n)
  then obtain y ys where c: "contents s = y # ys" by (cases "contents s") auto
  with Suc.prems have p: "contents (pop s) = ys" "out (pop s) = y" "inv (pop s)"
    using pop_some inv_pop by blast+
  with Suc c have "fifo_outs pop out n (pop s) = take n ys \<and> inv ((pop ^^ n) (pop s))
       \<and> contents ((pop ^^ n) (pop s)) = drop n ys" by simp
  with c p show ?case by (simp add: Let_def funpow_swap1)
qed

text \<open>What goes in comes out, in order, as long as it fitted.\<close>

lemma burst:
  assumes "inv s" and "contents s = []"
  shows "fifo_outs pop out (min cap (length xs)) (fold push xs s) = map norm (take cap xs)"
  using push_all [OF assms(1), of xs] pop_all [of "fold push xs s" "min cap (length xs)"] assms(2)
  by (auto simp: min_def)

end

section \<open>Level request lines\<close>

text \<open>
  A device keeps the last level it published (\<open>level\<close>) and calls the line only when
  the request condition differs from it.  \<open>line\<close> is what the far end has seen.
\<close>

locale request_line =
  fixes cond :: "'s \<Rightarrow> bool"
    and level :: "'s \<Rightarrow> bool"
    and line :: "'s \<Rightarrow> bool"
    and update :: "'s \<Rightarrow> 's"
  assumes update_cond: "cond (update s) = cond s"
    and update_level: "level (update s) = cond s"
    and update_line: "line (update s) = (if cond s = level s then line s else cond s)"
begin

lemma update_tracks:
  "line s = level s \<Longrightarrow> line (update s) = cond (update s) \<and> line (update s) = level (update s)"
  by (simp add: update_cond update_level update_line)

lemma update_idem: "line (update (update s)) = line (update s)"
  by (simp add: update_cond update_level update_line)

end

section \<open>Devices that survive every event\<close>

text \<open>
  \<open>dev_run step es s\<close> lets a device handle the events \<open>es\<close> one after the other; the first
  host failure ends the run.
\<close>

fun dev_run :: "('e \<Rightarrow> 's \<Rightarrow> 's result) \<Rightarrow> 'e list \<Rightarrow> 's \<Rightarrow> 's result" where
  "dev_run step [] s = Inr s"
| "dev_run step (e # es) s = (case step e s of Inl f \<Rightarrow> Inl f | Inr t \<Rightarrow> dev_run step es t)"

lemma dev_run_append:
  "dev_run step (es @ fs) s = (case dev_run step es s of Inl e \<Rightarrow> Inl e | Inr t \<Rightarrow> dev_run step fs t)"
  by (induction es arbitrary: s) (simp_all split: sum.split)

locale live_device =
  fixes step :: "'e \<Rightarrow> 's \<Rightarrow> 's result"
    and inv :: "'s \<Rightarrow> bool"
  assumes step_live: "inv s \<Longrightarrow> \<exists>t. step e s = Inr t \<and> inv t"
begin

lemma run_live: "inv s \<Longrightarrow> \<exists>t. dev_run step es s = Inr t \<and> inv t"
proof (induction es arbitrary: s)
  case Nil
  then show ?case by simp
next
  case (Cons e es)
  from step_live [OF Cons.prems, of e] obtain t where "step e s = Inr t" "inv t" by blast
  with Cons.IH show ?case by simp
qed

lemma run_never_fails: "inv s \<Longrightarrow> dev_run step es s \<noteq> Inl e"
  using run_live [of s es] by auto

end

text \<open>A device with total event handlers is one that survives every event.\<close>

locale total_device =
  fixes handle :: "'e \<Rightarrow> 's \<Rightarrow> 's"
    and good :: "'s \<Rightarrow> bool"
  assumes handle_good: "good s \<Longrightarrow> good (handle e s)"
begin

lemma fold_good: "good s \<Longrightarrow> good (fold handle es s)"
  by (induction es arbitrary: s) (simp_all add: handle_good)

lemma fold_run: "dev_run (\<lambda>e s. Inr (handle e s)) es s = Inr (fold handle es s)"
  by (induction es arbitrary: s) simp_all

end

sublocale total_device \<subseteq> live: live_device "\<lambda>e s. Inr (handle e s)" good
  by unfold_locales (simp add: handle_good)

end
