(* ===== verification/Mcxn_Can_Core.thy ===== *)
theory Mcxn_Can_Core
  imports Mcxn_Interfaces
begin

unbundle bit_operations_syntax

text \<open>
  The emulated CAN bus (\<^verbatim>\<open>net/can/can_core.c\<close>): the data length codes of CAN FD, the list of
  clients on a bus in the order they joined, the delivery of a frame to every other client
  that can receive, and the identifier filter.  A client is its identity with its state; what
  it does with a frame is the pair of callbacks it registers.
\<close>

section \<open>Model\<close>

definition dlc2len :: "nat list" where
  "dlc2len = [0, 1, 2, 3, 4, 5, 6, 7, 8, 12, 16, 20, 24, 32, 48, 64]"

definition can_dlc2len :: "u8 \<Rightarrow> u8" where
  "can_dlc2len dlc = of_nat (dlc2len ! unat (dlc AND 0x0F))"

definition len2dlc :: "nat list" where
  "len2dlc = [0, 1, 2, 3, 4, 5, 6, 7, 8] @ replicate 4 9 @ replicate 4 10 @ replicate 4 11
     @ replicate 4 12 @ replicate 8 13 @ replicate 16 14 @ replicate 16 15"

definition can_len2dlc :: "u8 \<Rightarrow> u8" where
  "can_len2dlc len = (if len > 64 then 0xF else of_nat (len2dlc ! unat len))"

record qemu_can_frame =
  can_id :: u32
  can_dlc :: u8
  can_flags :: u8
  can_data :: "nat \<Rightarrow> u8"

definition QEMU_CAN_EFF_FLAG :: u32 where "QEMU_CAN_EFF_FLAG = 0x80000000"
definition QEMU_CAN_RTR_FLAG :: u32 where "QEMU_CAN_RTR_FLAG = 0x40000000"
definition QEMU_CAN_ERR_FLAG :: u32 where "QEMU_CAN_ERR_FLAG = 0x20000000"
definition QEMU_CAN_SFF_MASK :: u32 where "QEMU_CAN_SFF_MASK = 0x000007FF"
definition QEMU_CAN_EFF_MASK :: u32 where "QEMU_CAN_EFF_MASK = 0x1FFFFFFF"
definition QEMU_CAN_INV_FILTER :: u32 where "QEMU_CAN_INV_FILTER = 0x20000000"

record 'c CanBusClientInfo =
  can_receive :: "'c \<Rightarrow> bool"
  receive :: "'c \<Rightarrow> qemu_can_frame list \<Rightarrow> int \<times> 'c"

type_synonym 'c CanBusState = "(nat \<times> 'c) list"

definition can_bus_instance_init :: "'c CanBusState" where
  "can_bus_instance_init = []"

definition can_bus_insert_client :: "'c CanBusState \<Rightarrow> nat \<Rightarrow> 'c \<Rightarrow> int \<times> 'c CanBusState" where
  "can_bus_insert_client bus client c = (0, bus @ [(client, c)])"

definition can_bus_remove_client :: "'c CanBusState \<Rightarrow> nat \<Rightarrow> int \<times> 'c CanBusState" where
  "can_bus_remove_client bus client =
     (if client \<notin> fst ` set bus then (0, bus) else (1, filter (\<lambda>(p, c). p \<noteq> client) bus))"

text \<open>One peer of the delivery loop.\<close>

definition can_bus_offer ::
  "'c CanBusClientInfo \<Rightarrow> nat \<Rightarrow> qemu_can_frame list \<Rightarrow> nat \<times> 'c \<Rightarrow> bool \<times> nat \<times> 'c" where
  "can_bus_offer info client frames pc =
     (case pc of (p, c) \<Rightarrow>
        if can_receive info c \<and> p \<noteq> client
        then (let (n, c') = receive info c frames in (n > 0, p, c')) else (False, p, c))"

definition can_bus_client_send ::
  "'c CanBusClientInfo \<Rightarrow> 'c CanBusState \<Rightarrow> nat \<Rightarrow> qemu_can_frame list \<Rightarrow> int \<times> 'c CanBusState" where
  "can_bus_client_send info bus client frames =
     (if client \<notin> fst ` set bus then (-1, bus)
      else let offers = map (can_bus_offer info client frames) bus
           in (if \<exists>x \<in> set offers. fst x then 1 else 0, map snd offers))"

definition can_bus_filter_match :: "u32 \<Rightarrow> u32 \<Rightarrow> u32 \<Rightarrow> bool" where
  "can_bus_filter_match filter_id filter_mask cid =
     (if tst (cid OR filter_mask) QEMU_CAN_ERR_FLAG then tst filter_mask QEMU_CAN_ERR_FLAG
      else let m = (cid AND filter_mask = filter_id AND filter_mask)
           in if tst filter_id QEMU_CAN_INV_FILTER then \<not> m else m)"

section \<open>Delivery\<close>

lemma can_bus_send_members [simp]: "map fst (snd (can_bus_client_send info bus client fs)) = map fst bus"
proof -
  have "fst \<circ> (snd \<circ> can_bus_offer info client fs) = fst"
    by (auto simp: can_bus_offer_def fun_eq_iff split: prod.splits)
  then show ?thesis by (simp add: can_bus_client_send_def Let_def)
qed

lemma can_bus_send_length [simp]: "length (snd (can_bus_client_send info bus client fs)) = length bus"
  by (simp add: can_bus_client_send_def Let_def)

text \<open>Every other client that can receive handles the frames once; the others keep their state.\<close>

lemma can_bus_send_nth:
  assumes "client \<in> fst ` set bus" and "i < length bus"
  shows "snd (can_bus_client_send info bus client fs) ! i =
     (fst (bus ! i), if can_receive info (snd (bus ! i)) \<and> fst (bus ! i) \<noteq> client
                     then snd (receive info (snd (bus ! i)) fs) else snd (bus ! i))"
  using assms by (simp add: can_bus_client_send_def Let_def can_bus_offer_def split: prod.splits)

lemma can_bus_send_map_of:
  assumes "client \<in> fst ` set bus"
  shows "map_of (snd (can_bus_client_send info bus client fs)) p =
     map_option (\<lambda>c. if can_receive info c \<and> p \<noteq> client then snd (receive info c fs) else c) (map_of bus p)"
proof -
  have "map_of (map (snd \<circ> can_bus_offer info client fs) xs) p =
     map_option (\<lambda>c. if can_receive info c \<and> p \<noteq> client then snd (receive info c fs) else c) (map_of xs p)" for xs
    by (induction xs) (auto simp: can_bus_offer_def split: prod.splits)
  with assms show ?thesis by (simp add: can_bus_client_send_def Let_def)
qed

section \<open>Properties\<close>

text \<open>
  The data length code conversions agree: a code converts to a length and back
  unchanged, and a length up to 64 converts to the least code whose length holds it.
\<close>

theorem can_dlc_roundtrip:
  "can_len2dlc (can_dlc2len d) = d AND 0x0F
   \<and> (n \<le> 64 \<longrightarrow> n \<le> can_dlc2len (can_len2dlc n) \<and> (\<forall>c < can_len2dlc n. can_dlc2len c < n))"
proof -
  have codes: "\<forall>k \<in> set [0..<16]. can_len2dlc (of_nat (dlc2len ! k)) = of_nat k" by code_simp
  have "d AND 0x0F = take_bit 4 d" by (simp add: take_bit_eq_mask mask_eq_exp_minus_1)
  then have "unat (d AND 0x0F) < 16" by (simp only: unsigned_take_bit_eq) (rule order.strict_trans2 [OF take_bit_nat_less_exp], simp)
  then have "can_len2dlc (can_dlc2len d) = d AND 0x0F" using codes by (simp add: can_dlc2len_def)
  moreover have "n \<le> can_dlc2len (can_len2dlc n) \<and> (\<forall>c < can_len2dlc n. can_dlc2len c < n)" if "n \<le> 64"
  proof -
    have lens: "\<forall>k \<in> set [0..<65]. let m = of_nat k; d = can_len2dlc m in m \<le> can_dlc2len d
        \<and> (\<forall>j \<in> set [0..<unat d]. can_dlc2len (of_nat j) < m)" by code_simp
    have "unat n < 65" using that by (simp add: word_le_nat_alt)
    with lens [THEN bspec, of "unat n"] have l: "n \<le> can_dlc2len (can_len2dlc n)"
      "\<forall>j < unat (can_len2dlc n). can_dlc2len (of_nat j) < n" by (auto simp: Let_def)
    have "can_dlc2len c < n" if "c < can_len2dlc n" for c
      using l(2) [rule_format, of "unat c"] that by (simp add: word_less_nat_alt)
    with l(1) show ?thesis by blast
  qed
  ultimately show ?thesis by blast
qed

theorem can_dlc_roundtrip_witness:
  "can_len2dlc (can_dlc2len 0xFB) = 0xB \<and> 13 \<le> can_dlc2len (can_len2dlc 13)"
  using can_dlc_roundtrip [of "0xFB" 13] by simp

end
