(* ===== verification/Mcxn_Flexcan.thy ===== *)
theory Mcxn_Flexcan
  imports Mcxn_Can_Core
begin

unbundle bit_operations_syntax

text \<open>
  The CAN controller (\<^verbatim>\<open>hw/misc/mcxn_flexcan.c\<close>): the mode handshake of MCR, 32 classic message
  buffers, identifier matching under the global mask, internal loopback, and the transmission
  of a buffer onto the emulated bus.  A controller records the frames it hands to
  \<^verbatim>\<open>can_bus_client_send\<close>; \<open>flexcan_net_write\<close> at the end lets the bus deliver them.
\<close>

section \<open>Model\<close>

record MCXNFlexCanState =
  can_irq :: "unit irq_log"
  can_regs :: "nat \<Rightarrow> u32"
  can_bus_linked :: bool
  can_sent :: "qemu_can_frame list"

definition MCXN_FLEXCAN_SIZE :: nat where "MCXN_FLEXCAN_SIZE = 0x4000"
definition R_MCR :: nat where "R_MCR = 0x000"
definition R_CTRL1 :: nat where "R_CTRL1 = 0x004"
definition R_RXMGMASK :: nat where "R_RXMGMASK = 0x010"
definition R_ESR1 :: nat where "R_ESR1 = 0x020"
definition R_IMASK1 :: nat where "R_IMASK1 = 0x028"
definition R_IFLAG1 :: nat where "R_IFLAG1 = 0x030"
definition R_ESR2 :: nat where "R_ESR2 = 0x038"
definition R_CRCR :: nat where "R_CRCR = 0x044"
definition R_RXFIR :: nat where "R_RXFIR = 0x04C"
definition R_FDCRC :: nat where "R_FDCRC = 0xC08"
definition MB_BASE :: nat where "MB_BASE = 0x080"
definition MB_STRIDE :: nat where "MB_STRIDE = 0x010"
definition MB_COUNT :: nat where "MB_COUNT = 32"

lemmas can_offsets = MCXN_FLEXCAN_SIZE_def R_MCR_def R_CTRL1_def R_RXMGMASK_def R_ESR1_def R_IMASK1_def
  R_IFLAG1_def R_ESR2_def R_CRCR_def R_RXFIR_def R_FDCRC_def MB_BASE_def MB_STRIDE_def MB_COUNT_def

abbreviation CTRL1_LPB :: u32 where "CTRL1_LPB \<equiv> flag 12"
definition MB_CODE_SHIFT :: nat where "MB_CODE_SHIFT = 24"
definition MB_CODE_MASK :: u32 where "MB_CODE_MASK = 0xF"
definition CODE_RX_EMPTY :: u32 where "CODE_RX_EMPTY = 0x4"
definition CODE_RX_FULL :: u32 where "CODE_RX_FULL = 0x2"
definition CODE_RX_OVERRUN :: u32 where "CODE_RX_OVERRUN = 0x6"
definition CODE_TX_DATA :: u32 where "CODE_TX_DATA = 0xC"
abbreviation MB_SRR :: u32 where "MB_SRR \<equiv> flag 22"
abbreviation MB_IDE :: u32 where "MB_IDE \<equiv> flag 21"
abbreviation MB_RTR :: u32 where "MB_RTR \<equiv> flag 20"
definition MB_DLC :: "u32 \<Rightarrow> u32" where "MB_DLC cs = drop_bit 16 cs AND 0xF"

lemmas can_codes = MB_CODE_SHIFT_def MB_CODE_MASK_def CODE_RX_EMPTY_def CODE_RX_FULL_def
  CODE_RX_OVERRUN_def CODE_TX_DATA_def

abbreviation MCR_LPMACK :: u32 where "MCR_LPMACK \<equiv> flag 20"
abbreviation MCR_SUPV :: u32 where "MCR_SUPV \<equiv> flag 23"
abbreviation MCR_FRZACK :: u32 where "MCR_FRZACK \<equiv> flag 24"
abbreviation MCR_SOFTRST :: u32 where "MCR_SOFTRST \<equiv> flag 25"
abbreviation MCR_NOTRDY :: u32 where "MCR_NOTRDY \<equiv> flag 27"
abbreviation MCR_HALT :: u32 where "MCR_HALT \<equiv> flag 28"
abbreviation MCR_FRZ :: u32 where "MCR_FRZ \<equiv> flag 30"
abbreviation MCR_MDIS :: u32 where "MCR_MDIS \<equiv> flag 31"
definition MCR_RESET :: u32 where
  "MCR_RESET = MCR_MDIS OR MCR_FRZ OR MCR_HALT OR MCR_NOTRDY OR MCR_SUPV OR MCR_LPMACK OR 0x0000000F"

definition flexcan_mcr_settle :: "u32 \<Rightarrow> u32" where
  "flexcan_mcr_settle mcr =
     (let freeze = tst mcr MCR_FRZ \<and> tst mcr MCR_HALT; disable = tst mcr MCR_MDIS;
          mcr = mcr AND NOT (MCR_FRZACK OR MCR_LPMACK OR MCR_NOTRDY)
      in if disable then mcr OR (MCR_LPMACK OR MCR_NOTRDY)
         else if freeze then mcr OR (MCR_FRZACK OR MCR_NOTRDY)
         else mcr)"

definition flexcan_update_irq :: "MCXNFlexCanState \<Rightarrow> MCXNFlexCanState" where
  "flexcan_update_irq s =
     s\<lparr>can_irq := qemu_set_irq () (tst (can_regs s (R_IFLAG1 div 4)) (can_regs s (R_IMASK1 div 4))) (can_irq s)\<rparr>"

text \<open>The index of the control word of a message buffer, and the byte of its data words.\<close>

definition mb_index :: "nat \<Rightarrow> nat" where
  "mb_index n = (MB_BASE + n * MB_STRIDE) div 4"

definition mb_code :: "u32 \<Rightarrow> u32" where
  "mb_code cs = drop_bit MB_CODE_SHIFT cs AND MB_CODE_MASK"

definition mb_data :: "(nat \<Rightarrow> u32) \<Rightarrow> nat \<Rightarrow> nat \<Rightarrow> u8" where
  "mb_data regs t i = ucast (drop_bit (24 - 8 * (i mod 4)) (regs (t + 2 + i div 4)) AND 0xFF)"

definition flexcan_frame :: "MCXNFlexCanState \<Rightarrow> nat \<Rightarrow> qemu_can_frame" where
  "flexcan_frame s tx =
     (let t = mb_index tx; cs = can_regs s t; id = can_regs s (t + 1);
          len = (let l = ucast (MB_DLC cs) :: u8 in if l > 8 then 8 else l);
          cid = (if tst cs MB_IDE then (id AND QEMU_CAN_EFF_MASK) OR QEMU_CAN_EFF_FLAG
                 else drop_bit 18 id AND QEMU_CAN_SFF_MASK);
          cid = (if tst cs MB_RTR then cid OR QEMU_CAN_RTR_FLAG else cid)
      in \<lparr>can_id = cid, can_dlc = len, can_flags = 0,
          can_data = (\<lambda>i. if i < unat len then mb_data (can_regs s) t i else 0)\<rparr>)"

definition flexcan_send_to_bus :: "MCXNFlexCanState \<Rightarrow> nat \<Rightarrow> MCXNFlexCanState" where
  "flexcan_send_to_bus s tx = s\<lparr>can_sent := can_sent s @ [flexcan_frame s tx]\<rparr>"

definition flexcan_enabled :: "MCXNFlexCanState \<Rightarrow> bool" where
  "flexcan_enabled s \<longleftrightarrow> \<not> tst (can_regs s (R_MCR div 4)) MCR_MDIS \<and> \<not> tst (can_regs s (R_MCR div 4)) MCR_NOTRDY"

text \<open>The matching process of one receive buffer for an identifier word.\<close>

definition flexcan_listens :: "MCXNFlexCanState \<Rightarrow> u32 \<Rightarrow> nat \<Rightarrow> bool" where
  "flexcan_listens s ident rx \<longleftrightarrow>
     (let r = mb_index rx; code = mb_code (can_regs s r)
      in (code = CODE_RX_EMPTY \<or> code = CODE_RX_FULL \<or> code = CODE_RX_OVERRUN)
         \<and> (ident XOR can_regs s (r + 1)) AND can_regs s (R_RXMGMASK div 4) = 0)"

definition flexcan_rx_code :: "MCXNFlexCanState \<Rightarrow> nat \<Rightarrow> u32" where
  "flexcan_rx_code s rx =
     (if mb_code (can_regs s (mb_index rx)) \<noteq> CODE_RX_EMPTY then CODE_RX_OVERRUN else CODE_RX_FULL)"

text \<open>The loop that packs the payload bytes into the two data words.\<close>

definition flexcan_put_byte :: "nat \<Rightarrow> (nat \<Rightarrow> u8) \<Rightarrow> nat \<Rightarrow> (nat \<Rightarrow> u32) \<Rightarrow> nat \<Rightarrow> u32" where
  "flexcan_put_byte r bytes i regs =
     regs(r + 2 + i div 4 := regs (r + 2 + i div 4) OR push_bit (24 - 8 * (i mod 4)) (ucast (bytes i)))"

definition flexcan_rx_id :: "qemu_can_frame \<Rightarrow> u32" where
  "flexcan_rx_id f = (if tst (can_id f) QEMU_CAN_EFF_FLAG then can_id f AND QEMU_CAN_EFF_MASK
                      else push_bit 18 (can_id f AND QEMU_CAN_SFF_MASK))"

definition flexcan_rx_len :: "qemu_can_frame \<Rightarrow> u8" where
  "flexcan_rx_len f = (if can_dlc f > 8 then 8 else can_dlc f)"

definition flexcan_store :: "MCXNFlexCanState \<Rightarrow> qemu_can_frame \<Rightarrow> nat \<Rightarrow> MCXNFlexCanState" where
  "flexcan_store s f rx =
     (let r = mb_index rx; code = flexcan_rx_code s rx; len = flexcan_rx_len f;
          regs = (can_regs s)(r + 1 := flexcan_rx_id f, r + 2 := 0, r + 3 := 0);
          regs = fold (flexcan_put_byte r (can_data f)) [0..<unat len] regs;
          regs = regs(r := push_bit MB_CODE_SHIFT code OR push_bit 16 (ucast len)
                             OR (if tst (can_id f) QEMU_CAN_EFF_FLAG then MB_IDE OR MB_SRR else 0)
                             OR (if tst (can_id f) QEMU_CAN_RTR_FLAG then MB_RTR else 0));
          regs = regs(R_IFLAG1 div 4 := regs (R_IFLAG1 div 4) OR flag rx)
      in flexcan_update_irq (s\<lparr>can_regs := regs\<rparr>))"

definition flexcan_bus_receive :: "MCXNFlexCanState \<Rightarrow> qemu_can_frame list \<Rightarrow> int \<times> MCXNFlexCanState" where
  "flexcan_bus_receive s frames =
     (case frames of [] \<Rightarrow> (0, s)
      | f # _ \<Rightarrow>
        if tst (can_id f) QEMU_CAN_ERR_FLAG \<or> \<not> flexcan_enabled s then (int (length frames), s)
        else case find (flexcan_listens s (flexcan_rx_id f)) [0..<MB_COUNT] of
            None \<Rightarrow> (1, s)
          | Some rx \<Rightarrow> (1, flexcan_store s f rx))"

definition flexcan_bus_can_receive :: "MCXNFlexCanState \<Rightarrow> bool" where
  "flexcan_bus_can_receive s = flexcan_enabled s"

definition flexcan_bus_client_info :: "MCXNFlexCanState CanBusClientInfo" where
  "flexcan_bus_client_info = \<lparr>can_receive = flexcan_bus_can_receive, receive = flexcan_bus_receive\<rparr>"

text \<open>The loopback branch of \<^verbatim>\<open>flexcan_transmit\<close>.\<close>

definition flexcan_loop_back :: "MCXNFlexCanState \<Rightarrow> nat \<Rightarrow> MCXNFlexCanState" where
  "flexcan_loop_back s tx =
     (let t = mb_index tx; regs = can_regs s
      in case find (\<lambda>rx. rx \<noteq> tx \<and> flexcan_listens s (regs (t + 1)) rx) [0..<MB_COUNT] of
          None \<Rightarrow> s
        | Some rx \<Rightarrow>
            let r = mb_index rx;
                regs = regs(r := push_bit MB_CODE_SHIFT (flexcan_rx_code s rx) OR (regs t AND 0x00FF0000));
                regs = regs(r + 1 := can_regs s (t + 1));
                regs = regs(r + 2 := regs (t + 2));
                regs = regs(r + 3 := regs (t + 3))
            in s\<lparr>can_regs := regs(R_IFLAG1 div 4 := regs (R_IFLAG1 div 4) OR flag rx)\<rparr>)"

definition flexcan_transmit :: "MCXNFlexCanState \<Rightarrow> nat \<Rightarrow> MCXNFlexCanState" where
  "flexcan_transmit s tx =
     (if \<not> flexcan_enabled s then s
      else let s = (if can_bus_linked s \<and> \<not> tst (can_regs s (R_CTRL1 div 4)) CTRL1_LPB then flexcan_send_to_bus s tx
                    else if tst (can_regs s (R_CTRL1 div 4)) CTRL1_LPB then flexcan_loop_back s tx
                    else s)
           in flexcan_update_irq
                (s\<lparr>can_regs := (can_regs s)(R_IFLAG1 div 4 := can_regs s (R_IFLAG1 div 4) OR flag tx)\<rparr>))"

definition flexcan_size_mask :: "nat \<Rightarrow> u32" where
  "flexcan_size_mask sz = (if sz = 4 then 0xFFFFFFFF else flag (sz * 8) - 1)"

definition flexcan_read :: "MCXNFlexCanState \<Rightarrow> nat \<Rightarrow> nat \<Rightarrow> u64" where
  "flexcan_read s off sz =
     (if off \<ge> MCXN_FLEXCAN_SIZE then 0
      else let w = 4 * (off div 4);
               v = (if w = R_ESR2 \<or> w = R_CRCR \<or> w = R_RXFIR \<or> w = R_FDCRC then 0 else can_regs s (off div 4))
           in ucast (drop_bit ((off mod 4) * 8) v AND flexcan_size_mask sz))"

definition flexcan_write :: "MCXNFlexCanState \<Rightarrow> nat \<Rightarrow> u64 \<Rightarrow> nat \<Rightarrow> MCXNFlexCanState" where
  "flexcan_write s off value sz =
     (let idx = off div 4; shift = (off mod 4) * 8; w = 4 * (off div 4);
          msk = (if sz = 4 then 0xFFFFFFFF else push_bit shift (flexcan_size_mask sz));
          new = ucast (push_bit shift value) AND msk :: u32;
          v = (can_regs s idx AND NOT msk) OR new
      in if off \<ge> MCXN_FLEXCAN_SIZE then s
         else if w = R_MCR then
           s\<lparr>can_regs := (can_regs s)(idx := flexcan_mcr_settle (v AND NOT MCR_SOFTRST))\<rparr>
         else if w = R_ESR1 then s\<lparr>can_regs := (can_regs s)(idx := can_regs s idx AND NOT new)\<rparr>
         else if w = R_IFLAG1 then
           flexcan_update_irq (s\<lparr>can_regs := (can_regs s)(idx := can_regs s idx AND NOT new)\<rparr>)
         else if w = R_IMASK1 then flexcan_update_irq (s\<lparr>can_regs := (can_regs s)(idx := v)\<rparr>)
         else if w = R_ESR2 \<or> w = R_CRCR \<or> w = R_RXFIR \<or> w = R_FDCRC then s
         else let s = s\<lparr>can_regs := (can_regs s)(idx := v)\<rparr>
              in if off \<ge> MB_BASE \<and> off < MB_BASE + MB_COUNT * MB_STRIDE \<and> (off - MB_BASE) mod MB_STRIDE = 0
                    \<and> mb_code v = CODE_TX_DATA
                 then flexcan_transmit s ((off - MB_BASE) div MB_STRIDE) else s)"

definition rst_can0 :: "(nat \<times> u32) list" where
  "rst_can0 = [(0x000, 0xD890000F), (0x034, 0x00A00000), (0xB00, 0x00000100), (0xB10, 0x00000008),
     (0xC00, 0x80000100)]"

definition mcxn_flexcan_reset :: "MCXNFlexCanState \<Rightarrow> MCXNFlexCanState" where
  "mcxn_flexcan_reset s =
     s\<lparr>can_regs := (fold (\<lambda>(off, v) regs. regs(off div 4 := v)) rst_can0 (\<lambda>_. 0))(R_MCR div 4 := MCR_RESET)\<rparr>"

definition mcxn_flexcan_post_load :: "MCXNFlexCanState \<Rightarrow> MCXNFlexCanState" where
  "mcxn_flexcan_post_load s = flexcan_update_irq s"

text \<open>
  Controllers on one bus.  A register write of the controller \<open>client\<close> hands its frames to
  \<^verbatim>\<open>can_bus_client_send\<close>, which never comes back to the sender.
\<close>

definition flexcan_net_write ::
  "MCXNFlexCanState CanBusState \<Rightarrow> nat \<Rightarrow> nat \<Rightarrow> u64 \<Rightarrow> nat \<Rightarrow> MCXNFlexCanState CanBusState" where
  "flexcan_net_write bus client off value sz =
     (case map_of bus client of None \<Rightarrow> bus
      | Some s \<Rightarrow>
        let s' = flexcan_write (s\<lparr>can_sent := []\<rparr>) off value sz;
            bus = map (\<lambda>(p, c). (p, if p = client then s' else c)) bus
        in fold (\<lambda>f b. snd (can_bus_client_send flexcan_bus_client_info b client [f])) (can_sent s') bus)"

section \<open>Payload\<close>

lemma mb_index_eq: "mb_index n = 32 + 4 * n"
  by (simp add: mb_index_def MB_BASE_def MB_STRIDE_def)

lemma bit_mb_data:
  "bit (mb_data regs t i) m \<longleftrightarrow> m < 8 \<and> bit (regs (t + 2 + i div 4)) (24 - 8 * (i mod 4) + m)"
proof -
  have m: "(0xFF :: u32) = mask 8" by (simp add: mask_eq_exp_minus_1)
  show ?thesis unfolding mb_data_def m by (auto simp: bit_simps dest: bit_imp_le_length)
qed

lemma mb_data_cong: "(\<And>x. x = t + 2 \<or> x = t + 3 \<Longrightarrow> f x = g x) \<Longrightarrow> i < 8 \<Longrightarrow> mb_data f t i = mb_data g t i"
proof -
  assume eq: "\<And>x. x = t + 2 \<or> x = t + 3 \<Longrightarrow> f x = g x" and i: "i < 8"
  have "i div 4 = 0 \<or> i div 4 = 1" using i by auto
  then have "f (t + 2 + i div 4) = g (t + 2 + i div 4)" by (intro eq) auto
  then show ?thesis by (simp add: mb_data_def)
qed

lemma put_byte_data:
  assumes "i < 8" and "j < 8" and "mb_data regs r j = 0"
  shows "mb_data (flexcan_put_byte r bytes j regs) r i = (if i = j then bytes j else mb_data regs r i)"
proof (rule bit_word_eqI)
  fix m assume "m < LENGTH(8)"
  then have m: "m < 8" by simp
  have z: "\<not> bit (regs (r + 2 + j div 4)) (24 - 8 * (j mod 4) + m)"
    using assms(3) m bit_mb_data [of regs r j m] by simp
  have d: "i = j \<longleftrightarrow> i div 4 = j div 4 \<and> i mod 4 = j mod 4" by (metis div_mult_mod_eq)
  have k: "24 - 8 * (i mod 4) + m \<ge> 24 - 8 * (j mod 4) \<and> 24 - 8 * (i mod 4) + m - (24 - 8 * (j mod 4)) < 8
      \<longleftrightarrow> i mod 4 = j mod 4"
  proof -
    have "i mod 4 < 4" "j mod 4 < 4" by simp_all
    then have "i mod 4 \<in> {0, 1, 2, 3}" "j mod 4 \<in> {0, 1, 2, 3}" by auto
    with m show ?thesis by auto
  qed
  have w: "24 - 8 * (j mod 4) + m < 32" using m by simp
  have h: "bit (bytes j) q \<Longrightarrow> q < 8" for q using bit_imp_le_length [of "bytes j" q] by simp
  show "bit (mb_data (flexcan_put_byte r bytes j regs) r i) m = bit (if i = j then bytes j else mb_data regs r i) m"
    using m z d k h w by (auto simp: bit_mb_data flexcan_put_byte_def bit_simps)
qed

lemma put_bytes_data:
  assumes "n \<le> 8" and "regs (r + 2) = 0" and "regs (r + 3) = 0"
  shows "i < 8 \<Longrightarrow> mb_data (fold (flexcan_put_byte r bytes) [0..<n] regs) r i = (if i < n then bytes i else 0)"
  using assms(1)
proof (induction n arbitrary: i)
  case 0
  have "mb_data regs r i = mb_data (\<lambda>_. 0) r i" using assms(2,3) 0 by (intro mb_data_cong) auto
  then show ?case by (simp add: mb_data_def)
next
  case (Suc n)
  let ?regs = "fold (flexcan_put_byte r bytes) [0..<n] regs"
  have "mb_data ?regs r n = 0" using Suc.IH [of n] Suc.prems by simp
  with Suc show ?case by (auto simp: put_byte_data less_Suc_eq)
qed

lemma put_bytes_other:
  assumes "n \<le> 8" and "x \<noteq> r + 2" and "x \<noteq> r + 3"
  shows "fold (flexcan_put_byte r bytes) [0..<n] regs x = regs x"
  using assms(1)
proof (induction n)
  case 0
  then show ?case by simp
next
  case (Suc n)
  then have "n div 4 = 0 \<or> n div 4 = 1" by auto
  with Suc assms(2,3) show ?case by (auto simp: flexcan_put_byte_def)
qed

section \<open>Sending and receiving\<close>

lemma flexcan_rx_len_le: "unat (flexcan_rx_len f) \<le> 8"
  by (auto simp: flexcan_rx_len_def word_le_nat_alt not_less)

lemma flexcan_store_regs:
  fixes rx s f
  defines "s' \<equiv> flexcan_store s f rx" and "r \<equiv> mb_index rx"
  shows "i < 8 \<Longrightarrow> mb_data (can_regs s') r i = (if i < unat (flexcan_rx_len f) then can_data f i else 0)"
    and "can_regs s' (r + 1) = flexcan_rx_id f"
    and "can_regs s' r = push_bit MB_CODE_SHIFT (flexcan_rx_code s rx) OR push_bit 16 (ucast (flexcan_rx_len f))
           OR (if tst (can_id f) QEMU_CAN_EFF_FLAG then MB_IDE OR MB_SRR else 0)
           OR (if tst (can_id f) QEMU_CAN_RTR_FLAG then MB_RTR else 0)"
    and "can_regs s' (R_IFLAG1 div 4) = can_regs s (R_IFLAG1 div 4) OR flag rx"
    and "x \<notin> {r, r + 1, r + 2, r + 3, R_IFLAG1 div 4} \<Longrightarrow> can_regs s' x = can_regs s x"
proof -
  let ?base = "(can_regs s)(r + 1 := flexcan_rx_id f, r + 2 := 0, r + 3 := 0)"
  let ?put = "fold (flexcan_put_byte r (can_data f)) [0..<unat (flexcan_rx_len f)] ?base"
  have r: "r = 32 + 4 * rx" by (simp add: r_def mb_index_eq)
  have s': "can_regs s' = (let regs = ?put(r := push_bit MB_CODE_SHIFT (flexcan_rx_code s rx)
           OR push_bit 16 (ucast (flexcan_rx_len f))
           OR (if tst (can_id f) QEMU_CAN_EFF_FLAG then MB_IDE OR MB_SRR else 0)
           OR (if tst (can_id f) QEMU_CAN_RTR_FLAG then MB_RTR else 0))
      in regs(R_IFLAG1 div 4 := regs (R_IFLAG1 div 4) OR flag rx))"
    by (simp add: s'_def flexcan_store_def flexcan_update_irq_def Let_def r_def del: tst_flag)
  have other: "x \<noteq> r + 2 \<Longrightarrow> x \<noteq> r + 3 \<Longrightarrow> ?put x = ?base x" for x
    using flexcan_rx_len_le by (rule put_bytes_other)
  show "mb_data (can_regs s') r i = (if i < unat (flexcan_rx_len f) then can_data f i else 0)" if "i < 8"
  proof -
    have "mb_data (can_regs s') r i = mb_data ?put r i"
      using that r by (intro mb_data_cong) (auto simp: s' Let_def can_offsets)
    then show ?thesis using put_bytes_data [OF flexcan_rx_len_le _ _ that] by simp
  qed
  show "can_regs s' (r + 1) = flexcan_rx_id f"
    and "can_regs s' (R_IFLAG1 div 4) = can_regs s (R_IFLAG1 div 4) OR flag rx"
    using other r by (simp_all add: s' Let_def can_offsets)
  show "can_regs s' r = push_bit MB_CODE_SHIFT (flexcan_rx_code s rx) OR push_bit 16 (ucast (flexcan_rx_len f))
           OR (if tst (can_id f) QEMU_CAN_EFF_FLAG then MB_IDE OR MB_SRR else 0)
           OR (if tst (can_id f) QEMU_CAN_RTR_FLAG then MB_RTR else 0)"
    using r by (simp add: s' Let_def can_offsets del: tst_flag)
  show "can_regs s' x = can_regs s x" if "x \<notin> {r, r + 1, r + 2, r + 3, R_IFLAG1 div 4}"
    using that other by (simp add: s' Let_def)
qed

lemma can_flags_bits:
  "QEMU_CAN_EFF_FLAG = flag 31" "QEMU_CAN_RTR_FLAG = flag 30" "QEMU_CAN_ERR_FLAG = flag 29"
  "QEMU_CAN_EFF_MASK = mask 29" "QEMU_CAN_SFF_MASK = mask 11"
  by (simp_all add: QEMU_CAN_EFF_FLAG_def QEMU_CAN_RTR_FLAG_def QEMU_CAN_ERR_FLAG_def QEMU_CAN_EFF_MASK_def
      QEMU_CAN_SFF_MASK_def flag_def mask_eq_exp_minus_1)

text \<open>The identifier word a receiver computes from a transmitted buffer: its 29-bit or its 11-bit part.\<close>

definition flexcan_ident :: "u32 \<Rightarrow> u32 \<Rightarrow> u32" where
  "flexcan_ident cs w = (if tst cs MB_IDE then w AND mask 29 else w AND push_bit 18 (mask 11))"

lemma flexcan_frame_fields:
  fixes s tx
  defines "f \<equiv> flexcan_frame s tx" and "cs \<equiv> can_regs s (mb_index tx)"
  shows "flexcan_rx_id f = flexcan_ident cs (can_regs s (mb_index tx + 1))"
    and "tst (can_id f) QEMU_CAN_EFF_FLAG = tst cs MB_IDE"
    and "tst (can_id f) QEMU_CAN_RTR_FLAG = tst cs MB_RTR"
    and "\<not> tst (can_id f) QEMU_CAN_ERR_FLAG"
    and "unat (flexcan_rx_len f) = min 8 (unat (MB_DLC cs))"
    and "i < 8 \<Longrightarrow> can_data f i = (if i < min 8 (unat (MB_DLC cs)) then mb_data (can_regs s) (mb_index tx) i else 0)"
proof -
  let ?id = "can_regs s (mb_index tx + 1)"
  have cid: "can_id f = (let cid = (if tst cs MB_IDE then (?id AND mask 29) OR flag 31 else drop_bit 18 ?id AND mask 11)
      in if tst cs MB_RTR then cid OR flag 30 else cid)"
    by (simp add: f_def cs_def flexcan_frame_def Let_def can_flags_bits del: tst_flag)
  show eff: "tst (can_id f) QEMU_CAN_EFF_FLAG = tst cs MB_IDE"
    and "tst (can_id f) QEMU_CAN_RTR_FLAG = tst cs MB_RTR" and "\<not> tst (can_id f) QEMU_CAN_ERR_FLAG"
    by (auto simp: cid can_flags_bits Let_def bit_simps)
  show "flexcan_rx_id f = flexcan_ident cs ?id"
    unfolding flexcan_rx_id_def eff flexcan_ident_def
    by (rule bit_word_eqI) (auto simp: cid can_flags_bits Let_def bit_simps)
  have "MB_DLC cs = take_bit 4 (drop_bit 16 cs)" by (simp add: MB_DLC_def take_bit_eq_mask mask_eq_exp_minus_1)
  then have d: "unat (MB_DLC cs) < 16"
    by (simp only: unsigned_take_bit_eq) (rule order.strict_trans2 [OF take_bit_nat_less_exp], simp)
  then have u: "unat (ucast (MB_DLC cs) :: u8) = unat (MB_DLC cs)"
    by (simp add: unsigned_ucast_eq take_bit_nat_eq_self)
  have dlc: "can_dlc f = (if (ucast (MB_DLC cs) :: u8) > 8 then 8 else ucast (MB_DLC cs))"
    by (simp add: f_def cs_def flexcan_frame_def Let_def)
  have len: "unat (can_dlc f) = min 8 (unat (MB_DLC cs))" unfolding dlc using u by (auto simp: word_less_nat_alt)
  then show "unat (flexcan_rx_len f) = min 8 (unat (MB_DLC cs))"
    by (simp add: flexcan_rx_len_def word_less_nat_alt)
  show "can_data f i = (if i < min 8 (unat (MB_DLC cs)) then mb_data (can_regs s) (mb_index tx) i else 0)"
    unfolding len [symmetric] by (simp add: f_def flexcan_frame_def Let_def)
qed

text \<open>Arming a buffer of a controller on the bus.\<close>

definition flexcan_on_bus :: "MCXNFlexCanState \<Rightarrow> bool" where
  "flexcan_on_bus s \<longleftrightarrow> flexcan_enabled s \<and> can_bus_linked s \<and> \<not> tst (can_regs s (R_CTRL1 div 4)) CTRL1_LPB"

lemma flexcan_arm_write:
  fixes s tx v
  defines "u \<equiv> s\<lparr>can_regs := (can_regs s)(mb_index tx := ucast v)\<rparr>"
  assumes "tx < MB_COUNT" and "mb_code (ucast v) = CODE_TX_DATA"
  shows "flexcan_write s (MB_BASE + tx * MB_STRIDE) v 4 = flexcan_transmit u tx"
proof -
  have off: "(MB_BASE + tx * MB_STRIDE) div 4 = mb_index tx" "(MB_BASE + tx * MB_STRIDE) mod 4 = 0"
    "4 * mb_index tx = 128 + 16 * tx" by (simp_all add: mb_index_eq can_offsets)
  have ones: "(0xFFFFFFFF :: u32) = - 1" "(- 0x100000000 :: u32) = 0" by simp_all
  have full: "x AND - 0x100000000 OR y AND 0xFFFFFFFF = y" for x y :: u32
    unfolding ones by simp
  show ?thesis
    using assms(2,3) unfolding flexcan_write_def Let_def off
    by (simp add: u_def can_offsets full)
qed

lemma flexcan_transmit_on_bus:
  assumes "flexcan_on_bus s"
  shows "flexcan_transmit s tx =
    flexcan_update_irq (s\<lparr>can_sent := can_sent s @ [flexcan_frame s tx],
        can_regs := (can_regs s)(R_IFLAG1 div 4 := can_regs s (R_IFLAG1 div 4) OR flag tx)\<rparr>)"
  using assms by (simp add: flexcan_on_bus_def flexcan_transmit_def flexcan_send_to_bus_def Let_def)

lemma flexcan_receive_stores:
  assumes "flexcan_enabled s" and "\<not> tst (can_id f) QEMU_CAN_ERR_FLAG"
    and "flexcan_listens s (flexcan_rx_id f) rx" and "rx < MB_COUNT"
    and "\<And>m. m < rx \<Longrightarrow> \<not> flexcan_listens s (flexcan_rx_id f) m"
  shows "flexcan_bus_receive s [f] = (1, flexcan_store s f rx)"
proof -
  have "find (flexcan_listens s (flexcan_rx_id f)) [0..<MB_COUNT] = Some rx"
    using assms(3-5) by (auto simp: find_Some_iff intro!: exI [of _ rx])
  with assms(1,2) show ?thesis by (simp add: flexcan_bus_receive_def)
qed

text \<open>Taking the control word of a receive buffer apart again.\<close>

lemma flexcan_cs_fields:
  fixes code :: u32 and len :: u8 and i r :: bool
  assumes "unat code < 16" and "unat len \<le> 8"
  defines "cs \<equiv> push_bit MB_CODE_SHIFT code OR push_bit 16 (ucast len)
           OR (if i then MB_IDE OR MB_SRR else 0) OR (if r then MB_RTR else 0)"
  shows "mb_code cs = code" and "MB_DLC cs = ucast len" and "tst cs MB_IDE = i" and "tst cs MB_RTR = r"
proof -
  have c: "bit code n \<Longrightarrow> n < 4" for n using assms(1) bit_less_exp [of code 4 n] by simp
  have l: "bit len n \<Longrightarrow> n < 4" for n using assms(2) bit_less_exp [of len 4 n] by simp
  have m: "(0xF :: u32) = mask 4" by (simp add: mask_eq_exp_minus_1)
  show "mb_code cs = code"
    unfolding mb_code_def cs_def MB_CODE_SHIFT_def MB_CODE_MASK_def m
    by (rule bit_word_eqI) (auto simp: bit_simps dest: c l)
  show "MB_DLC cs = ucast len"
    unfolding MB_DLC_def cs_def MB_CODE_SHIFT_def m
    by (rule bit_word_eqI) (auto simp: bit_simps dest: c l)
  have "\<not> bit len 5" "\<not> bit len 4" using l [of 5] l [of 4] by auto
  then show "tst cs MB_IDE = i" and "tst cs MB_RTR = r"
    unfolding cs_def MB_CODE_SHIFT_def by (auto simp: bit_simps)
qed

lemma flexcan_rx_code_small: "unat (flexcan_rx_code s rx) < 16"
  by (simp add: flexcan_rx_code_def CODE_RX_OVERRUN_def CODE_RX_FULL_def)

lemma flexcan_net_delivers:
  assumes "map_of bus p = Some a" and "map_of bus q = Some b" and "p \<noteq> q" and "can_sent a' = [f]"
    and "flexcan_write (a\<lparr>can_sent := []\<rparr>) off v sz = a'" and "flexcan_enabled b"
  shows "map_of (flexcan_net_write bus p off v sz) p = Some a'"
    and "map_of (flexcan_net_write bus p off v sz) q = Some (snd (flexcan_bus_receive b [f]))"
proof -
  let ?bus = "map (\<lambda>(m, c). (m, if m = p then a' else c)) bus"
  have m: "map_of (map (\<lambda>(m, c). (m, if m = p then a' else c)) xs) k
      = map_option (\<lambda>c. if k = p then a' else c) (map_of xs k)" for xs k
    by (induction xs) auto
  have "p \<in> fst ` set bus" using assms(1) by (force dest: map_of_SomeD)
  then have p: "p \<in> fst ` set ?bus" by force
  have n: "flexcan_net_write bus p off v sz = snd (can_bus_client_send flexcan_bus_client_info ?bus p [f])"
    using assms(1,4,5) by (simp add: flexcan_net_write_def Let_def)
  show "map_of (flexcan_net_write bus p off v sz) p = Some a'"
    and "map_of (flexcan_net_write bus p off v sz) q = Some (snd (flexcan_bus_receive b [f]))"
    unfolding n can_bus_send_map_of [OF p] using assms(1-3,6)
    by (simp_all add: m flexcan_bus_client_info_def flexcan_bus_can_receive_def)
qed

section \<open>Properties\<close>

text \<open>
  C5: a frame crosses the bus intact: arming a transmit buffer of one controller fills the first
  listening buffer of another with the identifier, the control bits, the length and the payload
  of that buffer, marks it FULL, or OVERRUN if it had not been emptied, and flags both buffers.
\<close>

theorem flexcan_frame_crosses_bus:
  assumes "map_of bus p = Some a" and "map_of bus q = Some b" and "p \<noteq> q"
    and "flexcan_on_bus a" and "flexcan_enabled b" and "tx < MB_COUNT" and "mb_code (ucast v) = CODE_TX_DATA"
    and "flexcan_listens b (flexcan_ident (ucast v) (can_regs a (mb_index tx + 1))) rx" and "rx < MB_COUNT"
    and "\<And>m. m < rx \<Longrightarrow> \<not> flexcan_listens b (flexcan_ident (ucast v) (can_regs a (mb_index tx + 1))) m"
  shows "\<exists>a' b'. map_of (flexcan_net_write bus p (MB_BASE + tx * MB_STRIDE) v 4) p = Some a'
     \<and> map_of (flexcan_net_write bus p (MB_BASE + tx * MB_STRIDE) v 4) q = Some b'
     \<and> (\<forall>i < 8. mb_data (can_regs b') (mb_index rx) i
          = (if i < min 8 (unat (MB_DLC (ucast v))) then mb_data (can_regs a) (mb_index tx) i else 0))
     \<and> can_regs b' (mb_index rx + 1) = flexcan_ident (ucast v) (can_regs a (mb_index tx + 1))
     \<and> unat (MB_DLC (can_regs b' (mb_index rx))) = min 8 (unat (MB_DLC (ucast v)))
     \<and> tst (can_regs b' (mb_index rx)) MB_IDE = tst (ucast v) MB_IDE
     \<and> tst (can_regs b' (mb_index rx)) MB_RTR = tst (ucast v) MB_RTR
     \<and> mb_code (can_regs b' (mb_index rx)) = flexcan_rx_code b rx
     \<and> bit (can_regs b' (R_IFLAG1 div 4)) rx \<and> bit (can_regs a' (R_IFLAG1 div 4)) tx"
proof -
  let ?u = "a\<lparr>can_sent := [], can_regs := (can_regs a)(mb_index tx := ucast v)\<rparr>"
  let ?f = "flexcan_frame ?u tx"
  let ?a = "flexcan_write (a\<lparr>can_sent := []\<rparr>) (MB_BASE + tx * MB_STRIDE) v 4"
  have on: "flexcan_on_bus ?u"
    using assms(4) by (simp add: flexcan_on_bus_def flexcan_enabled_def mb_index_eq can_offsets)
  have a: "?a = flexcan_transmit ?u tx"
    using flexcan_arm_write [OF assms(6,7), of "a\<lparr>can_sent := []\<rparr>"] by simp
  note tr = flexcan_transmit_on_bus [OF on, of tx]
  have sent: "can_sent ?a = [?f]" and ia: "bit (can_regs ?a (R_IFLAG1 div 4)) tx"
    using assms(6) unfolding a tr by (simp_all add: flexcan_update_irq_def MB_COUNT_def)
  note f = flexcan_frame_fields [where s = ?u and tx = tx, simplified]
  have d: "mb_data (can_regs ?u) (mb_index tx) i = mb_data (can_regs a) (mb_index tx) i" if "i < 8" for i
    using that by (intro mb_data_cong) auto
  have r: "flexcan_bus_receive b [?f] = (1, flexcan_store b ?f rx)"
    using assms(5,8-10) f(1,4) by (intro flexcan_receive_stores) simp_all
  note net = flexcan_net_delivers [OF assms(1-3) sent refl assms(5), unfolded r snd_conv]
  define g where "g = flexcan_frame ?u tx"
  note f = f [folded g_def] and net = net [folded g_def]
  note st = flexcan_store_regs [where s = b and f = g and rx = rx]
  note cs = flexcan_cs_fields [OF flexcan_rx_code_small [of b rx] flexcan_rx_len_le [of g],
      where i = "tst (can_id g) QEMU_CAN_EFF_FLAG" and r = "tst (can_id g) QEMU_CAN_RTR_FLAG", folded st(3)]
  let ?b = "flexcan_store b g rx"
  have "mb_data (can_regs ?b) (mb_index rx) i
      = (if i < min 8 (unat (MB_DLC (ucast v))) then mb_data (can_regs a) (mb_index tx) i else 0)" if "i < 8" for i
    using that d st(1) [OF that] f(5,6) by simp
  moreover have "can_regs ?b (mb_index rx + 1) = flexcan_ident (ucast v) (can_regs a (mb_index tx + 1))"
    using st(2) f(1) by simp
  moreover have "unat (MB_DLC (can_regs ?b (mb_index rx))) = min 8 (unat (MB_DLC (ucast v)))"
    unfolding cs(2) f(5) [symmetric] using unsigned_less [where ?'a = nat, of "flexcan_rx_len g"]
    by (simp add: unsigned_ucast_eq take_bit_nat_eq_self)
  moreover have "tst (can_regs ?b (mb_index rx)) MB_IDE = tst (ucast v) MB_IDE"
    "tst (can_regs ?b (mb_index rx)) MB_RTR = tst (ucast v) MB_RTR"
    unfolding cs(3,4) using f(2,3) by simp_all
  moreover have "bit (can_regs ?b (R_IFLAG1 div 4)) rx" unfolding st(4) using assms(9) by (simp add: MB_COUNT_def)
  ultimately show ?thesis using net ia cs(1)
    by (intro exI [of _ ?a] exI [of _ ?b] conjI) (assumption | blast)+
qed

theorem flexcan_frame_crosses_bus_witness:
  "let a = \<lparr>can_irq = [], can_regs = (\<lambda>_. 0)(45 := 0x048C0000, 46 := 0xDEADBEEF, 47 := 0x01020304),
            can_bus_linked = True, can_sent = []\<rparr>;
       b = \<lparr>can_irq = [], can_regs = (\<lambda>_. 0)(4 := 0x1FFC0000, 52 := 0x04000000, 53 := 0x048C0000),
            can_bus_linked = True, can_sent = []\<rparr>
   in \<exists>b'. map_of (flexcan_net_write [(0, a), (1, b)] 0 (MB_BASE + 3 * MB_STRIDE) 0x0C080000 4) 1 = Some b'
       \<and> mb_data (can_regs b') (mb_index 5) 0 = 0xDE \<and> mb_data (can_regs b') (mb_index 5) 7 = 0x04
       \<and> mb_code (can_regs b' (mb_index 5)) = CODE_RX_FULL \<and> bit (can_regs b' (R_IFLAG1 div 4)) 5"
proof -
  define a where "a = \<lparr>can_irq = [], can_regs = (\<lambda>_. 0)(45 := 0x048C0000, 46 := 0xDEADBEEF, 47 := 0x01020304),
            can_bus_linked = True, can_sent = []\<rparr>"
  define b where "b = \<lparr>can_irq = [], can_regs = (\<lambda>_. 0)(4 := 0x1FFC0000, 52 := 0x04000000, 53 := 0x048C0000),
            can_bus_linked = True, can_sent = []\<rparr>"
  have ident: "flexcan_ident (ucast (0x0C080000 :: u64)) (can_regs a (mb_index 3 + 1)) = 0x048C0000"
    by (simp add: flexcan_ident_def a_def mb_index_eq mask_eq_exp_minus_1)
  have "map_of [(0 :: nat, a), (1, b)] 0 = Some a" "map_of [(0 :: nat, a), (1, b)] 1 = Some b" "(0::nat) \<noteq> 1"
    "flexcan_on_bus a" "flexcan_enabled b" "3 < MB_COUNT" "mb_code (ucast (0x0C080000 :: u64)) = CODE_TX_DATA"
    "flexcan_listens b (flexcan_ident (ucast (0x0C080000 :: u64)) (can_regs a (mb_index 3 + 1))) 5" "5 < MB_COUNT"
    unfolding ident
    by (simp_all add: a_def b_def flexcan_on_bus_def flexcan_enabled_def flexcan_listens_def mb_index_eq mb_code_def
        can_codes can_offsets)
  moreover have "\<not> flexcan_listens b (flexcan_ident (ucast (0x0C080000 :: u64)) (can_regs a (mb_index 3 + 1))) m" if "m < 5" for m
    unfolding ident using that
    by (auto simp: b_def flexcan_listens_def mb_index_eq mb_code_def can_codes can_offsets)
  ultimately have "\<exists>b'. map_of (flexcan_net_write [(0, a), (1, b)] 0 (MB_BASE + 3 * MB_STRIDE) 0x0C080000 4) 1 = Some b'
       \<and> (\<forall>i < 8. mb_data (can_regs b') (mb_index 5) i
          = (if i < min 8 (unat (MB_DLC (ucast (0x0C080000 :: u64)))) then mb_data (can_regs a) (mb_index 3) i else 0))
       \<and> mb_code (can_regs b' (mb_index 5)) = flexcan_rx_code b 5 \<and> bit (can_regs b' (R_IFLAG1 div 4)) 5"
    using flexcan_frame_crosses_bus [of "[(0, a), (1, b)]" 0 a 1 b 3 "0x0C080000" 5] by blast
  moreover have "unat (MB_DLC (ucast (0x0C080000 :: u64))) = 8" by (simp add: MB_DLC_def)
  moreover have "mb_data (can_regs a) (mb_index 3) 0 = 0xDE" "mb_data (can_regs a) (mb_index 3) 7 = 0x04"
    by (simp_all add: a_def mb_data_def mb_index_eq)
  moreover have "flexcan_rx_code b 5 = CODE_RX_FULL"
    by (simp add: b_def flexcan_rx_code_def mb_index_eq mb_code_def can_codes)
  ultimately show ?thesis unfolding Let_def a_def [symmetric] b_def [symmetric] by force
qed

text \<open>
  The mode handshake settles at once and gates all traffic: after a write of MCR the
  acknowledge bits say exactly which mode was asked for, and a controller that is disabled or
  frozen neither transmits on any register write nor stores any received frame.
\<close>

theorem flexcan_mode_gates_traffic:
  fixes s v
  defines "mcr \<equiv> can_regs (flexcan_write s R_MCR v 4) (R_MCR div 4)"
  shows "tst mcr MCR_LPMACK = tst (ucast v) MCR_MDIS
   \<and> tst mcr MCR_FRZACK = (\<not> tst (ucast v) MCR_MDIS \<and> tst (ucast v) MCR_FRZ \<and> tst (ucast v) MCR_HALT)
   \<and> tst mcr MCR_NOTRDY = (tst mcr MCR_LPMACK \<or> tst mcr MCR_FRZACK) \<and> \<not> tst mcr MCR_SOFTRST
   \<and> flexcan_enabled (flexcan_write s R_MCR v 4) = (\<not> tst mcr MCR_NOTRDY)
   \<and> (\<not> flexcan_enabled s \<longrightarrow>
        can_sent (flexcan_write s off w sz) = can_sent s \<and> snd (flexcan_bus_receive s fs) = s)"
proof -
  have ones: "(0xFFFFFFFF :: u32) = - 1" by simp
  have m: "mcr = flexcan_mcr_settle (ucast v AND NOT MCR_SOFTRST)"
    unfolding mcr_def flexcan_write_def Let_def ones by (simp add: can_offsets)
  have "\<not> flexcan_enabled s \<longrightarrow> can_sent (flexcan_write s off w sz) = can_sent s \<and> snd (flexcan_bus_receive s fs) = s"
    by (auto simp: flexcan_write_def Let_def flexcan_update_irq_def flexcan_transmit_def flexcan_enabled_def
        flexcan_bus_receive_def can_offsets split: list.split)
  moreover have "flexcan_enabled (flexcan_write s R_MCR v 4) = (\<not> tst mcr MCR_NOTRDY)"
    unfolding flexcan_enabled_def mcr_def [symmetric] unfolding m
    by (auto simp: flexcan_mcr_settle_def Let_def bit_simps)
  ultimately show ?thesis
    unfolding m by (auto simp: flexcan_mcr_settle_def Let_def bit_simps)
qed

theorem flexcan_mode_gates_traffic_witness:
  "let s = mcxn_flexcan_reset \<lparr>can_irq = [], can_regs = (\<lambda>_. 0), can_bus_linked = True, can_sent = []\<rparr>
   in flexcan_enabled (flexcan_write s R_MCR 0x0F 4)
     \<and> can_sent (flexcan_write s (MB_BASE + 3 * MB_STRIDE) 0x0C080000 4) = []"
proof -
  define s where "s = mcxn_flexcan_reset \<lparr>can_irq = [], can_regs = (\<lambda>_. 0), can_bus_linked = True, can_sent = []\<rparr>"
  have "\<not> flexcan_enabled s" "can_sent s = []"
    by (simp_all add: s_def mcxn_flexcan_reset_def flexcan_enabled_def MCR_RESET_def bit_simps)
  then show ?thesis
    using flexcan_mode_gates_traffic [of s "0x0F" "MB_BASE + 3 * MB_STRIDE" "0x0C080000" 4 "[]"]
    unfolding Let_def s_def [symmetric] by simp
qed

section \<open>The interrupt line\<close>

definition flexcan_tracks :: "MCXNFlexCanState \<Rightarrow> bool" where
  "flexcan_tracks s \<longleftrightarrow>
     line_level (can_irq s) () = tst (can_regs s (R_IFLAG1 div 4)) (can_regs s (R_IMASK1 div 4))"

lemma flexcan_tracks_update [simp]: "flexcan_tracks (flexcan_update_irq s)"
  by (simp add: flexcan_tracks_def flexcan_update_irq_def)

datatype flexcan_event = Can_write nat u64 nat | Can_frames "qemu_can_frame list"

fun flexcan_handle :: "flexcan_event \<Rightarrow> MCXNFlexCanState \<Rightarrow> MCXNFlexCanState" where
  "flexcan_handle (Can_write off v sz) s = flexcan_write s off v sz"
| "flexcan_handle (Can_frames fs) s = snd (flexcan_bus_receive s fs)"

lemma flexcan_tracks_write: "flexcan_tracks s \<Longrightarrow> flexcan_tracks (flexcan_write s off v sz)"
proof -
  assume s: "flexcan_tracks s"
  have other: "flexcan_tracks (s\<lparr>can_regs := (can_regs s)(off div 4 := x)\<rparr>)"
    if "4 * (off div 4) \<noteq> R_IFLAG1" "4 * (off div 4) \<noteq> R_IMASK1" for x
  proof -
    have "off div 4 \<noteq> R_IFLAG1 div 4" "off div 4 \<noteq> R_IMASK1 div 4" using that by (auto simp: can_offsets)
    with s show ?thesis by (simp add: flexcan_tracks_def)
  qed
  have t: "flexcan_tracks (flexcan_transmit u tx)" if "flexcan_tracks u" for u tx
    using that by (simp add: flexcan_transmit_def Let_def)
  have "4 * (off div 4) = R_MCR \<Longrightarrow> 4 * (off div 4) \<noteq> R_IFLAG1 \<and> 4 * (off div 4) \<noteq> R_IMASK1"
    "4 * (off div 4) = R_ESR1 \<Longrightarrow> 4 * (off div 4) \<noteq> R_IFLAG1 \<and> 4 * (off div 4) \<noteq> R_IMASK1"
    by (simp_all add: can_offsets)
  then show ?thesis using s other t unfolding flexcan_write_def Let_def by simp
qed

interpretation can: total_device flexcan_handle flexcan_tracks
proof
  fix s e assume s: "flexcan_tracks s"
  show "flexcan_tracks (flexcan_handle e s)"
  proof (cases e)
    case (Can_write off v sz)
    with s show ?thesis by (simp add: flexcan_tracks_write)
  next
    case (Can_frames fs)
    with s show ?thesis
      by (simp add: flexcan_bus_receive_def flexcan_store_def Let_def split: list.split option.split)
  qed
qed

text \<open>
  After any sequence of register writes of any width and of frames from the bus, the
  interrupt line of a freshly reset controller is high exactly if an unmasked buffer flag is set.
\<close>

theorem flexcan_line_tracks:
  assumes "can_irq s = []"
  shows "line_level (can_irq (fold flexcan_handle es (mcxn_flexcan_reset s))) ()
     = tst (can_regs (fold flexcan_handle es (mcxn_flexcan_reset s)) (R_IFLAG1 div 4))
           (can_regs (fold flexcan_handle es (mcxn_flexcan_reset s)) (R_IMASK1 div 4))"
proof -
  have "flexcan_tracks (mcxn_flexcan_reset s)"
    using assms by (simp add: flexcan_tracks_def mcxn_flexcan_reset_def rst_can0_def can_offsets)
  from can.fold_good [OF this, of es] show ?thesis by (simp add: flexcan_tracks_def)
qed

theorem flexcan_line_tracks_witness:
  "let s = fold flexcan_handle [Can_write R_MCR 0x0F 4, Can_write R_IMASK1 8 4, Can_write (MB_BASE + 3 * MB_STRIDE) 0x0C080000 4]
        (mcxn_flexcan_reset \<lparr>can_irq = [], can_regs = (\<lambda>_. 0), can_bus_linked = True, can_sent = []\<rparr>)
   in line_level (can_irq s) () = tst (can_regs s (R_IFLAG1 div 4)) (can_regs s (R_IMASK1 div 4))"
  unfolding Let_def by (rule flexcan_line_tracks) simp

end
