(* ===== verification/Mcxn_Inputmux.thy ===== *)
theory Mcxn_Inputmux
  imports Mcxn_Prelude
begin

unbundle bit_operations_syntax

text \<open>
  The input multiplexer (\<^verbatim>\<open>hw/misc/mcxn_inputmux.c\<close>): the gates in front of the eDMA request
  sources, with their set, clear and toggle aliases, and the routing of trigger edges to the
  destinations whose selector names the source.  The calls on the gate and trigger outputs are
  recorded in order; the wiring of these outputs is modelled in \<^verbatim>\<open>Mcxn_Soc\<close>.
\<close>

section \<open>Model\<close>

datatype im_line = Im_dma_req_enable nat nat | Im_adc_trig nat nat | Im_dac_trig nat | Im_cmp_trig nat
  | Im_qdc_trig nat | Im_tsi_trig

record MCXNInputMuxState =
  im_regs :: "nat \<Rightarrow> u32"
  im_lines :: "im_line irq_log"

definition MCXN_INPUTMUX_NREQ :: nat where "MCXN_INPUTMUX_NREQ = 128"
definition MCXN_INPUTMUX_NADC :: nat where "MCXN_INPUTMUX_NADC = 2"
definition MCXN_INPUTMUX_NADC_TRIG :: nat where "MCXN_INPUTMUX_NADC_TRIG = 4"
definition MCXN_INPUTMUX_NDAC :: nat where "MCXN_INPUTMUX_NDAC = 3"
definition MCXN_INPUTMUX_NCMP :: nat where "MCXN_INPUTMUX_NCMP = 3"
definition MCXN_INPUTMUX_NQDC :: nat where "MCXN_INPUTMUX_NQDC = 2"
definition MCXN_INPUTMUX_NTRIG_SRC :: nat where "MCXN_INPUTMUX_NTRIG_SRC = 128"
definition MCXN_INPUTMUX_SRC_LPTMR0 :: u32 where "MCXN_INPUTMUX_SRC_LPTMR0 = 50"
definition MCXN_INPUTMUX_SRC_LPTMR1 :: u32 where "MCXN_INPUTMUX_SRC_LPTMR1 = 51"
definition MCXN_INPUTMUX_SRC_CTIMER3_M2 :: u32 where "MCXN_INPUTMUX_SRC_CTIMER3_M2 = 96"
definition MCXN_INPUTMUX_SRC_CTIMER4_M1 :: u32 where "MCXN_INPUTMUX_SRC_CTIMER4_M1 = 97"

definition IM_ADC0_TRIG :: nat where "IM_ADC0_TRIG = 0x280"
definition IM_ADC1_TRIG :: nat where "IM_ADC1_TRIG = 0x2C0"
definition IM_TRIG_SEL_MASK :: u32 where "IM_TRIG_SEL_MASK = 0x7F"
definition IM_TRIG_NONE :: u32 where "IM_TRIG_NONE = 0x7F"
definition IM_DAC0_TRIG :: nat where "IM_DAC0_TRIG = 0x300"
definition IM_DAC_TRIG_STEP :: nat where "IM_DAC_TRIG_STEP = 0x20"
definition IM_TRIG6_MASK :: u32 where "IM_TRIG6_MASK = 0x3F"
definition IM_TRIG6_NONE :: u32 where "IM_TRIG6_NONE = 0x3F"
definition im_cmp_trig_off :: "nat list" where "im_cmp_trig_off = [0x260, 0x4E0, 0x500]"
definition IM_QDC0_TRIG :: nat where "IM_QDC0_TRIG = 0x360"
definition IM_QDC_TRIG_STEP :: nat where "IM_QDC_TRIG_STEP = 0x20"
definition IM_TSI_TRIG :: nat where "IM_TSI_TRIG = 0x4A0"
definition IM_TRIG2_MASK :: u32 where "IM_TRIG2_MASK = 0x3"
definition IM_TRIG2_NONE :: u32 where "IM_TRIG2_NONE = 0x3"
definition IM_DMA0_REQ_ENABLE0 :: nat where "IM_DMA0_REQ_ENABLE0 = 0x700"
definition IM_DMA1_REQ_ENABLE0 :: nat where "IM_DMA1_REQ_ENABLE0 = 0x780"
definition IM_REQ_ENABLE_STRIDE :: nat where "IM_REQ_ENABLE_STRIDE = 0x010"
definition IM_REQ_ENABLE_BANKS :: nat where "IM_REQ_ENABLE_BANKS = 4"

lemmas im_sizes = MCXN_INPUTMUX_NREQ_def MCXN_INPUTMUX_NADC_def MCXN_INPUTMUX_NADC_TRIG_def MCXN_INPUTMUX_NDAC_def
  MCXN_INPUTMUX_NCMP_def MCXN_INPUTMUX_NQDC_def MCXN_INPUTMUX_NTRIG_SRC_def
lemmas im_offsets = IM_ADC0_TRIG_def IM_ADC1_TRIG_def IM_DAC0_TRIG_def IM_DAC_TRIG_STEP_def im_cmp_trig_off_def
  IM_QDC0_TRIG_def IM_QDC_TRIG_STEP_def IM_TSI_TRIG_def IM_DMA0_REQ_ENABLE0_def IM_DMA1_REQ_ENABLE0_def
  IM_REQ_ENABLE_STRIDE_def IM_REQ_ENABLE_BANKS_def

definition im_reset :: "(nat \<times> u32) list" where
  "im_reset = [
    (0x000, 0x7F), (0x004, 0x7F), (0x008, 0x7F), (0x00C, 0x7F), (0x010, 0x7F), (0x014, 0x7F),
    (0x018, 0x7F), (0x01C, 0x7F), (0x020, 0x7F), (0x024, 0x7F), (0x028, 0x7F), (0x02C, 0x7F),
    (0x030, 0x7F), (0x040, 0x7F), (0x044, 0x7F), (0x048, 0x7F), (0x04C, 0x7F), (0x050, 0x7F),
    (0x060, 0x7F), (0x064, 0x7F), (0x068, 0x7F), (0x06C, 0x7F), (0x070, 0x7F), (0x0C0, 0x7F),
    (0x0C4, 0x7F), (0x0C8, 0x7F), (0x0CC, 0x7F), (0x0D0, 0x7F), (0x0D4, 0x7F), (0x0D8, 0x7F),
    (0x0DC, 0x7F), (0x1A0, 0x7F), (0x1A4, 0x7F), (0x1A8, 0x7F), (0x1AC, 0x7F), (0x1B0, 0x7F),
    (0x1C0, 0x7F), (0x1C4, 0x7F), (0x1C8, 0x7F), (0x1CC, 0x7F), (0x1D0, 0x7F), (0x260, 0x3F),
    (0x2C0, 0x7F), (0x2C4, 0x7F), (0x2C8, 0x7F), (0x2CC, 0x7F), (0x300, 0x3F), (0x320, 0x3F),
    (0x340, 0x3F), (0x360, 0x3F), (0x364, 0x3F), (0x368, 0x3F), (0x36C, 0x3F), (0x370, 0x3F),
    (0x380, 0x3F), (0x384, 0x3F), (0x388, 0x3F), (0x38C, 0x3F), (0x390, 0x3F), (0x420, 0x07),
    (0x424, 0x07), (0x480, 0x0F), (0x4A0, 0x03), (0x4E0, 0x3F), (0x500, 0x3F), (0x5A0, 0x3F),
    (0x5C0, 0x3F), (0x5E0, 0x3F), (0x600, 0x3F), (0x620, 0x3F), (0x640, 0x3F), (0x660, 0x3F),
    (0x680, 0x3F), (0x6A0, 0x3F), (0x6C0, 0x3F), (0x6E0, 0x7F), (0x6E4, 0x7F), (0x6E8, 0x7F),
    (0x6EC, 0x7F), (0x6F0, 0x7F), (0x6F4, 0x7F), (0x6F8, 0x7F), (0x6FC, 0x7F), (0x700, 0xFFFFFFFF),
    (0x710, 0xFFFFFFFF), (0x720, 0xFFFFFFFF), (0x730, 0x03FFFFFF), (0x780, 0xFFFFFFFF),
    (0x790, 0xFFFFFFFF), (0x7A0, 0xFFFFFFFF), (0x7B0, 0x03FFFFFF)]"

text \<open>An offset as (controller, bank, alias), if it is one of the gate registers.\<close>

definition im_decode_req_enable :: "nat \<Rightarrow> (nat \<times> nat \<times> nat) option" where
  "im_decode_req_enable off =
     (let split = (\<lambda>dma rel. (dma, rel div IM_REQ_ENABLE_STRIDE, (rel mod IM_REQ_ENABLE_STRIDE) div 4))
      in if off \<ge> IM_DMA0_REQ_ENABLE0 \<and> off < IM_DMA0_REQ_ENABLE0 + IM_REQ_ENABLE_BANKS * IM_REQ_ENABLE_STRIDE
         then Some (split 0 (off - IM_DMA0_REQ_ENABLE0))
         else if off \<ge> IM_DMA1_REQ_ENABLE0 \<and> off < IM_DMA1_REQ_ENABLE0 + IM_REQ_ENABLE_BANKS * IM_REQ_ENABLE_STRIDE
         then Some (split 1 (off - IM_DMA1_REQ_ENABLE0))
         else None)"

definition im_req_base :: "nat \<Rightarrow> nat \<Rightarrow> nat" where
  "im_req_base dma bank = (if dma \<noteq> 0 then IM_DMA1_REQ_ENABLE0 else IM_DMA0_REQ_ENABLE0) + bank * IM_REQ_ENABLE_STRIDE"

definition im_push_req_enable :: "MCXNInputMuxState \<Rightarrow> nat \<Rightarrow> nat \<Rightarrow> MCXNInputMuxState" where
  "im_push_req_enable s dma bank =
     (let v = im_regs s (im_req_base dma bank div 4)
      in fold (\<lambda>i s. if bank * 32 + i < MCXN_INPUTMUX_NREQ
                     then s\<lparr>im_lines := qemu_set_irq (Im_dma_req_enable dma (bank * 32 + i)) (tst (drop_bit i v) 1) (im_lines s)\<rparr>
                     else s) [0..<32] s)"

definition mcxn_inputmux_read :: "MCXNInputMuxState \<Rightarrow> nat \<Rightarrow> u64" where
  "mcxn_inputmux_read s off = ucast (im_regs s (off div 4))"

definition im_adc_sel_to_src :: "nat \<Rightarrow> u32 \<Rightarrow> u32" where
  "im_adc_sel_to_src adc sel =
     (if adc = 1 then
        if sel = 8 then MCXN_INPUTMUX_SRC_CTIMER3_M2
        else if sel = 9 then MCXN_INPUTMUX_SRC_CTIMER4_M1 else sel
      else sel)"

text \<open>The destinations the router visits, in its order, and whether each one's selector names the source.\<close>

definition im_destinations :: "im_line list" where
  "im_destinations =
     [Im_adc_trig adc t. adc \<leftarrow> [0..<MCXN_INPUTMUX_NADC], t \<leftarrow> [0..<MCXN_INPUTMUX_NADC_TRIG]]
     @ map Im_dac_trig [0..<MCXN_INPUTMUX_NDAC] @ map Im_cmp_trig [0..<MCXN_INPUTMUX_NCMP]
     @ map Im_qdc_trig [0..<MCXN_INPUTMUX_NQDC] @ [Im_tsi_trig]"

fun im_selects :: "(nat \<Rightarrow> u32) \<Rightarrow> im_line \<Rightarrow> u32 \<Rightarrow> bool" where
  "im_selects regs (Im_adc_trig adc t) src =
     (let sel = regs (((if adc \<noteq> 0 then IM_ADC1_TRIG else IM_ADC0_TRIG) + t * 4) div 4) AND IM_TRIG_SEL_MASK
      in sel \<noteq> IM_TRIG_NONE \<and> im_adc_sel_to_src adc sel = src)"
| "im_selects regs (Im_dac_trig t) src =
     (let sel = regs ((IM_DAC0_TRIG + t * IM_DAC_TRIG_STEP) div 4) AND IM_TRIG6_MASK
      in sel \<noteq> IM_TRIG6_NONE \<and> sel = src)"
| "im_selects regs (Im_cmp_trig t) src =
     (let sel = regs ((im_cmp_trig_off ! t) div 4) AND IM_TRIG6_MASK in sel \<noteq> IM_TRIG6_NONE \<and> sel = src)"
| "im_selects regs (Im_qdc_trig t) src =
     (let sel = regs ((IM_QDC0_TRIG + t * IM_QDC_TRIG_STEP) div 4) AND IM_TRIG6_MASK
      in sel \<noteq> IM_TRIG6_NONE \<and> sel = src)"
| "im_selects regs Im_tsi_trig src =
     (let sel = regs (IM_TSI_TRIG div 4) AND IM_TRIG2_MASK;
          phys = (if sel = 0 then MCXN_INPUTMUX_SRC_LPTMR0
                  else if sel = 1 then MCXN_INPUTMUX_SRC_LPTMR1 else IM_TRIG2_NONE)
      in sel \<noteq> IM_TRIG2_NONE \<and> phys = src)"
| "im_selects regs (Im_dma_req_enable _ _) src = False"

definition mcxn_inputmux_trigger :: "MCXNInputMuxState \<Rightarrow> int \<Rightarrow> bool \<Rightarrow> MCXNInputMuxState" where
  "mcxn_inputmux_trigger s src level =
     (if \<not> level \<or> src < 0 \<or> src \<ge> int MCXN_INPUTMUX_NTRIG_SRC then s
      else fold (\<lambda>d s. if im_selects (im_regs s) d (word_of_int src)
                       then s\<lparr>im_lines := qemu_irq_pulse d (im_lines s)\<rparr> else s) im_destinations s)"

definition mcxn_inputmux_write :: "MCXNInputMuxState \<Rightarrow> nat \<Rightarrow> u64 \<Rightarrow> MCXNInputMuxState" where
  "mcxn_inputmux_write s off value =
     (let v = ucast value :: u32 in
      case im_decode_req_enable off of
        Some (dma, bank, alias) \<Rightarrow>
          let r = im_req_base dma bank div 4; old = im_regs s r;
              new = (if alias = 0 then v
                     else if alias = 1 then old OR v
                     else if alias = 2 then old AND NOT v
                     else if alias = 3 then old XOR v
                     else old)
          in im_push_req_enable (s\<lparr>im_regs := (im_regs s)(r := new)\<rparr>) dma bank
      | None \<Rightarrow> s\<lparr>im_regs := (im_regs s)(off div 4 := v)\<rparr>)"

definition mcxn_inputmux_reset :: "MCXNInputMuxState \<Rightarrow> MCXNInputMuxState" where
  "mcxn_inputmux_reset s =
     s\<lparr>im_regs := fold (\<lambda>(off, v) regs. regs(off div 4 := v)) im_reset (\<lambda>_. 0)\<rparr>"

section \<open>Routing\<close>

definition im_pulses :: "im_line list \<Rightarrow> im_line irq_log" where
  "im_pulses ds = concat (map (\<lambda>d. [(d, True), (d, False)]) ds)"

text \<open>An edge of a source reaches exactly the destinations whose selectors name it, once each.\<close>

lemma inputmux_routes:
  assumes "src < MCXN_INPUTMUX_NTRIG_SRC"
  shows "mcxn_inputmux_trigger s (int src) True =
     s\<lparr>im_lines := im_lines s @ im_pulses (filter (\<lambda>d. im_selects (im_regs s) d (of_nat src)) im_destinations)\<rparr>"
proof -
  have "fold (\<lambda>d s. if im_selects (im_regs s) d w then s\<lparr>im_lines := qemu_irq_pulse d (im_lines s)\<rparr> else s) ds s =
      s\<lparr>im_lines := im_lines s @ im_pulses (filter (\<lambda>d. im_selects (im_regs s) d w) ds)\<rparr>" for ds w s
    by (induction ds arbitrary: s) (simp_all add: im_pulses_def qemu_irq_pulse_def qemu_set_irq_def)
  with assms show ?thesis by (simp add: mcxn_inputmux_trigger_def)
qed

lemma im_destinations_eq:
  "im_destinations = [Im_adc_trig 0 0, Im_adc_trig 0 1, Im_adc_trig 0 2, Im_adc_trig 0 3,
     Im_adc_trig 1 0, Im_adc_trig 1 1, Im_adc_trig 1 2, Im_adc_trig 1 3, Im_dac_trig 0, Im_dac_trig 1, Im_dac_trig 2,
     Im_cmp_trig 0, Im_cmp_trig 1, Im_cmp_trig 2, Im_qdc_trig 0, Im_qdc_trig 1, Im_tsi_trig]"
  by (simp add: im_destinations_def im_sizes upt_rec numeral_3_eq_3)

section \<open>Request gates\<close>

definition im_gate :: "(nat \<Rightarrow> u32) \<Rightarrow> nat \<Rightarrow> nat \<Rightarrow> bool" where
  "im_gate regs dma src = bit (regs (im_req_base dma (src div 32) div 4)) (src mod 32)"

lemma im_push_lines:
  assumes "bank < IM_REQ_ENABLE_BANKS"
  shows "im_push_req_enable s dma bank =
     s\<lparr>im_lines := im_lines s @ map (\<lambda>i. (Im_dma_req_enable dma (bank * 32 + i), im_gate (im_regs s) dma (bank * 32 + i))) [0..<32]\<rparr>"
proof -
  let ?v = "im_regs s (im_req_base dma bank div 4)"
  have f: "fold (\<lambda>i s. if bank * 32 + i < MCXN_INPUTMUX_NREQ
             then s\<lparr>im_lines := qemu_set_irq (Im_dma_req_enable dma (bank * 32 + i)) (tst (drop_bit i ?v) 1) (im_lines s)\<rparr>
             else s) is s =
     s\<lparr>im_lines := im_lines s @ map (\<lambda>i. (Im_dma_req_enable dma (bank * 32 + i), tst (drop_bit i ?v) 1)) is\<rparr>"
    if "\<forall>i \<in> set is. i < 32" for "is" s
    using that assms by (induction "is" arbitrary: s) (auto simp: qemu_set_irq_def im_sizes IM_REQ_ENABLE_BANKS_def)
  have g: "tst (drop_bit i ?v) 1 = im_gate (im_regs s) dma (bank * 32 + i)" if "i < 32" for i
  proof -
    have one: "(1 :: u32) = flag 0" by (simp add: flag_def)
    from that have "(bank * 32 + i) div 32 = bank" "(bank * 32 + i) mod 32 = i" by simp_all
    then show ?thesis by (simp only: one tst_flag im_gate_def) (simp add: bit_simps)
  qed
  then have m: "map (\<lambda>i. (Im_dma_req_enable dma (bank * 32 + i), tst (drop_bit i ?v) 1)) [0..<32] =
     map (\<lambda>i. (Im_dma_req_enable dma (bank * 32 + i), im_gate (im_regs s) dma (bank * 32 + i))) [0..<32]" by simp
  show ?thesis unfolding im_push_req_enable_def Let_def m [symmetric] by (rule f) simp
qed

lemma im_decode_bounds:
  "im_decode_req_enable off = Some (dma, bank, alias) \<Longrightarrow> dma < 2 \<and> bank < IM_REQ_ENABLE_BANKS \<and> alias < 4"
  by (auto simp: im_decode_req_enable_def Let_def im_offsets split: if_splits)

lemma im_req_base_inj:
  assumes "dma < 2" "bank < IM_REQ_ENABLE_BANKS" "dma' < 2" "bank' < IM_REQ_ENABLE_BANKS"
    and "im_req_base dma bank div 4 = im_req_base dma' bank' div 4"
  shows "dma = dma' \<and> bank = bank'"
  using assms by (auto simp: im_req_base_def im_offsets split: if_splits)

lemma im_decode_req_base:
  assumes "dma < 2" "bank < IM_REQ_ENABLE_BANKS" and "off div 4 = im_req_base dma bank div 4"
  shows "im_decode_req_enable off \<noteq> None"
proof -
  have "im_req_base dma bank = 4 * (im_req_base dma bank div 4)" by (simp add: im_req_base_def im_offsets)
  moreover have "off = 4 * (off div 4) + off mod 4" "off mod 4 < 4" by simp_all
  ultimately have "im_req_base dma bank \<le> off \<and> off < im_req_base dma bank + 4"
    using assms(3) by linarith
  with assms(1,2) show ?thesis
    by (auto simp: im_decode_req_enable_def Let_def im_req_base_def im_offsets split: if_splits)
qed

text \<open>What a register write does to the gates: it changes the gates of one bank and pushes exactly these.\<close>

lemma inputmux_write_gates:
  "\<exists>ls. im_lines (mcxn_inputmux_write s off v) = im_lines s @ ls
     \<and> (\<forall>l b. (l, b) \<in> set ls \<longrightarrow> (\<exists>dma src. l = Im_dma_req_enable dma src \<and> dma < 2 \<and> src < 128
           \<and> b = im_gate (im_regs (mcxn_inputmux_write s off v)) dma src))
     \<and> (\<forall>dma src. dma < 2 \<longrightarrow> src < 128 \<longrightarrow> (\<forall>b. (Im_dma_req_enable dma src, b) \<notin> set ls) \<longrightarrow>
           im_gate (im_regs (mcxn_inputmux_write s off v)) dma src = im_gate (im_regs s) dma src)"
proof (cases "im_decode_req_enable off")
  case None
  have "im_gate (im_regs (mcxn_inputmux_write s off v)) dma src = im_gate (im_regs s) dma src"
    if "dma < 2" "src < 128" for dma src
  proof -
    have "src div 32 < IM_REQ_ENABLE_BANKS" using that(2) by (simp add: im_offsets)
    with None im_decode_req_base [OF that(1)] have "off div 4 \<noteq> im_req_base dma (src div 32) div 4" by blast
    then show ?thesis by (simp add: mcxn_inputmux_write_def None im_gate_def)
  qed
  then show ?thesis by (intro exI [of _ "[]"]) (simp add: mcxn_inputmux_write_def None)
next
  case (Some d)
  then obtain dma bank al where d: "im_decode_req_enable off = Some (dma, bank, al)" by (cases d) auto
  note b = im_decode_bounds [OF d]
  obtain x where w: "mcxn_inputmux_write s off v =
      im_push_req_enable (s\<lparr>im_regs := (im_regs s)(im_req_base dma bank div 4 := x)\<rparr>) dma bank"
    by (simp add: mcxn_inputmux_write_def d Let_def)
  let ?regs = "(im_regs s)(im_req_base dma bank div 4 := x)"
  let ?ls = "map (\<lambda>i. (Im_dma_req_enable dma (bank * 32 + i), im_gate ?regs dma (bank * 32 + i))) [0..<32]"
  have p: "mcxn_inputmux_write s off v = s\<lparr>im_regs := ?regs, im_lines := im_lines s @ ?ls\<rparr>"
    unfolding w using b by (simp add: im_push_lines)
  have same: "im_gate ?regs dma' src = im_gate (im_regs s) dma' src"
    if "dma' < 2" "src < 128" "\<forall>c. (Im_dma_req_enable dma' src, c) \<notin> set ?ls" for dma' src
  proof -
    have s: "src div 32 < IM_REQ_ENABLE_BANKS" using that(2) by (simp add: im_offsets)
    have "\<not> (dma' = dma \<and> src div 32 = bank)"
    proof
      assume "dma' = dma \<and> src div 32 = bank"
      then have "(Im_dma_req_enable dma' src, im_gate ?regs dma src) \<in> set ?ls"
        by (auto simp: image_iff intro!: bexI [of _ "src mod 32"])
      with that(3) show False by blast
    qed
    then have "im_req_base dma' (src div 32) div 4 \<noteq> im_req_base dma bank div 4"
      using im_req_base_inj [OF that(1) s, of dma bank] b by blast
    then show ?thesis by (simp add: im_gate_def)
  qed
  have "bank * 32 + i < 128" if "i < 32" for i using that b by (simp add: im_offsets)
  with same b show ?thesis unfolding p by (intro exI [of _ ?ls]) auto
qed

section \<open>Properties\<close>

text \<open>The selectors after reset, in the order of the destinations.\<close>

lemma im_reset_selectors:
  "map (im_regs (mcxn_inputmux_reset s)) [160, 161, 162, 163, 176, 177, 178, 179, 192, 200, 208, 152, 312, 320, 216, 224, 296]
     = [0, 0, 0, 0, 0x7F, 0x7F, 0x7F, 0x7F, 0x3F, 0x3F, 0x3F, 0x3F, 0x3F, 0x3F, 0x3F, 0x3F, 3]"
  by (simp add: mcxn_inputmux_reset_def im_reset_def)

text \<open>
  C39: after reset no trigger source is routed anywhere, except that source 0 reaches the four
  triggers of ADC0, whose selectors are missing from the reset table and so name input 0.
\<close>

theorem inputmux_reset_routes_source_0:
  "im_lines (mcxn_inputmux_trigger (mcxn_inputmux_reset s) (int src) True) =
     im_lines s @ (if src = 0 then im_pulses [Im_adc_trig 0 0, Im_adc_trig 0 1, Im_adc_trig 0 2, Im_adc_trig 0 3] else [])"
proof (cases "src < MCXN_INPUTMUX_NTRIG_SRC")
  case True
  have z: "(of_nat src :: u32) = 0 \<longleftrightarrow> src = 0"
    using True by (auto simp: word_of_nat_eq_0_iff im_sizes dest: dvd_imp_le)
  have "filter (\<lambda>d. im_selects (im_regs (mcxn_inputmux_reset s)) d (of_nat src)) im_destinations =
      (if src = 0 then [Im_adc_trig 0 0, Im_adc_trig 0 1, Im_adc_trig 0 2, Im_adc_trig 0 3] else [])"
    using im_reset_selectors [of s] z
    by (simp add: im_destinations_eq im_offsets Let_def IM_TRIG_NONE_def IM_TRIG_SEL_MASK_def IM_TRIG6_NONE_def
        IM_TRIG6_MASK_def IM_TRIG2_MASK_def IM_TRIG2_NONE_def im_adc_sel_to_src_def eq_commute [of 0])
  then show ?thesis using inputmux_routes [OF True, of "mcxn_inputmux_reset s"]
    by (simp add: mcxn_inputmux_reset_def im_pulses_def)
next
  case False
  then show ?thesis by (simp add: mcxn_inputmux_trigger_def mcxn_inputmux_reset_def im_sizes)
qed

end
