(* ===== verification/Mcxn_Gpio.thy ===== *)
theory Mcxn_Gpio
  imports Mcxn_Interfaces
begin

unbundle bit_operations_syntax

text \<open>
  The GPIO port (\<^verbatim>\<open>hw/gpio/mcxn_gpio.c\<close>): 32 pins with output data, direction and input level,
  and the proof that the word-wide register file is 32 independent one-bit pins.
\<close>

section \<open>Model\<close>

record MCXNGPIOState =
  pdor :: u32
  pddr :: u32
  pidr :: u32
  gpio_lock :: u32
  in_level :: u32
  gpio_output :: "nat irq_log"

definition MCXN_GPIO_PINS :: nat where "MCXN_GPIO_PINS = 32"
definition GPIO_VERID :: nat where "GPIO_VERID = 0x00"
definition GPIO_PARAM :: nat where "GPIO_PARAM = 0x04"
definition GPIO_LOCK :: nat where "GPIO_LOCK = 0x0C"
definition GPIO_PDOR :: nat where "GPIO_PDOR = 0x40"
definition GPIO_PSOR :: nat where "GPIO_PSOR = 0x44"
definition GPIO_PCOR :: nat where "GPIO_PCOR = 0x48"
definition GPIO_PTOR :: nat where "GPIO_PTOR = 0x4C"
definition GPIO_PDIR :: nat where "GPIO_PDIR = 0x50"
definition GPIO_PDDR :: nat where "GPIO_PDDR = 0x54"
definition GPIO_PIDR :: nat where "GPIO_PIDR = 0x58"
definition GPIO_VERID_VALUE :: u32 where "GPIO_VERID_VALUE = 0x01000000"
definition GPIO_PARAM_VALUE :: u32 where "GPIO_PARAM_VALUE = of_nat MCXN_GPIO_PINS"

lemmas gpio_offsets = GPIO_VERID_def GPIO_PARAM_def GPIO_LOCK_def GPIO_PDOR_def GPIO_PSOR_def GPIO_PCOR_def
  GPIO_PTOR_def GPIO_PDIR_def GPIO_PDDR_def GPIO_PIDR_def

definition mcxn_gpio_update_outputs :: "MCXNGPIOState \<Rightarrow> MCXNGPIOState" where
  "mcxn_gpio_update_outputs s =
     fold (\<lambda>i s. if tst (pddr s) (flag i)
                 then s\<lparr>gpio_output := qemu_set_irq i (tst (drop_bit i (pdor s)) 1) (gpio_output s)\<rparr> else s)
          [0..<MCXN_GPIO_PINS] s"

definition mcxn_gpio_pdir :: "MCXNGPIOState \<Rightarrow> u32" where
  "mcxn_gpio_pdir s = (pdor s AND pddr s) OR (in_level s AND NOT (pddr s))"

definition mcxn_gpio_set_input :: "MCXNGPIOState \<Rightarrow> nat \<Rightarrow> bool \<Rightarrow> MCXNGPIOState" where
  "mcxn_gpio_set_input s line level =
     s\<lparr>in_level := (if level then in_level s OR flag line else in_level s AND NOT (flag line))\<rparr>"

definition mcxn_gpio_read :: "MCXNGPIOState \<Rightarrow> nat \<Rightarrow> u64" where
  "mcxn_gpio_read s off =
     (if off = GPIO_VERID then ucast GPIO_VERID_VALUE
      else if off = GPIO_PARAM then ucast GPIO_PARAM_VALUE
      else if off = GPIO_LOCK then ucast (gpio_lock s)
      else if off = GPIO_PDOR then ucast (pdor s)
      else if off = GPIO_PDIR then ucast (mcxn_gpio_pdir s)
      else if off = GPIO_PDDR then ucast (pddr s)
      else if off = GPIO_PIDR then ucast (pidr s)
      else 0)"

definition mcxn_gpio_write :: "MCXNGPIOState \<Rightarrow> nat \<Rightarrow> u64 \<Rightarrow> MCXNGPIOState" where
  "mcxn_gpio_write s off value =
     (let v = ucast value :: u32 in
      if off = GPIO_LOCK then s\<lparr>gpio_lock := v\<rparr>
      else if off = GPIO_PDOR then mcxn_gpio_update_outputs (s\<lparr>pdor := v\<rparr>)
      else if off = GPIO_PSOR then mcxn_gpio_update_outputs (s\<lparr>pdor := pdor s OR v\<rparr>)
      else if off = GPIO_PCOR then mcxn_gpio_update_outputs (s\<lparr>pdor := pdor s AND NOT v\<rparr>)
      else if off = GPIO_PTOR then mcxn_gpio_update_outputs (s\<lparr>pdor := pdor s XOR v\<rparr>)
      else if off = GPIO_PDDR then mcxn_gpio_update_outputs (s\<lparr>pddr := v\<rparr>)
      else if off = GPIO_PIDR then s\<lparr>pidr := v\<rparr>
      else s)"

definition mcxn_gpio_reset :: "MCXNGPIOState \<Rightarrow> MCXNGPIOState" where
  "mcxn_gpio_reset s = s\<lparr>pdor := 0, pddr := 0, pidr := 0, gpio_lock := 0, in_level := 0\<rparr>"

definition mcxn_gpio_post_load :: "MCXNGPIOState \<Rightarrow> MCXNGPIOState" where
  "mcxn_gpio_post_load s = mcxn_gpio_update_outputs s"

section \<open>One pin\<close>

text \<open>
  The specification of one pin: whether it is an output, the level it drives as one, and the
  level on its input.  Bit \<open>i\<close> of a written word is all that pin \<open>i\<close> sees of a register write.
\<close>

record gpio_pin =
  pin_out :: bool
  pin_data :: bool
  pin_in :: bool

datatype gpio_event = Gpio_write nat u64 | Gpio_input nat bool

fun gpio_pin_step :: "nat \<Rightarrow> gpio_event \<Rightarrow> gpio_pin \<Rightarrow> gpio_pin" where
  "gpio_pin_step i (Gpio_write off v) p =
     (if off = GPIO_PDOR then p\<lparr>pin_data := bit v i\<rparr>
      else if off = GPIO_PSOR then p\<lparr>pin_data := pin_data p \<or> bit v i\<rparr>
      else if off = GPIO_PCOR then p\<lparr>pin_data := pin_data p \<and> \<not> bit v i\<rparr>
      else if off = GPIO_PTOR then p\<lparr>pin_data := (pin_data p \<noteq> bit v i)\<rparr>
      else if off = GPIO_PDDR then p\<lparr>pin_out := bit v i\<rparr>
      else p)"
| "gpio_pin_step i (Gpio_input line level) p = (if line = i then p\<lparr>pin_in := level\<rparr> else p)"

definition gpio_pin_level :: "gpio_pin \<Rightarrow> bool" where
  "gpio_pin_level p = (if pin_out p then pin_data p else pin_in p)"

fun gpio_handle :: "gpio_event \<Rightarrow> MCXNGPIOState \<Rightarrow> MCXNGPIOState" where
  "gpio_handle (Gpio_write off v) s = mcxn_gpio_write s off v"
| "gpio_handle (Gpio_input line level) s = mcxn_gpio_set_input s line level"

definition gpio_abs :: "MCXNGPIOState \<Rightarrow> nat \<Rightarrow> gpio_pin" where
  "gpio_abs s i = \<lparr>pin_out = bit (pddr s) i, pin_data = bit (pdor s) i, pin_in = bit (in_level s) i\<rparr>"

text \<open>Output lines of output pins carry the data register.\<close>

definition gpio_drives :: "MCXNGPIOState \<Rightarrow> bool" where
  "gpio_drives s \<longleftrightarrow> (\<forall>i < MCXN_GPIO_PINS. bit (pddr s) i \<longrightarrow> line_level (gpio_output s) i = bit (pdor s) i)"

lemma gpio_update_fields [simp]:
  "pdor (mcxn_gpio_update_outputs s) = pdor s" "pddr (mcxn_gpio_update_outputs s) = pddr s"
  "in_level (mcxn_gpio_update_outputs s) = in_level s"
proof -
  have "pdor t = pdor s \<and> pddr t = pddr s \<and> in_level t = in_level s"
    if "t = fold (\<lambda>i s. if tst (pddr s) (flag i)
          then s\<lparr>gpio_output := qemu_set_irq i (tst (drop_bit i (pdor s)) 1) (gpio_output s)\<rparr> else s) is s" for t "is"
    using that by (induction "is" arbitrary: s) simp_all
  from this [OF refl] show "pdor (mcxn_gpio_update_outputs s) = pdor s" "pddr (mcxn_gpio_update_outputs s) = pddr s"
    "in_level (mcxn_gpio_update_outputs s) = in_level s" unfolding mcxn_gpio_update_outputs_def by blast+
qed

lemma gpio_update_drives: "gpio_drives (mcxn_gpio_update_outputs s)"
proof -
  have one: "(1 :: u32) = flag 0" by (simp add: flag_def)
  have "line_level (gpio_output (fold (\<lambda>i s. if tst (pddr s) (flag i)
          then s\<lparr>gpio_output := qemu_set_irq i (tst (drop_bit i (pdor s)) 1) (gpio_output s)\<rparr> else s) is s)) k
      = (if k \<in> set is \<and> bit (pddr s) k then bit (pdor s) k else line_level (gpio_output s) k)" for "is" k
    unfolding one tst_flag by (induction "is" arbitrary: s) (auto simp: bit_simps)
  then show ?thesis unfolding gpio_drives_def gpio_update_fields
    by (simp add: mcxn_gpio_update_outputs_def)
qed

lemma gpio_step_refines:
  assumes "i < 32"
  shows "gpio_abs (gpio_handle e s) i = gpio_pin_step i e (gpio_abs s i)"
proof (cases e)
  case (Gpio_write off v)
  then show ?thesis
    using assms by (auto simp: gpio_abs_def mcxn_gpio_write_def Let_def gpio_offsets bit_simps)
next
  case (Gpio_input line level)
  then show ?thesis using assms by (auto simp: gpio_abs_def mcxn_gpio_set_input_def bit_simps)
qed

lemma gpio_run_refines:
  "i < 32 \<Longrightarrow> gpio_abs (fold gpio_handle es s) i = fold (gpio_pin_step i) es (gpio_abs s i)"
  by (induction es arbitrary: s) (simp_all add: gpio_step_refines)

interpretation gpio: total_device gpio_handle gpio_drives
proof
  fix s e assume "gpio_drives s"
  then show "gpio_drives (gpio_handle e s)"
    by (cases e) (simp_all add: mcxn_gpio_write_def Let_def gpio_update_drives mcxn_gpio_set_input_def,
        simp_all add: gpio_drives_def)
qed

section \<open>Properties\<close>

text \<open>
  C8: the port is 32 independent pins: after any sequence of register writes and input changes
  following a reset, each bit of PDIR is the level of a pin that ran the same sequence on its
  own, and the output line of every output pin carries that level.
\<close>

theorem gpio_refines_pins:
  assumes "i < 32"
  shows "let t = fold gpio_handle es (mcxn_gpio_reset s);
             p = fold (gpio_pin_step i) es \<lparr>pin_out = False, pin_data = False, pin_in = False\<rparr>
         in bit (mcxn_gpio_read t GPIO_PDIR) i = gpio_pin_level p
            \<and> (pin_out p \<longrightarrow> line_level (gpio_output t) i = pin_data p)"
proof -
  let ?t = "fold gpio_handle es (mcxn_gpio_reset s)"
  have d: "gpio_drives ?t"
    by (rule gpio.fold_good) (simp add: gpio_drives_def mcxn_gpio_reset_def)
  have "gpio_abs (mcxn_gpio_reset s) i = \<lparr>pin_out = False, pin_data = False, pin_in = False\<rparr>"
    by (simp add: gpio_abs_def mcxn_gpio_reset_def)
  with gpio_run_refines [OF assms, of es "mcxn_gpio_reset s"]
  have p: "fold (gpio_pin_step i) es \<lparr>pin_out = False, pin_data = False, pin_in = False\<rparr> = gpio_abs ?t i" by simp
  show ?thesis unfolding Let_def p using assms d
    by (auto simp: gpio_abs_def gpio_pin_level_def mcxn_gpio_read_def mcxn_gpio_pdir_def gpio_drives_def
        MCXN_GPIO_PINS_def gpio_offsets bit_simps)
qed

theorem gpio_refines_pins_witness:
  "let t = fold gpio_handle [Gpio_write GPIO_PDDR 8, Gpio_write GPIO_PSOR 0xFF, Gpio_input 4 True, Gpio_write GPIO_PTOR 1]
        (mcxn_gpio_reset \<lparr>pdor = 0, pddr = 0, pidr = 0, gpio_lock = 0, in_level = 0, gpio_output = []\<rparr>)
   in bit (mcxn_gpio_read t GPIO_PDIR) 3 \<and> line_level (gpio_output t) 3"
  using gpio_refines_pins [of 3 "[Gpio_write GPIO_PDDR 8, Gpio_write GPIO_PSOR 0xFF, Gpio_input 4 True, Gpio_write GPIO_PTOR 1]"
      "\<lparr>pdor = 0, pddr = 0, pidr = 0, gpio_lock = 0, in_level = 0, gpio_output = []\<rparr>"]
  by (simp add: Let_def gpio_pin_level_def gpio_offsets)

end
