(* ===== verification/Mcxn_Pint.thy ===== *)
theory Mcxn_Pint
  imports Mcxn_Interfaces
begin

unbundle bit_operations_syntax

text \<open>
  The pin interrupt block (\<^verbatim>\<open>hw/misc/mcxn_pint.c\<close>): edge detection on eight operator-driven
  channels, the shared interrupt line, and the DMA request pulses of the first four channels.
\<close>

section \<open>Model\<close>

datatype pint_line = Pint_irq | Pint_dma_req nat

record MCXNPINTState =
  pint_lines :: "pint_line irq_log"
  pint_regs :: "nat \<Rightarrow> u32"
  pin_level :: u8

definition MCXN_PINT_SIZE :: nat where "MCXN_PINT_SIZE = 0x1000"
definition MCXN_PINT_CHANNELS :: nat where "MCXN_PINT_CHANNELS = 8"
definition MCXN_PINT_DMA_LINES :: nat where "MCXN_PINT_DMA_LINES = 4"
definition PINT_ISEL :: nat where "PINT_ISEL = 0x00"
definition PINT_IENR :: nat where "PINT_IENR = 0x04"
definition PINT_SIENR :: nat where "PINT_SIENR = 0x08"
definition PINT_CIENR :: nat where "PINT_CIENR = 0x0C"
definition PINT_IENF :: nat where "PINT_IENF = 0x10"
definition PINT_SIENF :: nat where "PINT_SIENF = 0x14"
definition PINT_CIENF :: nat where "PINT_CIENF = 0x18"
definition PINT_RISE :: nat where "PINT_RISE = 0x1C"
definition PINT_FALL :: nat where "PINT_FALL = 0x20"
definition PINT_IST :: nat where "PINT_IST = 0x24"
definition PINT_PIN_MASK :: u32 where "PINT_PIN_MASK = 0xFF"

lemmas pint_offsets = MCXN_PINT_SIZE_def PINT_ISEL_def PINT_IENR_def PINT_SIENR_def PINT_CIENR_def PINT_IENF_def
  PINT_SIENF_def PINT_CIENF_def PINT_RISE_def PINT_FALL_def PINT_IST_def

definition mcxn_pint_update_irq :: "MCXNPINTState \<Rightarrow> MCXNPINTState" where
  "mcxn_pint_update_irq s =
     s\<lparr>pint_lines := qemu_set_irq Pint_irq (tst (pint_regs s (PINT_IST div 4)) PINT_PIN_MASK) (pint_lines s)\<rparr>"

definition pint_latch :: "nat \<Rightarrow> nat \<Rightarrow> MCXNPINTState \<Rightarrow> MCXNPINTState" where
  "pint_latch reg ch s =
     s\<lparr>pint_regs := (pint_regs s)(reg div 4 := pint_regs s (reg div 4) OR flag ch,
                                  PINT_IST div 4 := pint_regs s (PINT_IST div 4) OR flag ch)\<rparr>"

text \<open>The loop body of \<^verbatim>\<open>mcxn_pint_drive_input\<close> for one channel.\<close>

definition pint_channel :: "u8 \<Rightarrow> u8 \<Rightarrow> u8 \<Rightarrow> u8 \<Rightarrow> u8 \<Rightarrow> nat \<Rightarrow> MCXNPINTState \<Rightarrow> MCXNPINTState" where
  "pint_channel isel ienr ienf old level ch s =
     (let m = flag ch; was = tst old m; now = tst level m in
      if tst isel m then s
      else let rising = now \<and> \<not> was \<and> tst ienr m;
               falling = \<not> now \<and> was \<and> tst ienf m;
               s = (if rising then pint_latch PINT_RISE ch s else if falling then pint_latch PINT_FALL ch s else s)
           in if (rising \<or> falling) \<and> ch < MCXN_PINT_DMA_LINES
              then s\<lparr>pint_lines := qemu_irq_pulse (Pint_dma_req ch) (pint_lines s)\<rparr> else s)"

definition mcxn_pint_drive_input :: "MCXNPINTState \<Rightarrow> u8 \<Rightarrow> MCXNPINTState" where
  "mcxn_pint_drive_input s level =
     (let isel = ucast (pint_regs s (PINT_ISEL div 4) AND PINT_PIN_MASK);
          ienr = ucast (pint_regs s (PINT_IENR div 4) AND PINT_PIN_MASK);
          ienf = ucast (pint_regs s (PINT_IENF div 4) AND PINT_PIN_MASK);
          s = fold (pint_channel isel ienr ienf (pin_level s) level) [0..<MCXN_PINT_CHANNELS] s
      in mcxn_pint_update_irq (s\<lparr>pin_level := level\<rparr>))"

definition mcxn_pint_get_input :: "MCXNPINTState \<Rightarrow> u8" where
  "mcxn_pint_get_input s = pin_level s"

text \<open>The property setter; \<open>None\<close> is a value the visitor rejects.\<close>

definition mcxn_pint_set_input :: "MCXNPINTState \<Rightarrow> u8 option \<Rightarrow> MCXNPINTState" where
  "mcxn_pint_set_input s v = (case v of None \<Rightarrow> s | Some level \<Rightarrow> mcxn_pint_drive_input s level)"

definition mcxn_pint_read :: "MCXNPINTState \<Rightarrow> nat \<Rightarrow> u64" where
  "mcxn_pint_read s off =
     (if off \<ge> MCXN_PINT_SIZE then 0
      else if off = PINT_SIENR \<or> off = PINT_CIENR \<or> off = PINT_SIENF \<or> off = PINT_CIENF then 0
      else ucast (pint_regs s (off div 4)))"

definition mcxn_pint_write :: "MCXNPINTState \<Rightarrow> nat \<Rightarrow> u64 \<Rightarrow> MCXNPINTState" where
  "mcxn_pint_write s off value =
     (let v = ucast value :: u32; regs = pint_regs s in
      if off \<ge> MCXN_PINT_SIZE then s
      else if off = PINT_SIENR then s\<lparr>pint_regs := regs(PINT_IENR div 4 := regs (PINT_IENR div 4) OR v)\<rparr>
      else if off = PINT_CIENR then s\<lparr>pint_regs := regs(PINT_IENR div 4 := regs (PINT_IENR div 4) AND NOT v)\<rparr>
      else if off = PINT_SIENF then s\<lparr>pint_regs := regs(PINT_IENF div 4 := regs (PINT_IENF div 4) OR v)\<rparr>
      else if off = PINT_CIENF then s\<lparr>pint_regs := regs(PINT_IENF div 4 := regs (PINT_IENF div 4) AND NOT v)\<rparr>
      else if off = PINT_RISE \<or> off = PINT_FALL then s\<lparr>pint_regs := regs(off div 4 := regs (off div 4) AND NOT v)\<rparr>
      else if off = PINT_IST then
        mcxn_pint_update_irq (s\<lparr>pint_regs := regs(PINT_IST div 4 := regs (PINT_IST div 4) AND NOT v)\<rparr>)
      else s\<lparr>pint_regs := regs(off div 4 := v)\<rparr>)"

definition mcxn_pint_reset :: "MCXNPINTState \<Rightarrow> MCXNPINTState" where
  "mcxn_pint_reset s =
     s\<lparr>pint_regs := (\<lambda>_. 0), pin_level := 0, pint_lines := qemu_set_irq Pint_irq False (pint_lines s)\<rparr>"

definition mcxn_pint_post_load :: "MCXNPINTState \<Rightarrow> MCXNPINTState" where
  "mcxn_pint_post_load s = mcxn_pint_update_irq s"

section \<open>Edges\<close>

text \<open>Which channels fire on a change of the inputs, and on which edge.\<close>

definition pint_edge_mode :: "MCXNPINTState \<Rightarrow> nat \<Rightarrow> bool" where
  "pint_edge_mode s ch \<longleftrightarrow> ch < 8 \<and> \<not> bit (pint_regs s (PINT_ISEL div 4)) ch"

definition pint_rises :: "MCXNPINTState \<Rightarrow> u8 \<Rightarrow> nat \<Rightarrow> bool" where
  "pint_rises s level ch \<longleftrightarrow> pint_edge_mode s ch \<and> bit level ch \<and> \<not> bit (pin_level s) ch
     \<and> bit (pint_regs s (PINT_IENR div 4)) ch"

definition pint_falls :: "MCXNPINTState \<Rightarrow> u8 \<Rightarrow> nat \<Rightarrow> bool" where
  "pint_falls s level ch \<longleftrightarrow> pint_edge_mode s ch \<and> \<not> bit level ch \<and> bit (pin_level s) ch
     \<and> bit (pint_regs s (PINT_IENF div 4)) ch"

definition pint_pulses :: "MCXNPINTState \<Rightarrow> u8 \<Rightarrow> nat list \<Rightarrow> pint_line irq_log" where
  "pint_pulses s level chs =
     concat (map (\<lambda>ch. if (pint_rises s level ch \<or> pint_falls s level ch) \<and> ch < MCXN_PINT_DMA_LINES
                       then [(Pint_dma_req ch, True), (Pint_dma_req ch, False)] else []) chs)"

lemma bit_PINT_PIN_MASK [bit_simps]: "bit PINT_PIN_MASK n \<longleftrightarrow> n < 8"
proof -
  have m: "PINT_PIN_MASK = mask 8" by (simp add: PINT_PIN_MASK_def mask_eq_exp_minus_1)
  show ?thesis unfolding m by (auto simp: bit_simps)
qed

lemma bit_pin_mask: "bit (ucast (v AND PINT_PIN_MASK) :: u8) n \<longleftrightarrow> n < 8 \<and> bit v n" for v :: u32
  by (auto simp: bit_simps)

lemma tst_pin_mask: "tst v PINT_PIN_MASK \<longleftrightarrow> (\<exists>n < 8. bit v n)" for v :: u32
proof -
  have "\<not> bit v n" if "v AND PINT_PIN_MASK = 0" "n < 8" for n
    using arg_cong [OF that(1), of "\<lambda>w. bit w n"] that(2) by (simp add: bit_simps)
  moreover have "v AND PINT_PIN_MASK = 0" if "\<forall>n < 8. \<not> bit v n"
    using that by (intro bit_word_eqI) (auto simp: bit_simps)
  ultimately show ?thesis unfolding tst_def by blast
qed

lemma pint_scan:
  fixes s level
  defines "body \<equiv> pint_channel (ucast (pint_regs s (PINT_ISEL div 4) AND PINT_PIN_MASK))
      (ucast (pint_regs s (PINT_IENR div 4) AND PINT_PIN_MASK)) (ucast (pint_regs s (PINT_IENF div 4) AND PINT_PIN_MASK))
      (pin_level s) level"
  assumes "\<forall>ch \<in> set chs. ch < 8"
  shows "pint_lines (fold body chs t) = pint_lines t @ pint_pulses s level chs"
    and "bit (pint_regs (fold body chs t) (PINT_RISE div 4)) n
      = (bit (pint_regs t (PINT_RISE div 4)) n \<or> n \<in> set chs \<and> pint_rises s level n)"
    and "bit (pint_regs (fold body chs t) (PINT_FALL div 4)) n
      = (bit (pint_regs t (PINT_FALL div 4)) n \<or> n \<in> set chs \<and> pint_falls s level n)"
    and "bit (pint_regs (fold body chs t) (PINT_IST div 4)) n
      = (bit (pint_regs t (PINT_IST div 4)) n \<or> n \<in> set chs \<and> (pint_rises s level n \<or> pint_falls s level n))"
proof -
  have step: "body ch t = (let s' = (if pint_rises s level ch then pint_latch PINT_RISE ch t
        else if pint_falls s level ch then pint_latch PINT_FALL ch t else t)
      in if (pint_rises s level ch \<or> pint_falls s level ch) \<and> ch < MCXN_PINT_DMA_LINES
         then s'\<lparr>pint_lines := qemu_irq_pulse (Pint_dma_req ch) (pint_lines s')\<rparr> else s')" if "ch < 8" for ch t
    using that
    by (auto simp: body_def pint_channel_def Let_def pint_rises_def pint_falls_def pint_edge_mode_def bit_pin_mask)
  have excl: "\<not> (pint_rises s level ch \<and> pint_falls s level ch)" for ch
    by (simp add: pint_rises_def pint_falls_def)
  have l: "pint_lines (body ch t) = pint_lines t @ pint_pulses s level [ch]" if "ch < 8" for ch t
    by (simp add: step [OF that] Let_def pint_pulses_def pint_latch_def qemu_irq_pulse_def qemu_set_irq_def)
  have r: "bit (pint_regs (body ch t) (PINT_RISE div 4)) n = (bit (pint_regs t (PINT_RISE div 4)) n \<or> n = ch \<and> pint_rises s level n)"
    "bit (pint_regs (body ch t) (PINT_FALL div 4)) n = (bit (pint_regs t (PINT_FALL div 4)) n \<or> n = ch \<and> pint_falls s level n)"
    "bit (pint_regs (body ch t) (PINT_IST div 4)) n
      = (bit (pint_regs t (PINT_IST div 4)) n \<or> n = ch \<and> (pint_rises s level n \<or> pint_falls s level n))" if "ch < 8" for ch t n
    using that excl [of ch] by (auto simp: step Let_def pint_latch_def pint_offsets)
  show "pint_lines (fold body chs t) = pint_lines t @ pint_pulses s level chs"
    using assms(2) by (induction chs arbitrary: t) (simp_all add: l, simp_all add: pint_pulses_def)
  show "bit (pint_regs (fold body chs t) (PINT_RISE div 4)) n
      = (bit (pint_regs t (PINT_RISE div 4)) n \<or> n \<in> set chs \<and> pint_rises s level n)"
    using assms(2) by (induction chs arbitrary: t) (auto simp: r)
  show "bit (pint_regs (fold body chs t) (PINT_FALL div 4)) n
      = (bit (pint_regs t (PINT_FALL div 4)) n \<or> n \<in> set chs \<and> pint_falls s level n)"
    using assms(2) by (induction chs arbitrary: t) (auto simp: r)
  show "bit (pint_regs (fold body chs t) (PINT_IST div 4)) n
      = (bit (pint_regs t (PINT_IST div 4)) n \<or> n \<in> set chs \<and> (pint_rises s level n \<or> pint_falls s level n))"
    using assms(2) by (induction chs arbitrary: t) (auto simp: r)
qed

section \<open>Runs\<close>

text \<open>Register accesses are word-aligned: \<open>Pint_write n v\<close> writes word \<open>n\<close>.\<close>

datatype pint_event = Pint_write nat u64 | Pint_input u8

fun pint_handle :: "pint_event \<Rightarrow> MCXNPINTState \<Rightarrow> MCXNPINTState" where
  "pint_handle (Pint_write n v) s = mcxn_pint_write s (4 * n) v"
| "pint_handle (Pint_input level) s = mcxn_pint_drive_input s level"

definition pint_tracks :: "MCXNPINTState \<Rightarrow> bool" where
  "pint_tracks s \<longleftrightarrow> line_level (pint_lines s) Pint_irq = tst (pint_regs s (PINT_IST div 4)) PINT_PIN_MASK"

lemma pint_tracks_update [simp]: "pint_tracks (mcxn_pint_update_irq s)"
  by (simp add: pint_tracks_def mcxn_pint_update_irq_def)

interpretation pint: total_device pint_handle pint_tracks
proof
  fix s e assume s: "pint_tracks s"
  show "pint_tracks (pint_handle e s)"
  proof (cases e)
    case (Pint_input level)
    then show ?thesis by (simp add: mcxn_pint_drive_input_def Let_def)
  next
    case (Pint_write n v)
    have "pint_tracks (s\<lparr>pint_regs := (pint_regs s)(m := x)\<rparr>)" if "m \<noteq> PINT_IST div 4" for m x
      using s that by (simp add: pint_tracks_def)
    moreover have "PINT_IENR div 4 \<noteq> PINT_IST div 4" "PINT_IENF div 4 \<noteq> PINT_IST div 4"
      "4 * n = PINT_RISE \<or> 4 * n = PINT_FALL \<Longrightarrow> n \<noteq> PINT_IST div 4" "4 * n \<noteq> PINT_IST \<Longrightarrow> n \<noteq> PINT_IST div 4"
      by (auto simp: pint_offsets)
    ultimately show ?thesis using s by (simp add: Pint_write mcxn_pint_write_def Let_def)
  qed
qed

section \<open>Properties\<close>

text \<open>
  C29: a change of the inputs latches RISE and IST for exactly the edge-mode channels that rose
  with the rising edge enabled, FALL and IST for those that fell with the falling edge enabled,
  pulses the DMA request of each of the first four channels that fired once, in channel order,
  and leaves the interrupt line high exactly if some status bit is set.
\<close>

theorem pint_detects_edges:
  "let t = mcxn_pint_drive_input s level
   in bit (pint_regs t (PINT_RISE div 4)) n = (bit (pint_regs s (PINT_RISE div 4)) n \<or> pint_rises s level n)
    \<and> bit (pint_regs t (PINT_FALL div 4)) n = (bit (pint_regs s (PINT_FALL div 4)) n \<or> pint_falls s level n)
    \<and> bit (pint_regs t (PINT_IST div 4)) n
        = (bit (pint_regs s (PINT_IST div 4)) n \<or> pint_rises s level n \<or> pint_falls s level n)
    \<and> pint_lines t = pint_lines s @ pint_pulses s level [0..<8]
        @ [(Pint_irq, \<exists>n < 8. bit (pint_regs t (PINT_IST div 4)) n)]
    \<and> mcxn_pint_get_input t = level"
proof -
  have n: "pint_rises s level n \<Longrightarrow> n < 8" "pint_falls s level n \<Longrightarrow> n < 8"
    by (simp_all add: pint_rises_def pint_falls_def pint_edge_mode_def)
  have u: "pint_regs (mcxn_pint_update_irq t) = pint_regs t" "pin_level (mcxn_pint_update_irq t) = pin_level t" for t
    by (simp_all add: mcxn_pint_update_irq_def)
  have l: "pint_lines (mcxn_pint_update_irq t) = pint_lines t @ [(Pint_irq, \<exists>n < 8. bit (pint_regs t (PINT_IST div 4)) n)]" for t
    by (simp add: mcxn_pint_update_irq_def qemu_set_irq_def tst_pin_mask)
  show ?thesis
    unfolding mcxn_pint_drive_input_def Let_def u l mcxn_pint_get_input_def MCXN_PINT_CHANNELS_def
    using n by (auto simp: pint_scan)
qed

text \<open>
  After any sequence of register writes and input changes following a reset, the shared
  interrupt line is high exactly if some channel's status bit is set.
\<close>

theorem pint_line_tracks:
  "line_level (pint_lines (fold pint_handle es (mcxn_pint_reset s))) Pint_irq
     = (\<exists>n < 8. bit (pint_regs (fold pint_handle es (mcxn_pint_reset s)) (PINT_IST div 4)) n)"
proof -
  have "pint_tracks (mcxn_pint_reset s)" by (simp add: pint_tracks_def mcxn_pint_reset_def)
  from pint.fold_good [OF this, of es] show ?thesis by (simp add: pint_tracks_def tst_pin_mask)
qed

end
