(* ===== verification/Mcxn_Fmu.thy ===== *)
theory Mcxn_Fmu
  imports Mcxn_Interfaces
begin

text \<open>
  The flash management unit (\<^verbatim>\<open>hw/misc/mcxn_fmu.c\<close>): the command interface, the write
  window through which programming and sector erase receive address and data as stores
  into flash, and the commit that only ever clears bits.  The backing array is a function
  from offsets to bytes, absent when no flash region has been attached.
\<close>

section \<open>Model\<close>

record MCXNFMUState =
  fstat :: u32
  fcnfg :: u32
  fctrl :: u32
  fccob :: "nat \<Rightarrow> u32"
  pe_buf :: "nat \<Rightarrow> u8"
  pe_addr :: u64
  pe_words :: nat
  pe_expect :: nat
  pe_cmd :: u8
  pe_active :: bool
  fmu_flash :: "(u64 \<Rightarrow> u8) option"
  flash_size :: u64
  fmu_irq :: "unit irq_log"

definition R_FSTAT :: nat where "R_FSTAT = 0x0"
definition R_FCNFG :: nat where "R_FCNFG = 0x4"
definition R_FCTRL :: nat where "R_FCTRL = 0x8"
definition R_FCCOB0 :: nat where "R_FCCOB0 = 0x10"

lemmas fmu_offsets = R_FSTAT_def R_FCNFG_def R_FCTRL_def R_FCCOB0_def

abbreviation FSTAT_FAIL :: u32 where "FSTAT_FAIL \<equiv> flag 0"
abbreviation FSTAT_CMDABT :: u32 where "FSTAT_CMDABT \<equiv> flag 2"
abbreviation FSTAT_PVIOL :: u32 where "FSTAT_PVIOL \<equiv> flag 4"
abbreviation FSTAT_ACCERR :: u32 where "FSTAT_ACCERR \<equiv> flag 5"
abbreviation FSTAT_CCIF :: u32 where "FSTAT_CCIF \<equiv> flag 7"
abbreviation FSTAT_PERDY :: u32 where "FSTAT_PERDY \<equiv> flag 31"
abbreviation FCNFG_CCIE :: u32 where "FCNFG_CCIE \<equiv> flag 7"
abbreviation FCTRL_ABTREQ :: u32 where "FCTRL_ABTREQ \<equiv> flag 24"

definition FSTAT_PEWEN_SHIFT :: nat where "FSTAT_PEWEN_SHIFT = 24"
definition FSTAT_PEWEN_MASK :: u32 where "FSTAT_PEWEN_MASK = push_bit FSTAT_PEWEN_SHIFT 3"
definition PEWEN_PHRASE :: u32 where "PEWEN_PHRASE = 1"
definition PEWEN_PAGE :: u32 where "PEWEN_PAGE = 2"
definition FSTAT_ERRORS :: u32 where
  "FSTAT_ERRORS = FSTAT_FAIL OR FSTAT_CMDABT OR FSTAT_PVIOL OR FSTAT_ACCERR"

definition FCMD_RD1ALL :: u8 where "FCMD_RD1ALL = 0x00"
definition FCMD_RD1BLK :: u8 where "FCMD_RD1BLK = 0x01"
definition FCMD_RD1SCR :: u8 where "FCMD_RD1SCR = 0x02"
definition FCMD_RD1PG :: u8 where "FCMD_RD1PG = 0x03"
definition FCMD_RD1PHR :: u8 where "FCMD_RD1PHR = 0x04"
definition FCMD_PGMPG :: u8 where "FCMD_PGMPG = 0x23"
definition FCMD_PGMPHR :: u8 where "FCMD_PGMPHR = 0x24"
definition FCMD_ERSALL :: u8 where "FCMD_ERSALL = 0x40"
definition FCMD_ERSSCR :: u8 where "FCMD_ERSSCR = 0x42"

lemmas fcmds = FCMD_RD1ALL_def FCMD_RD1BLK_def FCMD_RD1SCR_def FCMD_RD1PG_def FCMD_RD1PHR_def
  FCMD_PGMPG_def FCMD_PGMPHR_def FCMD_ERSALL_def FCMD_ERSSCR_def

definition MCXN_FLASH_PHRASE :: nat where "MCXN_FLASH_PHRASE = 16"
definition MCXN_FLASH_PAGE :: nat where "MCXN_FLASH_PAGE = 128"
definition MCXN_FLASH_SECTOR :: u64 where "MCXN_FLASH_SECTOR = 0x2000"

lemmas flash_geometry = MCXN_FLASH_PHRASE_def MCXN_FLASH_PAGE_def

definition fmu_flash_off :: "MCXNFMUState \<Rightarrow> u64 \<Rightarrow> u64" where
  "fmu_flash_off s addr = (if flash_size s \<noteq> 0 then addr AND (flash_size s - 1) else 0)"

definition fmu_update_irq :: "MCXNFMUState \<Rightarrow> MCXNFMUState" where
  "fmu_update_irq s =
     s\<lparr>fmu_irq := qemu_set_irq () (tst (fstat s) FSTAT_CCIF \<and> tst (fcnfg s) FCNFG_CCIE) (fmu_irq s)\<rparr>"

definition fmu_complete :: "MCXNFMUState \<Rightarrow> MCXNFMUState" where
  "fmu_complete s =
     fmu_update_irq (s\<lparr>pe_active := False, pe_words := 0,
       fstat := (fstat s AND NOT (FSTAT_PEWEN_MASK OR FSTAT_PERDY)) OR FSTAT_CCIF\<rparr>)"

definition fmu_fail :: "MCXNFMUState \<Rightarrow> u32 \<Rightarrow> MCXNFMUState" where
  "fmu_fail s fl = fmu_complete (s\<lparr>fstat := fstat s OR fl\<rparr>)"

definition fmu_open_write_window :: "MCXNFMUState \<Rightarrow> u8 \<Rightarrow> nat \<Rightarrow> u32 \<Rightarrow> MCXNFMUState" where
  "fmu_open_write_window s cmd words pewen =
     s\<lparr>pe_cmd := cmd, pe_expect := words, pe_words := 0, pe_addr := 0, pe_active := True,
       pe_buf := (\<lambda>_. 0xFF),
       fstat := ((fstat s AND NOT FSTAT_PERDY) AND NOT FSTAT_PEWEN_MASK) OR push_bit FSTAT_PEWEN_SHIFT pewen\<rparr>"

definition fmu_verify_erased :: "MCXNFMUState \<Rightarrow> u64 \<Rightarrow> u64 \<Rightarrow> MCXNFMUState" where
  "fmu_verify_erased s off len =
     (case fmu_flash s of
        None \<Rightarrow> s
      | Some flash \<Rightarrow>
          (if list_ex (\<lambda>i. flash (off + of_nat i) \<noteq> 0xFF)
                (takeWhile (\<lambda>i. off + of_nat i < flash_size s) [0..<unat len])
           then s\<lparr>fstat := fstat s OR FSTAT_FAIL\<rparr> else s))"

text \<open>One byte of the programming loop: bits only go from 1 to 0, and the readback is verified.\<close>

definition fmu_program_byte :: "MCXNFMUState \<Rightarrow> u64 \<Rightarrow> nat \<Rightarrow> (u64 \<Rightarrow> u8) \<times> u32 \<Rightarrow> (u64 \<Rightarrow> u8) \<times> u32" where
  "fmu_program_byte s off i = (\<lambda>(flash, st).
     let merged = flash (off + of_nat i) AND pe_buf s i
     in (flash(off + of_nat i := merged), if merged \<noteq> pe_buf s i then st OR FSTAT_FAIL else st))"

definition fmu_commit :: "MCXNFMUState \<Rightarrow> MCXNFMUState result" where
  "fmu_commit s =
     (let len = pe_expect s * 4; off = pe_addr s
      in case fmu_flash s of
           None \<Rightarrow> Inr (fmu_complete s)
         | Some flash \<Rightarrow>
             (if pe_cmd s = FCMD_PGMPG \<or> pe_cmd s = FCMD_PGMPHR then
                (if off + of_nat len > flash_size s then Inr (fmu_fail s FSTAT_ACCERR)
                 else (case fold (fmu_program_byte s off) [0..<len] (flash, fstat s) of
                         (flash, st) \<Rightarrow> Inr (fmu_complete (s\<lparr>fmu_flash := Some flash, fstat := st\<rparr>))))
              else if pe_cmd s = FCMD_ERSSCR then
                (let sec = off AND NOT (MCXN_FLASH_SECTOR - 1)
                 in if sec + MCXN_FLASH_SECTOR > flash_size s then Inr (fmu_fail s FSTAT_ACCERR)
                    else Inr (fmu_complete (fmu_verify_erased
                           (s\<lparr>fmu_flash := Some (\<lambda>a. if sec \<le> a \<and> a < sec + MCXN_FLASH_SECTOR then 0xFF else flash a)\<rparr>)
                           sec MCXN_FLASH_SECTOR)))
              else Inl Assertion_failed))"

definition fmu_read1 :: "MCXNFMUState \<Rightarrow> u64 \<Rightarrow> u64 \<Rightarrow> MCXNFMUState" where
  "fmu_read1 s addr unit =
     (if tst addr (unit - 1) then fmu_fail s FSTAT_ACCERR
      else fmu_complete (fmu_verify_erased s addr unit))"

definition fmu_launch :: "MCXNFMUState \<Rightarrow> MCXNFMUState" where
  "fmu_launch s =
     (let cmd = ucast (fccob s 0 AND 0xFF) :: u8;
          addr = fmu_flash_off s (ucast (fccob s 2));
          s = fmu_update_irq (s\<lparr>fstat := fstat s AND NOT FSTAT_CCIF\<rparr>)
      in if cmd = FCMD_ERSALL then
           fmu_complete (case fmu_flash s of None \<Rightarrow> s
             | Some flash \<Rightarrow> s\<lparr>fmu_flash := Some (\<lambda>a. if a < flash_size s then 0xFF else flash a)\<rparr>)
         else if cmd = FCMD_RD1ALL then fmu_complete (fmu_verify_erased s 0 (flash_size s))
         else if cmd = FCMD_RD1BLK then
           fmu_complete (fmu_verify_erased s (addr AND NOT (flash_size s div 2 - 1)) (flash_size s div 2))
         else if cmd = FCMD_RD1SCR then fmu_read1 s addr MCXN_FLASH_SECTOR
         else if cmd = FCMD_RD1PG then fmu_read1 s addr (of_nat MCXN_FLASH_PAGE)
         else if cmd = FCMD_RD1PHR then fmu_read1 s addr (of_nat MCXN_FLASH_PHRASE)
         else if cmd = FCMD_PGMPG then fmu_open_write_window s cmd (MCXN_FLASH_PAGE div 4) PEWEN_PAGE
         else if cmd = FCMD_PGMPHR \<or> cmd = FCMD_ERSSCR then
           fmu_open_write_window s cmd (MCXN_FLASH_PHRASE div 4) PEWEN_PHRASE
         else fmu_fail s FSTAT_ACCERR)"

text \<open>A store into the flash address space.  \<open>pe_addr + pe_words * 4\<close> is 64-bit arithmetic.\<close>

definition fmu_stage :: "MCXNFMUState \<Rightarrow> u32 \<Rightarrow> MCXNFMUState" where
  "fmu_stage s val =
     (let s = s\<lparr>pe_buf := (\<lambda>i. if pe_words s * 4 \<le> i \<and> i < pe_words s * 4 + 4
                              then stl_le val ! (i - pe_words s * 4) else pe_buf s i),
               pe_words := pe_words s + 1\<rparr>
      in if pe_words s = pe_expect s
         then s\<lparr>fstat := (fstat s AND NOT FSTAT_PEWEN_MASK) OR FSTAT_PERDY\<rparr> else s)"

definition mcxn_fmu_flash_write :: "MCXNFMUState \<Rightarrow> u64 \<Rightarrow> u64 \<Rightarrow> nat \<Rightarrow> MCXNFMUState" where
  "mcxn_fmu_flash_write s off val sz =
     (if \<not> pe_active s \<or> \<not> tst (fstat s) FSTAT_PEWEN_MASK then s
      else if sz \<noteq> 4 then fmu_fail s FSTAT_ACCERR
      else if pe_words s = 0 \<and> tst off (of_nat (pe_expect s * 4 - 1)) then fmu_fail s FSTAT_ACCERR
      else if pe_words s \<noteq> 0 \<and> off \<noteq> pe_addr s + of_nat (pe_words s * 4) then fmu_fail s FSTAT_ACCERR
      else
        let s = (if pe_words s = 0 then s\<lparr>pe_addr := off\<rparr> else s)
        in if pe_words s \<ge> pe_expect s then fmu_fail s FSTAT_ACCERR
           else fmu_stage s (ucast val))"

definition mcxn_fmu_read :: "MCXNFMUState \<Rightarrow> nat \<Rightarrow> u64" where
  "mcxn_fmu_read s off =
     (if off = R_FSTAT then ucast (fstat s)
      else if off = R_FCNFG then ucast (fcnfg s)
      else if off = R_FCTRL then ucast (fctrl s)
      else if off \<ge> R_FCCOB0 \<and> off < R_FCCOB0 + 8 * 4 then ucast (fccob s ((off - R_FCCOB0) div 4))
      else 0)"

definition mcxn_fmu_write :: "MCXNFMUState \<Rightarrow> nat \<Rightarrow> u64 \<Rightarrow> MCXNFMUState result" where
  "mcxn_fmu_write s off val =
     (let v = ucast val :: u32
      in if off = R_FSTAT then
           (let blocked = tst (fstat s) FSTAT_ERRORS;
                s = s\<lparr>fstat := fstat s AND NOT (v AND FSTAT_ERRORS)\<rparr>
            in if tst v FSTAT_PERDY \<and> tst (fstat s) FSTAT_PERDY
               then fmu_commit (s\<lparr>fstat := fstat s AND NOT FSTAT_PERDY\<rparr>)
               else if tst v FSTAT_CCIF \<and> tst (fstat s) FSTAT_CCIF \<and> \<not> blocked then Inr (fmu_launch s)
               else Inr s)
         else if off = R_FCNFG then Inr (fmu_update_irq (s\<lparr>fcnfg := v\<rparr>))
         else if off = R_FCTRL then
           (let s = s\<lparr>fctrl := v\<rparr>
            in if tst v FCTRL_ABTREQ then
                 (let s = (if pe_active s then fmu_fail s FSTAT_CMDABT else s)
                  in Inr (s\<lparr>fctrl := fctrl s AND NOT FCTRL_ABTREQ\<rparr>))
               else Inr s)
         else if off \<ge> R_FCCOB0 \<and> off < R_FCCOB0 + 8 * 4 then
           Inr (if tst (fstat s) FSTAT_CCIF
                then s\<lparr>fccob := (fccob s)((off - R_FCCOB0) div 4 := v)\<rparr> else s)
         else Inr s)"

definition mcxn_fmu_reset :: "MCXNFMUState \<Rightarrow> MCXNFMUState" where
  "mcxn_fmu_reset s =
     s\<lparr>fstat := FSTAT_CCIF, fcnfg := 0, fctrl := 0, fccob := (\<lambda>_. 0), pe_active := False, pe_words := 0,
       pe_expect := 0, pe_addr := 0, pe_cmd := 0, pe_buf := (\<lambda>_. 0xFF)\<rparr>"

definition mcxn_fmu_post_load :: "MCXNFMUState \<Rightarrow> MCXNFMUState" where
  "mcxn_fmu_post_load s = fmu_update_irq s"

text \<open>Attaching the flash array, and the read hook of the ROM device, which direct reads bypass.\<close>

definition mcxn_fmu_init_flash :: "MCXNFMUState \<Rightarrow> (u64 \<Rightarrow> u8) \<Rightarrow> u64 \<Rightarrow> MCXNFMUState" where
  "mcxn_fmu_init_flash s flash sz = s\<lparr>fmu_flash := Some flash, flash_size := sz\<rparr>"

definition mcxn_fmu_flash_read :: "MCXNFMUState \<Rightarrow> u64 \<Rightarrow> u64" where
  "mcxn_fmu_flash_read s off = 0"

section \<open>The state of the write window\<close>

lemma PEWEN_MASK_flags: "FSTAT_PEWEN_MASK = flag 24 OR flag 25"
  by (simp add: FSTAT_PEWEN_MASK_def FSTAT_PEWEN_SHIFT_def flag_def)

lemma bit_PEWEN_MASK [bit_simps]: "bit FSTAT_PEWEN_MASK n \<longleftrightarrow> n = 24 \<or> n = 25"
  unfolding PEWEN_MASK_flags by (auto simp: bit_simps)

lemma tst_PEWEN [simp]: "tst v FSTAT_PEWEN_MASK \<longleftrightarrow> bit v 24 \<or> bit v 25"
  unfolding PEWEN_MASK_flags by (simp add: tst_or)

lemma bit_FSTAT_ERRORS [bit_simps]: "bit FSTAT_ERRORS n \<longleftrightarrow> n = 0 \<or> n = 2 \<or> n = 4 \<or> n = 5"
  by (auto simp: FSTAT_ERRORS_def bit_simps)

lemma pewen_fields [simp]:
  "push_bit FSTAT_PEWEN_SHIFT PEWEN_PHRASE = flag 24" "push_bit FSTAT_PEWEN_SHIFT PEWEN_PAGE = flag 25"
  by (simp_all add: FSTAT_PEWEN_SHIFT_def PEWEN_PHRASE_def PEWEN_PAGE_def flag_def)

text \<open>
  Busy means a write window of a known command, still collecting words (PEWEN) or full
  and waiting for the commit (PERDY); idle means CCIF, with neither.
\<close>

definition fmu_inv :: "MCXNFMUState \<Rightarrow> bool" where
  "fmu_inv s \<longleftrightarrow>
     (if pe_active s then
        \<not> tst (fstat s) FSTAT_CCIF
        \<and> (pe_cmd s = FCMD_PGMPG \<and> pe_expect s = 32
           \<or> (pe_cmd s = FCMD_PGMPHR \<or> pe_cmd s = FCMD_ERSSCR) \<and> pe_expect s = 4)
        \<and> pe_words s \<le> pe_expect s
        \<and> (tst (fstat s) FSTAT_PERDY \<longleftrightarrow> pe_words s = pe_expect s)
        \<and> (tst (fstat s) FSTAT_PEWEN_MASK \<longleftrightarrow> pe_words s < pe_expect s)
      else tst (fstat s) FSTAT_CCIF \<and> \<not> tst (fstat s) FSTAT_PERDY \<and> \<not> tst (fstat s) FSTAT_PEWEN_MASK)"

lemma fmu_update_irq_fields [simp]:
  "fstat (fmu_update_irq s) = fstat s" "fcnfg (fmu_update_irq s) = fcnfg s" "fctrl (fmu_update_irq s) = fctrl s"
  "fccob (fmu_update_irq s) = fccob s"
  "pe_buf (fmu_update_irq s) = pe_buf s" "pe_addr (fmu_update_irq s) = pe_addr s"
  "pe_words (fmu_update_irq s) = pe_words s" "pe_expect (fmu_update_irq s) = pe_expect s"
  "pe_cmd (fmu_update_irq s) = pe_cmd s" "pe_active (fmu_update_irq s) = pe_active s"
  "fmu_flash (fmu_update_irq s) = fmu_flash s" "flash_size (fmu_update_irq s) = flash_size s"
  by (simp_all add: fmu_update_irq_def)

lemma fmu_inv_update_irq [simp]: "fmu_inv (fmu_update_irq s) = fmu_inv s"
  by (simp add: fmu_inv_def)

lemma fmu_inv_config [simp]:
  "fmu_inv (s\<lparr>fcnfg := v\<rparr>) = fmu_inv s" "fmu_inv (s\<lparr>fctrl := v\<rparr>) = fmu_inv s"
  "fmu_inv (s\<lparr>fccob := f\<rparr>) = fmu_inv s"
  by (simp_all add: fmu_inv_def)

lemma fmu_complete_fields [simp]:
  "\<not> pe_active (fmu_complete s)" "fmu_flash (fmu_complete s) = fmu_flash s"
  "bit (fstat (fmu_complete s)) n \<longleftrightarrow> n = 7 \<or> n \<noteq> 24 \<and> n \<noteq> 25 \<and> n \<noteq> 31 \<and> bit (fstat s) n"
  by (auto simp: fmu_complete_def bit_simps dest: bit_imp_le_length)

lemma fmu_inv_complete [simp]: "fmu_inv (fmu_complete s)" "fmu_inv (fmu_fail s f)"
  by (simp_all add: fmu_inv_def fmu_fail_def)

lemma fmu_inv_launch:
  "fmu_inv (fmu_launch s)"
  by (simp add: fmu_launch_def fmu_read1_def Let_def)
     (simp add: fmu_inv_def fmu_open_write_window_def flash_geometry bit_simps)

lemma fmu_commit_ok:
  assumes "fmu_flash s = None \<or> pe_cmd s = FCMD_PGMPG \<or> pe_cmd s = FCMD_PGMPHR \<or> pe_cmd s = FCMD_ERSSCR"
  shows "\<exists>t. fmu_commit s = Inr t \<and> fmu_inv t"
  using assms by (auto simp: fmu_commit_def Let_def split: option.splits prod.splits)

lemma fmu_inv_flash_write:
  assumes "fmu_inv s"
  shows "fmu_inv (mcxn_fmu_flash_write s off val sz)"
  using assms
  by (auto simp: mcxn_fmu_flash_write_def Let_def fmu_stage_def)
     (auto simp: fmu_inv_def bit_simps split: if_splits)

lemma fmu_inv_write:
  assumes "fmu_inv s"
  shows "\<exists>t. mcxn_fmu_write s off val = Inr t \<and> fmu_inv t"
proof (cases "off = R_FSTAT")
  case True
  let ?s = "s\<lparr>fstat := fstat s AND NOT (ucast val AND FSTAT_ERRORS)\<rparr>"
  have inv: "fmu_inv ?s" using assms by (auto simp: fmu_inv_def bit_simps)
  show ?thesis
  proof (cases "tst (ucast val :: u32) FSTAT_PERDY \<and> tst (fstat ?s) FSTAT_PERDY")
    case p: True
    then have "pe_active ?s" using inv by (auto simp: fmu_inv_def split: if_splits)
    then have "\<exists>t. fmu_commit (?s\<lparr>fstat := fstat ?s AND NOT FSTAT_PERDY\<rparr>) = Inr t \<and> fmu_inv t"
      using inv by (intro fmu_commit_ok) (auto simp: fmu_inv_def split: if_splits)
    then show ?thesis using True p by (simp add: mcxn_fmu_write_def Let_def del: tst_flag)
  next
    case p: False
    then show ?thesis using True inv
      by (auto simp: mcxn_fmu_write_def Let_def fmu_inv_launch simp del: tst_flag)
  qed
next
  case False
  then show ?thesis using assms
    by (simp add: mcxn_fmu_write_def Let_def)
qed

text \<open>Sequences of register writes and of stores into flash.\<close>

datatype fmu_access = Fmu_write nat u64 | Fmu_store u64 u64 nat

fun fmu_step :: "fmu_access \<Rightarrow> MCXNFMUState \<Rightarrow> MCXNFMUState result" where
  "fmu_step (Fmu_write off v) s = mcxn_fmu_write s off v"
| "fmu_step (Fmu_store off v sz) s = Inr (mcxn_fmu_flash_write s off v sz)"

abbreviation fmu_run :: "fmu_access list \<Rightarrow> MCXNFMUState \<Rightarrow> MCXNFMUState result" where
  "fmu_run \<equiv> dev_run fmu_step"

interpretation fmu: live_device fmu_step fmu_inv
proof
  show "\<exists>t. fmu_step a s = Inr t \<and> fmu_inv t" if "fmu_inv s" for s a
    using that by (cases a) (simp_all add: fmu_inv_write fmu_inv_flash_write)
qed

section \<open>Programming\<close>

fun fmu_stores :: "u64 \<Rightarrow> u32 list \<Rightarrow> fmu_access list" where
  "fmu_stores off [] = []"
| "fmu_stores off (w # ws) = Fmu_store off (ucast w) 4 # fmu_stores (off + 4) ws"

definition words_bytes :: "u32 list \<Rightarrow> u8 list" where
  "words_bytes ws = concat (map stl_le ws)"

lemma words_bytes_simps [simp]:
  "words_bytes [] = []" "words_bytes (w # ws) = stl_le w @ words_bytes ws"
  by (simp_all add: words_bytes_def)

lemma length_words_bytes [simp]: "length (words_bytes ws) = 4 * length ws"
  by (induction ws) simp_all

text \<open>The buffer after the words \<open>ws\<close> have been staged from word position \<open>k\<close> on.\<close>

definition staged :: "(nat \<Rightarrow> u8) \<Rightarrow> nat \<Rightarrow> u32 list \<Rightarrow> nat \<Rightarrow> u8" where
  "staged buf k ws = (\<lambda>i. if 4 * k \<le> i \<and> i < 4 * k + 4 * length ws then words_bytes ws ! (i - 4 * k) else buf i)"

lemma staged_Cons: "staged (staged buf k [w]) (Suc k) ws = staged buf k (w # ws)"
  by (auto simp: staged_def fun_eq_iff nth_append add.commute)

lemma staged_Nil [simp]: "staged buf k [] = buf"
  by (auto simp: staged_def fun_eq_iff)

lemma fmu_stage_eq:
  "fmu_stage s w =
     (let t = s\<lparr>pe_buf := staged (pe_buf s) (pe_words s) [w], pe_words := pe_words s + 1\<rparr>
      in if pe_words s + 1 = pe_expect s
         then t\<lparr>fstat := (fstat s AND NOT FSTAT_PEWEN_MASK) OR FSTAT_PERDY\<rparr> else t)"
proof -
  have "(\<lambda>i. if pe_words s * 4 \<le> i \<and> i < pe_words s * 4 + 4 then stl_le w ! (i - pe_words s * 4)
                 else pe_buf s i) = staged (pe_buf s) (pe_words s) [w]"
    by (auto simp: staged_def fun_eq_iff mult.commute)
  then show ?thesis unfolding fmu_stage_def by (simp add: Let_def)
qed

lemma fmu_stores_staged:
  assumes "pe_active s" and "tst (fstat s) FSTAT_PEWEN_MASK" and "pe_words s + length ws = pe_expect s"
    and "ws \<noteq> []" and "if pe_words s = 0 then \<not> tst off (of_nat (pe_expect s * 4 - 1))
                       else off = pe_addr s + of_nat (pe_words s * 4)"
  shows "fmu_run (fmu_stores off ws) s
       = Inr (s\<lparr>pe_buf := staged (pe_buf s) (pe_words s) ws, pe_words := pe_expect s,
                pe_addr := (if pe_words s = 0 then off else pe_addr s),
                fstat := (fstat s AND NOT FSTAT_PEWEN_MASK) OR FSTAT_PERDY\<rparr>)"
  using assms
proof (induction ws arbitrary: s off)
  case Nil
  then show ?case by simp
next
  case (Cons w ws)
  let ?s1 = "s\<lparr>pe_addr := (if pe_words s = 0 then off else pe_addr s)\<rparr>"
  have "(if pe_words s = 0 then s\<lparr>pe_addr := off\<rparr> else s) = ?s1" by simp
  then have "mcxn_fmu_flash_write s off (ucast w) 4 = fmu_stage ?s1 w"
    using Cons.prems by (auto simp: mcxn_fmu_flash_write_def Let_def ucast_up_ucast_id is_up split: if_splits)
  then have step: "fmu_run (fmu_stores off (w # ws)) s = fmu_run (fmu_stores (off + 4) ws) (fmu_stage ?s1 w)"
    by simp
  show ?case
  proof (cases "ws = []")
    case True
    then show ?thesis using Cons.prems step by (simp add: fmu_stage_eq Let_def)
  next
    case False
    define t where "t = fmu_stage ?s1 w"
    have nl: "pe_words s + 1 \<noteq> pe_expect s" using Cons.prems(3) False by (cases ws) auto
    then have t: "t = ?s1\<lparr>pe_buf := staged (pe_buf s) (pe_words s) [w], pe_words := pe_words s + 1\<rparr>"
      by (simp add: t_def fmu_stage_eq Let_def)
    have "off + 4 = pe_addr t + of_nat (pe_words t * 4)"
      using Cons.prems(5) by (auto simp: t algebra_simps)
    then have "fmu_run (fmu_stores (off + 4) ws) t
       = Inr (t\<lparr>pe_buf := staged (pe_buf t) (pe_words t) ws, pe_words := pe_expect t,
                pe_addr := (if pe_words t = 0 then off + 4 else pe_addr t),
                fstat := (fstat t AND NOT FSTAT_PEWEN_MASK) OR FSTAT_PERDY\<rparr>)"
      using Cons.prems(1,2,3) False by (intro Cons.IH) (simp_all add: t)
    then show ?thesis
      using step [folded t_def] staged_Cons [of "pe_buf s" "pe_words s" w ws] by (simp add: t)
  qed
qed

text \<open>The programming loop in closed form.\<close>

lemma fmu_program_bytes:
  assumes "n < 2 ^ 64"
  shows "fold (fmu_program_byte s off) [0..<n] (flash, st) =
     ((\<lambda>a. if unat (a - off) < n then flash a AND pe_buf s (unat (a - off)) else flash a),
      if \<exists>i < n. flash (off + of_nat i) AND pe_buf s i \<noteq> pe_buf s i then st OR FSTAT_FAIL else st)"
  using assms
proof (induction n)
  case 0
  then show ?case by simp
next
  case (Suc n)
  have u: "unat (of_nat n :: u64) = n" using Suc.prems by (simp add: unat_of_nat)
  have e: "unat (a - off) = n \<longleftrightarrow> a = off + of_nat n" for a :: u64
  proof
    assume "unat (a - off) = n"
    with u have "a - off = of_nat n" by (intro unsigned_word_eqI [where ?'a = nat]) simp
    then show "a = off + of_nat n" by (simp add: algebra_simps)
  qed (simp add: u)
  have "(\<lambda>a. if unat (a - off) < n then flash a AND pe_buf s (unat (a - off)) else flash a)
           (off + of_nat n := flash (off + of_nat n) AND pe_buf s n)
      = (\<lambda>a. if unat (a - off) < Suc n then flash a AND pe_buf s (unat (a - off)) else flash a)"
    using u by (auto simp: fun_eq_iff less_Suc_eq e)
  then show ?case using Suc u
    by (auto simp: fmu_program_byte_def Let_def less_Suc_eq or.assoc)
qed

text \<open>The driver's sequence: command, launch, the words, and the commit by clearing PERDY.\<close>

definition fmu_program :: "u64 \<Rightarrow> u64 \<Rightarrow> u32 list \<Rightarrow> fmu_access list" where
  "fmu_program cmd off ws =
     [Fmu_write R_FCCOB0 cmd, Fmu_write R_FSTAT 0x80] @ fmu_stores off ws @ [Fmu_write R_FSTAT 0x80000000]"

definition fmu_idle :: "MCXNFMUState \<Rightarrow> bool" where
  "fmu_idle s \<longleftrightarrow> fmu_inv s \<and> \<not> pe_active s \<and> \<not> tst (fstat s) FSTAT_ERRORS"

text \<open>A unit of flash a program command writes: four words, or thirty-two.\<close>

definition fmu_unit :: "u64 \<Rightarrow> nat \<Rightarrow> bool" where
  "fmu_unit cmd n \<longleftrightarrow> cmd = 0x24 \<and> n = 4 \<or> cmd = 0x23 \<and> n = 32"

lemma fstat_no_error_bits:
  "(0x80 :: u32) AND FSTAT_ERRORS = 0" "(0x80000000 :: u32) AND FSTAT_ERRORS = 0"
  by (simp_all add: FSTAT_ERRORS_def flag_def)

lemma fmu_write_fstat:
  assumes "(ucast v :: u32) AND FSTAT_ERRORS = 0"
  shows "mcxn_fmu_write s R_FSTAT v =
     (if tst (ucast v :: u32) FSTAT_PERDY \<and> tst (fstat s) FSTAT_PERDY
      then fmu_commit (s\<lparr>fstat := fstat s AND NOT FSTAT_PERDY\<rparr>)
      else if tst (ucast v :: u32) FSTAT_CCIF \<and> tst (fstat s) FSTAT_CCIF \<and> \<not> tst (fstat s) FSTAT_ERRORS
      then Inr (fmu_launch s) else Inr s)"
  unfolding mcxn_fmu_write_def Let_def assms by simp

lemma fmu_program_opens:
  assumes "fmu_idle s" and "fmu_unit cmd n"
  shows "\<exists>t. fmu_run [Fmu_write R_FCCOB0 cmd, Fmu_write R_FSTAT 0x80] s = Inr t
       \<and> pe_active t \<and> tst (fstat t) FSTAT_PEWEN_MASK \<and> pe_words t = 0 \<and> pe_expect t = n
       \<and> pe_cmd t = ucast cmd \<and> pe_buf t = (\<lambda>_. 0xFF) \<and> fmu_flash t = fmu_flash s
       \<and> flash_size t = flash_size s \<and> \<not> tst (fstat t) FSTAT_FAIL"
proof -
  define s1 where "s1 = s\<lparr>fccob := (fccob s)(0 := ucast cmd)\<rparr>"
  have "bit (fstat s) 7" and e: "\<not> tst (fstat s) FSTAT_ERRORS" "\<not> bit (fstat s) 31"
    using assms(1) by (auto simp: fmu_idle_def fmu_inv_def split: if_splits)
  moreover have "\<not> bit (fstat s) 0"
    using e(1) by (auto simp: FSTAT_ERRORS_def tst_or)
  moreover have "mcxn_fmu_write s R_FCCOB0 cmd = Inr s1"
    using calculation by (simp add: mcxn_fmu_write_def fmu_offsets s1_def)
  moreover have "mcxn_fmu_write s1 R_FSTAT 0x80 = Inr (fmu_launch s1)"
    using calculation by (simp add: fmu_write_fstat fstat_no_error_bits s1_def bit_numeral_rec)
  ultimately show ?thesis
    using assms(2)
    by (auto simp: fmu_unit_def fmu_launch_def Let_def s1_def fcmds fmu_open_write_window_def flash_geometry bit_simps)
qed

lemma fmu_commit_programs:
  assumes "fmu_flash s = Some f" and "pe_cmd s = FCMD_PGMPG \<or> pe_cmd s = FCMD_PGMPHR"
    and "\<not> off + of_nat n > flash_size s" and "pe_addr s = off" and "pe_expect s * 4 = n" and "n < 2 ^ 64"
  shows "\<exists>t. fmu_commit s = Inr t \<and> \<not> pe_active t \<and> tst (fstat t) FSTAT_CCIF
       \<and> fmu_flash t = Some (\<lambda>a. if unat (a - off) < n then f a AND pe_buf s (unat (a - off)) else f a)
       \<and> (tst (fstat t) FSTAT_FAIL \<longleftrightarrow>
            tst (fstat s) FSTAT_FAIL \<or> (\<exists>i < n. f (off + of_nat i) AND pe_buf s i \<noteq> pe_buf s i))"
  using assms fmu_program_bytes [OF assms(6), of s off f "fstat s"]
  by (auto simp: fmu_commit_def Let_def)

lemma fmu_program_result:
  assumes "fmu_idle s" and "fmu_unit cmd (length ws)" and "fmu_flash s = Some f"
    and "\<not> tst off (of_nat (4 * length ws - 1))" and "\<not> off + of_nat (4 * length ws) > flash_size s"
  shows "\<exists>t. fmu_run (fmu_program cmd off ws) s = Inr t \<and> \<not> pe_active t \<and> tst (fstat t) FSTAT_CCIF
       \<and> fmu_flash t = Some (\<lambda>a. if unat (a - off) < 4 * length ws
                                then f a AND words_bytes ws ! unat (a - off) else f a)
       \<and> (tst (fstat t) FSTAT_FAIL \<longleftrightarrow>
            (\<exists>i < 4 * length ws. f (off + of_nat i) AND words_bytes ws ! i \<noteq> words_bytes ws ! i))"
proof -
  obtain s1 where s1: "fmu_run [Fmu_write R_FCCOB0 cmd, Fmu_write R_FSTAT 0x80] s = Inr s1"
    "pe_active s1" "tst (fstat s1) FSTAT_PEWEN_MASK" "pe_words s1 = 0" "pe_expect s1 = length ws"
    "pe_cmd s1 = ucast cmd" "pe_buf s1 = (\<lambda>_. 0xFF)" "fmu_flash s1 = fmu_flash s" "flash_size s1 = flash_size s"
    "\<not> tst (fstat s1) FSTAT_FAIL"
    using fmu_program_opens [OF assms(1,2)] by blast
  have ne: "ws \<noteq> []" and len: "4 * length ws < 2 ^ 64" using assms(2) by (auto simp: fmu_unit_def)
  define s2 where "s2 = s1\<lparr>pe_buf := staged (\<lambda>_. 0xFF) 0 ws, pe_words := length ws, pe_addr := off,
                           fstat := (fstat s1 AND NOT FSTAT_PEWEN_MASK) OR FSTAT_PERDY\<rparr>"
  have run2: "fmu_run (fmu_stores off ws) s1 = Inr s2"
    using fmu_stores_staged [OF s1(2,3), of ws off] s1(4,5,7) ne assms(4) by (simp add: s2_def mult.commute)
  define s3 where "s3 = s2\<lparr>fstat := fstat s2 AND NOT FSTAT_PERDY\<rparr>"
  have run3: "mcxn_fmu_write s2 R_FSTAT 0x80000000 = fmu_commit s3"
    by (simp add: fmu_write_fstat fstat_no_error_bits s3_def s2_def bit_numeral_rec)
  have "pe_cmd s3 = FCMD_PGMPG \<or> pe_cmd s3 = FCMD_PGMPHR"
    using assms(2) s1(6) by (auto simp: s3_def s2_def fmu_unit_def fcmds)
  moreover have "\<not> tst (fstat s3) FSTAT_FAIL" using s1(10) by (auto simp: s3_def s2_def bit_simps)
  moreover have buf: "pe_buf s3 i = words_bytes ws ! i" if "i < 4 * length ws" for i
    using that by (simp add: s3_def s2_def staged_def)
  moreover have "fmu_run (fmu_program cmd off ws) s = fmu_commit s3"
    unfolding fmu_program_def dev_run_append s1(1) by (simp add: run2 run3 split: sum.splits)
  moreover have "fmu_flash s3 = Some f" "\<not> off + of_nat (4 * length ws) > flash_size s3" "pe_addr s3 = off"
    "pe_expect s3 * 4 = 4 * length ws"
    using assms(3,5) s1(5,8,9) by (simp_all add: s3_def s2_def)
  ultimately show ?thesis
    using fmu_commit_programs [of s3 f off "4 * length ws"] len by (simp cong: conj_cong if_cong)
qed

section \<open>Properties\<close>

text \<open>
  C18: from reset, no sequence of register writes and flash stores reaches the assertion in the
  commit, and the controller is always either idle with CCIF set or in a write window of a
  known command that holds at most the words it expects, with PEWEN and PERDY saying which.
\<close>

theorem fmu_window_protocol:
  "\<exists>t. fmu_run as (mcxn_fmu_reset s) = Inr t \<and> fmu_inv t"
  by (rule fmu.run_live) (simp add: fmu_inv_def mcxn_fmu_reset_def bit_simps)

text \<open>
  C7: the program sequence (command, launch, four or thirty-two words, commit) replaces every
  byte of the addressed unit by its conjunction with the written byte and nothing else, ends
  idle, and reports FAIL exactly if some bit that should stay one was already zero; on an erased
  unit the words read back as written.
\<close>

theorem fmu_program_clears_bits_only:
  assumes "fmu_idle s" and "fmu_unit cmd (length ws)" and "fmu_flash s = Some f"
    and "\<not> tst off (of_nat (4 * length ws - 1))" and "\<not> off + of_nat (4 * length ws) > flash_size s"
  shows "\<exists>t. fmu_run (fmu_program cmd off ws) s = Inr t \<and> \<not> pe_active t \<and> tst (fstat t) FSTAT_CCIF
       \<and> fmu_flash t = Some (\<lambda>a. if unat (a - off) < 4 * length ws
                                then f a AND words_bytes ws ! unat (a - off) else f a)
       \<and> (tst (fstat t) FSTAT_FAIL \<longleftrightarrow>
            (\<exists>i < 4 * length ws. f (off + of_nat i) AND words_bytes ws ! i \<noteq> words_bytes ws ! i))"
  by (rule fmu_program_result [OF assms])

theorem fmu_program_clears_bits_only_witness:
  "let s = mcxn_fmu_reset \<lparr>fstat = 0, fcnfg = 0, fctrl = 0, fccob = (\<lambda>_. 0), pe_buf = (\<lambda>_. 0), pe_addr = 0,
             pe_words = 0, pe_expect = 0, pe_cmd = 0, pe_active = False, fmu_flash = Some (\<lambda>_. 0xFF),
             flash_size = 0x200000, fmu_irq = []\<rparr>
   in \<exists>t g. fmu_run (fmu_program 0x24 0x2010 [0x11223344, 2, 3, 4]) s = Inr t \<and> fmu_flash t = Some g
        \<and> g 0x2011 = 0x33 \<and> g 0x200f = 0xFF \<and> \<not> tst (fstat t) FSTAT_FAIL"
proof -
  define s where "s = mcxn_fmu_reset \<lparr>fstat = 0, fcnfg = 0, fctrl = 0, fccob = (\<lambda>_. 0), pe_buf = (\<lambda>_. 0),
             pe_addr = 0, pe_words = 0, pe_expect = 0, pe_cmd = 0, pe_active = False,
             fmu_flash = Some (\<lambda>_. 0xFF), flash_size = 0x200000, fmu_irq = []\<rparr>"
  let ?ws = "[0x11223344, 2, 3, 4] :: u32 list"
  let ?g = "\<lambda>a :: u64. if unat (a - 0x2010) < 4 * length ?ws then 0xFF AND words_bytes ?ws ! unat (a - 0x2010) else (0xFF :: u8)"
  have "fmu_idle s" "fmu_unit 0x24 (length ?ws)" "fmu_flash s = Some (\<lambda>_. 0xFF)"
    "\<not> tst (0x2010 :: u64) (of_nat (4 * length ?ws - 1))" "\<not> 0x2010 + of_nat (4 * length ?ws) > flash_size s"
    by (simp_all add: s_def fmu_idle_def fmu_inv_def mcxn_fmu_reset_def fmu_unit_def FSTAT_ERRORS_def tst_or bit_simps)
       (simp add: tst_def)
  from fmu_program_clears_bits_only [OF this]
  obtain t where t: "fmu_run (fmu_program 0x24 0x2010 ?ws) s = Inr t" "fmu_flash t = Some ?g"
    "tst (fstat t) FSTAT_FAIL \<longleftrightarrow>
       (\<exists>i < 4 * length ?ws. (0xFF :: u8) AND words_bytes ?ws ! i \<noteq> words_bytes ?ws ! i)"
    by blast
  have "(0xFF :: u8) = - 1" by simp
  then have "(0xFF :: u8) AND b = b" for b by (simp only: and.left_neutral)
  then have "\<not> tst (fstat t) FSTAT_FAIL" using t(3) by simp
  moreover have "?g 0x2011 = 0x33" "?g 0x200f = 0xFF"
    by (simp_all add: stl_le_def byte_of_def unsigned_minus_1_eq_mask mask_eq_exp_minus_1)
  ultimately show ?thesis using t(1,2) unfolding Let_def s_def [symmetric] by blast
qed

text \<open>
  A store into the flash address space never changes the array itself, whose new contents
  appear only at the commit, and outside an open write window it changes nothing at all.
\<close>

theorem fmu_store_is_not_ram:
  "fmu_flash (mcxn_fmu_flash_write s off v sz) = fmu_flash s
   \<and> (\<not> pe_active s \<or> \<not> tst (fstat s) FSTAT_PEWEN_MASK \<longrightarrow> mcxn_fmu_flash_write s off v sz = s)"
  by (simp add: mcxn_fmu_flash_write_def fmu_fail_def fmu_stage_def Let_def)

theorem fmu_store_is_not_ram_witness:
  "let s = mcxn_fmu_reset \<lparr>fstat = 0, fcnfg = 0, fctrl = 0, fccob = (\<lambda>_. 0), pe_buf = (\<lambda>_. 0), pe_addr = 0,
             pe_words = 0, pe_expect = 0, pe_cmd = 0, pe_active = True, fmu_flash = Some (\<lambda>_. 0xFF),
             flash_size = 0x200000, fmu_irq = []\<rparr>
   in mcxn_fmu_flash_write s 0x100 0xdeadbeef 4 = s"
  using fmu_store_is_not_ram by (simp add: Let_def mcxn_fmu_reset_def)

end
