(* ===== verification/Mcxn_Ostimer.thy ===== *)
theory Mcxn_Ostimer
  imports Mcxn_Prelude
begin

unbundle bit_operations_syntax

text \<open>
  The OS event timer (\<^verbatim>\<open>hw/timer/mcxn_ostimer.c\<close>): a 64-bit counter derived from the time and
  the clock input, read and matched through 42-bit gray-coded register pairs.  The time of an
  access is a parameter, the QEMU timer is its armed deadline, and a register write that
  divides by a clock of 0 Hz returns the host failure.
\<close>

section \<open>Model\<close>

record MCXNOSTimerState =
  ost_irq :: "unit irq_log"
  ost_timer :: "int option"
  ost_clk :: "u32 option"
  base_count :: u64
  ost_base_ns :: int
  ost_match :: u64
  match_gray_l :: u32
  match_gray_h :: u32
  ost_ctrl :: u32
  capture_l :: u32
  capture_h :: u32

definition R_EVTIMERL :: nat where "R_EVTIMERL = 0x00"
definition R_EVTIMERH :: nat where "R_EVTIMERH = 0x04"
definition R_CAPTURE_L :: nat where "R_CAPTURE_L = 0x08"
definition R_CAPTURE_H :: nat where "R_CAPTURE_H = 0x0C"
definition R_MATCH_L :: nat where "R_MATCH_L = 0x10"
definition R_MATCH_H :: nat where "R_MATCH_H = 0x14"
definition R_OSEVENT_CTRL :: nat where "R_OSEVENT_CTRL = 0x1C"

lemmas ost_offsets = R_EVTIMERL_def R_EVTIMERH_def R_CAPTURE_L_def R_CAPTURE_H_def R_MATCH_L_def
  R_MATCH_H_def R_OSEVENT_CTRL_def

abbreviation CTRL_INTRFLAG :: u32 where "CTRL_INTRFLAG \<equiv> flag 0"
abbreviation CTRL_INTENA :: u32 where "CTRL_INTENA \<equiv> flag 1"

definition bin_to_gray :: "u64 \<Rightarrow> u64" where
  "bin_to_gray n = n XOR drop_bit 1 n"

lemma drop_bit_1_less: "drop_bit 1 g \<noteq> 0 \<Longrightarrow> unat (drop_bit 1 g) < unat g" for g :: "'a::len word"
proof -
  assume "drop_bit 1 g \<noteq> 0"
  then have "0 < unat g" by (auto simp: unat_gt_0)
  then show ?thesis unfolding unat_drop_bit_eq by (simp add: drop_bit_eq_div)
qed

text \<open>The loop \<^verbatim>\<open>while (g >>= 1) b ^= g\<close>.\<close>

function gray_loop :: "u64 \<Rightarrow> u64 \<Rightarrow> u64" where
  "gray_loop b g = (let g' = drop_bit 1 g in if g' = 0 then b else gray_loop (b XOR g') g')"
  by pat_completeness auto
termination by (relation "measure (\<lambda>(b, g). unat g)") (simp_all add: drop_bit_1_less [simplified])

declare gray_loop.simps [simp del]

definition gray_to_bin :: "u64 \<Rightarrow> u64" where
  "gray_to_bin g = gray_loop g g"

definition ostimer_freq :: "MCXNOSTimerState \<Rightarrow> u32" where
  "ostimer_freq s = (case ost_clk s of Some hz \<Rightarrow> hz | None \<Rightarrow> 0)"

definition ostimer_count :: "MCXNOSTimerState \<Rightarrow> int \<Rightarrow> u64" where
  "ostimer_count s now =
     (let elapsed = (if now > ost_base_ns s then word_of_int (now - ost_base_ns s) else 0)
      in base_count s + (elapsed * ucast (ostimer_freq s)) div 1000000000)"

definition ostimer_update_irq :: "MCXNOSTimerState \<Rightarrow> MCXNOSTimerState" where
  "ostimer_update_irq s =
     s\<lparr>ost_irq := qemu_set_irq () (tst (ost_ctrl s) CTRL_INTRFLAG \<and> tst (ost_ctrl s) CTRL_INTENA) (ost_irq s)\<rparr>"

definition ostimer_reschedule :: "MCXNOSTimerState \<Rightarrow> int \<Rightarrow> MCXNOSTimerState result" where
  "ostimer_reschedule s now =
     (let cur = ostimer_count s now;
          s = s\<lparr>ost_timer := None\<rparr>
      in if \<not> tst (ost_ctrl s) CTRL_INTENA \<or> ost_match s \<le> cur then Inr s
         else case checked_div ((ost_match s - cur) * 1000000000) (ucast (ostimer_freq s)) of
             Inl e \<Rightarrow> Inl e
           | Inr d \<Rightarrow> Inr (s\<lparr>ost_timer := Some (now + sint d)\<rparr>))"

definition ostimer_tick :: "MCXNOSTimerState \<Rightarrow> MCXNOSTimerState" where
  "ostimer_tick s = ostimer_update_irq (s\<lparr>ost_ctrl := ost_ctrl s OR CTRL_INTRFLAG\<rparr>)"

definition mcxn_ostimer_read :: "MCXNOSTimerState \<Rightarrow> int \<Rightarrow> nat \<Rightarrow> u64" where
  "mcxn_ostimer_read s now off =
     (if off = R_EVTIMERL then bin_to_gray (ostimer_count s now) AND 0xFFFFFFFF
      else if off = R_EVTIMERH then drop_bit 32 (bin_to_gray (ostimer_count s now)) AND 0x3FF
      else if off = R_CAPTURE_L then ucast (capture_l s)
      else if off = R_CAPTURE_H then ucast (capture_h s)
      else if off = R_MATCH_L then bin_to_gray (ost_match s) AND 0xFFFFFFFF
      else if off = R_MATCH_H then drop_bit 32 (bin_to_gray (ost_match s)) AND 0x3FF
      else if off = R_OSEVENT_CTRL then ucast (ost_ctrl s)
      else 0)"

text \<open>The match value of the two gray-coded halves.\<close>

definition ostimer_gray_match :: "MCXNOSTimerState \<Rightarrow> u64" where
  "ostimer_gray_match s = gray_to_bin (push_bit 32 (ucast (match_gray_h s)) OR ucast (match_gray_l s))"

definition mcxn_ostimer_write :: "MCXNOSTimerState \<Rightarrow> int \<Rightarrow> nat \<Rightarrow> u64 \<Rightarrow> MCXNOSTimerState result" where
  "mcxn_ostimer_write s now off value =
     (let v = ucast value :: u32 in
      if off = R_MATCH_L then
        let s = s\<lparr>match_gray_l := v\<rparr>; s = s\<lparr>ost_match := ostimer_gray_match s\<rparr>
        in ostimer_reschedule s now
      else if off = R_MATCH_H then
        let s = s\<lparr>match_gray_h := v AND 0x3FF\<rparr>; s = s\<lparr>ost_match := ostimer_gray_match s\<rparr>
        in ostimer_reschedule s now
      else if off = R_OSEVENT_CTRL then
        let s = (if tst v CTRL_INTRFLAG then s\<lparr>ost_ctrl := ost_ctrl s AND NOT CTRL_INTRFLAG\<rparr> else s);
            s = s\<lparr>ost_ctrl := (ost_ctrl s AND CTRL_INTRFLAG) OR (v AND CTRL_INTENA)\<rparr>
        in ostimer_reschedule (ostimer_update_irq s) now
      else Inr s)"

definition mcxn_ostimer_reset :: "MCXNOSTimerState \<Rightarrow> int \<Rightarrow> MCXNOSTimerState" where
  "mcxn_ostimer_reset s now =
     (let s = s\<lparr>ost_timer := None, base_count := 0, ost_base_ns := now,
                match_gray_l := 0xFFFFFFFF, match_gray_h := 0x3FF\<rparr>
      in s\<lparr>ost_match := ostimer_gray_match s, ost_ctrl := 0, capture_l := 0, capture_h := 0\<rparr>)"

definition mcxn_ostimer_post_load :: "MCXNOSTimerState \<Rightarrow> MCXNOSTimerState" where
  "mcxn_ostimer_post_load s = ostimer_update_irq s"

section \<open>Gray code\<close>

lemma gray_loop_xor: "gray_loop b g = b XOR gray_loop 0 g"
proof (induction g arbitrary: b rule: measure_induct_rule [of unat])
  case (less g)
  let ?g = "drop_bit 1 g"
  show ?case
  proof (cases "?g = 0")
    case True
    then show ?thesis by (simp add: gray_loop.simps [of _ g])
  next
    case False
    from less.IH [OF drop_bit_1_less [OF False]]
    have "gray_loop (b XOR ?g) ?g = (b XOR ?g) XOR gray_loop 0 ?g" "gray_loop ?g ?g = ?g XOR gray_loop 0 ?g"
      by blast+
    with False show ?thesis by (simp add: gray_loop.simps [of _ g] Let_def xor.assoc)
  qed
qed

lemma gray_to_bin_step: "gray_to_bin g = g XOR gray_to_bin (drop_bit 1 g)"
  unfolding gray_to_bin_def gray_loop.simps [of _ g] Let_def
  by (cases "drop_bit 1 g = 0") (simp_all add: gray_loop.simps [of 0 0] gray_loop_xor [of "g XOR _"] gray_loop_xor [of "drop_bit _ _"] xor.assoc)

lemma drop_bit_gray_to_bin: "drop_bit 1 (gray_to_bin g) = gray_to_bin (drop_bit 1 g)"
proof (induction g rule: measure_induct_rule [of unat])
  case (less g)
  show ?case
  proof (cases "drop_bit 1 g = 0")
    case True
    have "gray_to_bin 0 = 0" by (simp add: gray_to_bin_def gray_loop.simps [of 0 0])
    with True show ?thesis by (subst gray_to_bin_step) simp
  next
    case False
    from less.IH [OF drop_bit_1_less [OF False]]
    show ?thesis by (subst gray_to_bin_step, subst (2) gray_to_bin_step) (simp add: drop_bit_xor)
  qed
qed

lemma bin_gray [simp]: "bin_to_gray (gray_to_bin g) = g"
  unfolding bin_to_gray_def drop_bit_gray_to_bin
  by (subst gray_to_bin_step) (simp add: xor.assoc)

lemma gray_bin [simp]: "gray_to_bin (bin_to_gray n) = n"
proof -
  have "surj bin_to_gray" by (rule surjI [of _ gray_to_bin]) simp
  then have "inj bin_to_gray" by (rule finite_UNIV_surj_inj [OF finite])
  then show ?thesis by (rule injD) simp
qed

section \<open>Counter and deadline\<close>

lemma ostimer_timer_upd [simp]:
  "ostimer_freq (s\<lparr>ost_timer := d\<rparr>) = ostimer_freq s"
  "ostimer_freq (s\<lparr>ost_ctrl := c\<rparr>) = ostimer_freq s"
  "ostimer_freq (s\<lparr>ost_irq := l\<rparr>) = ostimer_freq s"
  "ostimer_count (s\<lparr>ost_timer := d\<rparr>) now = ostimer_count s now"
  "ostimer_count (s\<lparr>ost_ctrl := c\<rparr>) now = ostimer_count s now"
  "ostimer_count (s\<lparr>ost_irq := l\<rparr>) now = ostimer_count s now"
  by (simp_all add: ostimer_count_def ostimer_freq_def)

lemma ostimer_reschedule_ok:
  assumes "ostimer_freq s \<noteq> 0"
  shows "\<exists>d. ostimer_reschedule s now = Inr (s\<lparr>ost_timer := d\<rparr>)"
proof -
  have "(ucast (ostimer_freq s) :: u64) \<noteq> 0" using assms by (subst ucast_eq_0_up) simp_all
  then show ?thesis unfolding ostimer_reschedule_def Let_def by (auto split: if_splits)
qed

lemma ostimer_freq_match [simp]:
  "ostimer_freq (s\<lparr>match_gray_l := a, ost_match := m\<rparr>) = ostimer_freq s"
  "ostimer_freq (s\<lparr>match_gray_h := b, ost_match := m\<rparr>) = ostimer_freq s"
  by (simp_all add: ostimer_freq_def)

lemma bin_to_gray_bound: "unat m < 2 ^ 42 \<Longrightarrow> bit (bin_to_gray m) n \<Longrightarrow> n < 42"
  unfolding bin_to_gray_def using bit_less_exp [of m 42]
  by (auto simp: bit_simps) fastforce

lemma gray_halves:
  assumes "unat m < 2 ^ 42"
  shows "push_bit 32 (ucast (ucast (drop_bit 32 (bin_to_gray m)) AND 0x3FF :: u32))
           OR ucast (ucast (bin_to_gray m AND 0xFFFFFFFF) :: u32) = bin_to_gray m"
    and "drop_bit 32 (bin_to_gray m) AND 0x3FF = drop_bit 32 (bin_to_gray m)"
proof -
  have m: "(0x3FF :: u32) = mask 10" "(0xFFFFFFFF :: u64) = mask 32" "(0x3FF :: u64) = mask 10"
    by (simp_all add: mask_eq_exp_minus_1)
  note hi = bin_to_gray_bound [OF assms]
  show "push_bit 32 (ucast (ucast (drop_bit 32 (bin_to_gray m)) AND 0x3FF :: u32))
           OR ucast (ucast (bin_to_gray m AND 0xFFFFFFFF) :: u32) = bin_to_gray m"
    unfolding m by (rule bit_word_eqI) (auto simp: bit_simps, (drule hi, simp)+)
  show "drop_bit 32 (bin_to_gray m) AND 0x3FF = drop_bit 32 (bin_to_gray m)"
    unfolding m by (rule bit_word_eqI) (auto simp: bit_simps dest: hi)
qed

lemma ostimer_count_exact:
  assumes "ost_base_ns s \<le> now" and "nat (now - ost_base_ns s) * unat (ostimer_freq s) < 2 ^ 64"
  shows "ostimer_count s now = base_count s
           + of_nat (nat (now - ost_base_ns s) * unat (ostimer_freq s) div 1000000000)"
proof -
  let ?e = "nat (now - ost_base_ns s)" and ?f = "unat (ostimer_freq s)"
  have e: "(if now > ost_base_ns s then word_of_int (now - ost_base_ns s) else 0) = (of_nat ?e :: u64)"
    using assms(1) by auto
  have "unat ((of_nat ?e :: u64) * ucast (ostimer_freq s)) = ?e * ?f"
  proof -
    have "(of_nat ?e :: u64) * ucast (ostimer_freq s) = of_nat (?e * ?f)" by simp
    then show ?thesis using assms(2) by (simp only: unat_of_nat) simp
  qed
  then have "((of_nat ?e :: u64) * ucast (ostimer_freq s)) div 1000000000 = of_nat (?e * ?f div 1000000000)"
    by (intro unsigned_word_eqI [where ?'a = nat]) (use assms(2) in \<open>simp add: unat_div_distrib unat_of_nat le_less_trans [OF div_le_dividend]\<close>)
  then show ?thesis by (simp add: ostimer_count_def e Let_def del: of_nat_nat)
qed


text \<open>
  The bound is needed: \<^verbatim>\<open>elapsed * freq\<close> is a 64-bit product, so at 1 MHz the counter falls back
  to zero after about five hours.
\<close>

lemma ostimer_count_wraps:
  assumes "ost_clk s = Some 1000000" and "ost_base_ns s = 0" and "base_count s = 0"
  shows "ostimer_count s 18446744073709 = 18446744073" and "ostimer_count s 18446744073710 = 0"
  using assms by (simp_all add: ostimer_count_def ostimer_freq_def)

section \<open>Properties\<close>

text \<open>
  C25: the gray-coded match pair is a faithful encoding: writing the two halves of the gray
  code of any 42-bit value sets exactly that match value, and both halves read back as written.
\<close>

theorem ostimer_match_roundtrip:
  assumes "unat m < 2 ^ 42" and "ostimer_freq s \<noteq> 0"
  shows "\<exists>t u. mcxn_ostimer_write s now R_MATCH_L (bin_to_gray m AND 0xFFFFFFFF) = Inr t
     \<and> mcxn_ostimer_write t now R_MATCH_H (drop_bit 32 (bin_to_gray m)) = Inr u
     \<and> ost_match u = m
     \<and> mcxn_ostimer_read u now R_MATCH_L = bin_to_gray m AND 0xFFFFFFFF
     \<and> mcxn_ostimer_read u now R_MATCH_H = drop_bit 32 (bin_to_gray m)"
proof -
  define lo :: u32 where "lo = ucast (bin_to_gray m AND 0xFFFFFFFF)"
  define hi :: u32 where "hi = ucast (drop_bit 32 (bin_to_gray m)) AND 0x3FF"
  note halves = gray_halves [OF assms(1)]
  obtain d where t: "mcxn_ostimer_write s now R_MATCH_L (bin_to_gray m AND 0xFFFFFFFF)
      = Inr (s\<lparr>match_gray_l := lo, ost_match := ostimer_gray_match (s\<lparr>match_gray_l := lo\<rparr>), ost_timer := d\<rparr>)"
    (is "_ = Inr ?t")
    using ostimer_reschedule_ok [of "s\<lparr>match_gray_l := lo, ost_match := ostimer_gray_match (s\<lparr>match_gray_l := lo\<rparr>)\<rparr>" now]
      assms(2) by (auto simp: mcxn_ostimer_write_def Let_def lo_def)
  have "ostimer_freq (?t\<lparr>match_gray_h := hi, ost_match := ostimer_gray_match (?t\<lparr>match_gray_h := hi\<rparr>)\<rparr>) \<noteq> 0"
    using assms(2) by (simp add: ostimer_freq_def)
  from ostimer_reschedule_ok [OF this, of now]
  obtain d' where u: "mcxn_ostimer_write ?t now R_MATCH_H (drop_bit 32 (bin_to_gray m))
      = Inr (?t\<lparr>match_gray_h := hi, ost_match := ostimer_gray_match (?t\<lparr>match_gray_h := hi\<rparr>), ost_timer := d'\<rparr>)"
    (is "_ = Inr ?u")
    by (auto simp: mcxn_ostimer_write_def Let_def hi_def ost_offsets)
  have m: "ost_match ?u = m" using halves(1) by (simp add: ostimer_gray_match_def lo_def hi_def)
  show ?thesis
    by (rule exI [of _ ?t], rule exI [of _ ?u], intro conjI t u m)
       (simp_all only: mcxn_ostimer_read_def m, simp_all add: ost_offsets halves(2))
qed

theorem ostimer_match_roundtrip_witness:
  "\<exists>t u. mcxn_ostimer_write \<lparr>ost_irq = [], ost_timer = None, ost_clk = Some 1000000, base_count = 0,
      ost_base_ns = 0, ost_match = 0, match_gray_l = 0, match_gray_h = 0, ost_ctrl = 0, capture_l = 0,
      capture_h = 0\<rparr> 5 R_MATCH_L (bin_to_gray 0x123456789AB AND 0xFFFFFFFF) = Inr t
   \<and> mcxn_ostimer_write t 5 R_MATCH_H (drop_bit 32 (bin_to_gray 0x123456789AB)) = Inr u
   \<and> ost_match u = 0x123456789AB"
  using ostimer_match_roundtrip [of "0x123456789AB"
    "\<lparr>ost_irq = [], ost_timer = None, ost_clk = Some 1000000, base_count = 0,
      ost_base_ns = 0, ost_match = 0, match_gray_l = 0, match_gray_h = 0, ost_ctrl = 0, capture_l = 0,
      capture_h = 0\<rparr>" 5]
  by (auto simp: ostimer_freq_def)

text \<open>
  C38: after reset, enabling the event interrupt divides by zero in the emulator exactly if the
  timer has no running clock; with a clock the write always returns.
\<close>

theorem ostimer_unclocked_enable_faults:
  "mcxn_ostimer_write (mcxn_ostimer_reset s t0) now R_OSEVENT_CTRL v = Inl Div_by_zero
     \<longleftrightarrow> ostimer_freq s = 0 \<and> bit v 1"
proof -
  let ?r = "mcxn_ostimer_reset s t0"
  let ?c = "ostimer_update_irq (?r\<lparr>ost_ctrl := ucast v AND CTRL_INTENA\<rparr>)"
  have w: "mcxn_ostimer_write ?r now R_OSEVENT_CTRL v = ostimer_reschedule ?c now"
    by (simp add: mcxn_ostimer_write_def mcxn_ostimer_reset_def Let_def ost_offsets)
  have f: "ostimer_freq ?c = ostimer_freq s"
    by (simp add: ostimer_update_irq_def mcxn_ostimer_reset_def Let_def ostimer_freq_def)
  have m: "ost_match ?c \<noteq> 0"
  proof
    assume "ost_match ?c = 0"
    then have "bin_to_gray (gray_to_bin (push_bit 32 0x3FF OR 0xFFFFFFFF)) = bin_to_gray 0"
      by (simp add: ostimer_update_irq_def mcxn_ostimer_reset_def Let_def ostimer_gray_match_def)
    then show False unfolding bin_gray by (simp add: bin_to_gray_def)
  qed
  have c: "base_count ?c = 0" "bit (ost_ctrl ?c) 1 = bit v 1"
    by (simp_all add: ostimer_update_irq_def mcxn_ostimer_reset_def Let_def bit_simps)
  show ?thesis
  proof (cases "ostimer_freq s = 0")
    case True
    then have "ostimer_count ?c now = 0" using c f by (simp add: ostimer_count_def)
    with True m c f show ?thesis by (simp add: w ostimer_reschedule_def Let_def)
  next
    case False
    then show ?thesis using ostimer_reschedule_ok [of ?c now] f w by auto
  qed
qed

lemma ostimer_deadline:
  fixes s now
  defines "E \<equiv> nat (now - ost_base_ns s)" and "f \<equiv> unat (ostimer_freq s)"
    and "k \<equiv> unat (ost_match s - ostimer_count s now)"
  assumes "0 < f" and "f \<le> 1000000000" and "ost_base_ns s \<le> now"
    and "ostimer_count s now < ost_match s" and "bit (ost_ctrl s) 1"
    and "E * f + k * 1000000000 < 2 ^ 63"
  shows "ostimer_reschedule s now = Inr (s\<lparr>ost_timer := Some (now + int (k * 1000000000 div f))\<rparr>)"
    and "ostimer_count s (now + int (k * 1000000000 div f)) \<in> {ost_match s - 1, ost_match s}"
proof -
  define d where "d = k * 1000000000 div f"
  have df: "d * f \<le> k * 1000000000" unfolding d_def by (rule div_times_less_eq_dividend)
  have d: "d < 2 ^ 63" unfolding d_def using assms(9) by (intro le_less_trans [OF div_le_dividend]) simp
  have k: "0 < k" using assms(7) unfolding k_def by (simp add: unat_gt_0)
  have "unat ((ost_match s - ostimer_count s now) * 1000000000) = k * 1000000000"
    using assms(9) unfolding k_def by (subst unat_mult_lem [THEN iffD1]) simp_all
  moreover have "unat (ucast (ostimer_freq s) :: u64) = f"
    using unsigned_less [where ?'a = nat, of "ostimer_freq s"]
    by (simp add: f_def unsigned_ucast_eq take_bit_nat_eq_self)
  ultimately have "(ost_match s - ostimer_count s now) * 1000000000 div ucast (ostimer_freq s) = (of_nat d :: u64)"
    using d by (intro unsigned_word_eqI [where ?'a = nat]) (simp add: unat_div_distrib unat_of_nat d_def)
  moreover have "sint (of_nat d :: u64) = int d" using d by (simp add: signed_of_nat signed_take_bit_int_eq_self)
  moreover have "(ucast (ostimer_freq s) :: u64) \<noteq> 0" using assms(4) unfolding f_def by (subst ucast_eq_0_up) auto
  ultimately show "ostimer_reschedule s now = Inr (s\<lparr>ost_timer := Some (now + int d)\<rparr>)"
    using assms(7,8) by (simp add: ostimer_reschedule_def Let_def not_le)
  let ?x = "E * f div 1000000000" and ?y = "(E + d) * f div 1000000000"
  have "nat (now + int d - ost_base_ns s) = E + d" using assms(6) by (simp add: E_def)
  moreover have "(E + d) * f < 2 ^ 64" using assms(9) df by (simp add: algebra_simps)
  ultimately have y: "ostimer_count s (now + int d) = base_count s + of_nat ?y"
    using ostimer_count_exact [of s "now + int d"] assms(6) by (simp add: f_def)
  have x: "ostimer_count s now = base_count s + of_nat ?x"
    using ostimer_count_exact [of s now] assms(6,9) by (simp add: f_def E_def)
  have m: "ost_match s = ostimer_count s now + of_nat k" by (simp add: k_def)
  have "?y = ?x + k \<or> ?y = ?x + (k - 1)"
    using deadline_reaches [OF assms(4,5), of E k] k by (auto simp: d_def)
  then show "ostimer_count s (now + int d) \<in> {ost_match s - 1, ost_match s}"
    using k by (elim disjE) (simp_all add: y x m of_nat_diff)
qed

text \<open>
  C26: enabling the event interrupt arms the timer so that at its deadline the counter has
  reached the match value, or is one period short of it by rounding, and the tick then raises
  the interrupt line, as long as the products stay below \<open>2 ^ 63\<close>.
\<close>

theorem ostimer_interrupt_on_time:
  assumes "0 < unat (ostimer_freq s)" and "unat (ostimer_freq s) \<le> 1000000000" and "ost_base_ns s \<le> now"
    and "ostimer_count s now < ost_match s"
    and "nat (now - ost_base_ns s) * unat (ostimer_freq s)
           + unat (ost_match s - ostimer_count s now) * 1000000000 < 2 ^ 63"
  shows "\<exists>t d. mcxn_ostimer_write s now R_OSEVENT_CTRL 2 = Inr t \<and> ost_timer t = Some (now + int d)
     \<and> ostimer_count t (now + int d) \<in> {ost_match s - 1, ost_match s}
     \<and> line_level (ost_irq (ostimer_tick t)) ()"
proof -
  let ?s = "ostimer_update_irq (s\<lparr>ost_ctrl := (ost_ctrl s AND CTRL_INTRFLAG) OR CTRL_INTENA\<rparr>)"
  let ?d = "unat (ost_match s - ostimer_count s now) * 1000000000 div unat (ostimer_freq s)"
  have two: "(2 :: u32) AND CTRL_INTENA = CTRL_INTENA" "\<not> tst (2 :: u32) CTRL_INTRFLAG"
    by (simp add: flag_def) simp
  have eq: "ostimer_freq ?s = ostimer_freq s" "ostimer_count ?s n = ostimer_count s n"
    "ost_match ?s = ost_match s" "ost_base_ns ?s = ost_base_ns s" "bit (ost_ctrl ?s) 1" for n
    by (simp_all add: ostimer_update_irq_def ostimer_freq_def ostimer_count_def)
  have "mcxn_ostimer_write s now R_OSEVENT_CTRL 2 = ostimer_reschedule ?s now"
    using two by (simp add: mcxn_ostimer_write_def Let_def ost_offsets)
  moreover note dl = ostimer_deadline [of ?s now, unfolded eq, OF assms(1,2,3,4) eq(5) assms(5)]
  moreover have "line_level (ost_irq (ostimer_tick (?s\<lparr>ost_timer := d\<rparr>))) ()" for d
    using eq(5) by (simp add: ostimer_tick_def ostimer_update_irq_def)
  ultimately have "mcxn_ostimer_write s now R_OSEVENT_CTRL 2 = Inr (?s\<lparr>ost_timer := Some (now + int ?d)\<rparr>)
      \<and> ost_timer (?s\<lparr>ost_timer := Some (now + int ?d)\<rparr>) = Some (now + int ?d)
      \<and> ostimer_count (?s\<lparr>ost_timer := Some (now + int ?d)\<rparr>) (now + int ?d) \<in> {ost_match s - 1, ost_match s}
      \<and> line_level (ost_irq (ostimer_tick (?s\<lparr>ost_timer := Some (now + int ?d)\<rparr>))) ()"
    by (simp only: ostimer_timer_upd eq simp_thms) simp
  then show ?thesis by (intro exI)
qed

theorem ostimer_interrupt_on_time_witness:
  "\<exists>t d. mcxn_ostimer_write \<lparr>ost_irq = [], ost_timer = None, ost_clk = Some 1000000, base_count = 0,
      ost_base_ns = 0, ost_match = 500, match_gray_l = 0, match_gray_h = 0, ost_ctrl = 0, capture_l = 0,
      capture_h = 0\<rparr> 2000 R_OSEVENT_CTRL 2 = Inr t \<and> ost_timer t = Some (2000 + int d)
     \<and> ostimer_count t (2000 + int d) \<in> {499, 500} \<and> line_level (ost_irq (ostimer_tick t)) ()"
  using ostimer_interrupt_on_time [of "\<lparr>ost_irq = [], ost_timer = None, ost_clk = Some 1000000, base_count = 0,
      ost_base_ns = 0, ost_match = 500, match_gray_l = 0, match_gray_h = 0, ost_ctrl = 0, capture_l = 0,
      capture_h = 0\<rparr>" 2000]
  by (simp add: ostimer_freq_def ostimer_count_def)

end
