(* ===== verification/Mcxn_Mrt.thy ===== *)
theory Mcxn_Mrt
  imports Mcxn_Interfaces
begin

unbundle bit_operations_syntax

text \<open>
  The multi-rate timer (\<^verbatim>\<open>hw/timer/mcxn_mrt.c\<close>): four 31-bit down-counters on one clock, sharing
  one QEMU timer, armed for the channel that expires first, and one interrupt line.
\<close>

section \<open>Model\<close>

record MCXNMRTState =
  mrt_irq :: "unit irq_log"
  mrt_timer :: "int option"
  mrt_clk :: "u32 option"
  mrt_intval :: "nat \<Rightarrow> u32"
  mrt_ctrl :: "nat \<Rightarrow> u32"
  mrt_stat :: "nat \<Rightarrow> u32"
  mrt_load :: "nat \<Rightarrow> u32"
  mrt_base_ns :: "nat \<Rightarrow> int"

definition MCXN_MRT_CHANNELS :: nat where "MCXN_MRT_CHANNELS = 4"
definition CH_INTVAL :: nat where "CH_INTVAL = 0x0"
definition CH_TIMER :: nat where "CH_TIMER = 0x4"
definition CH_CTRL :: nat where "CH_CTRL = 0x8"
definition CH_STAT :: nat where "CH_STAT = 0xC"
definition CH_STRIDE :: nat where "CH_STRIDE = 0x10"
definition R_MODCFG :: nat where "R_MODCFG = 0xF0"
definition R_IDLE_CH :: nat where "R_IDLE_CH = 0xF4"
definition R_IRQ_FLAG :: nat where "R_IRQ_FLAG = 0xF8"

lemmas mrt_offsets = MCXN_MRT_CHANNELS_def CH_INTVAL_def CH_TIMER_def CH_CTRL_def CH_STAT_def
  CH_STRIDE_def R_MODCFG_def R_IDLE_CH_def R_IRQ_FLAG_def

abbreviation INTVAL_LOAD :: u32 where "INTVAL_LOAD \<equiv> flag 31"
definition INTVAL_IVALUE :: u32 where "INTVAL_IVALUE = 0x7FFFFFFF"
abbreviation CTRL_INTEN :: u32 where "CTRL_INTEN \<equiv> flag 0"
definition CTRL_MODE :: u32 where "CTRL_MODE = push_bit 1 3"
definition MODE_REPEAT :: u32 where "MODE_REPEAT = 0"
abbreviation STAT_INTFLAG :: u32 where "STAT_INTFLAG \<equiv> flag 0"
abbreviation STAT_RUN :: u32 where "STAT_RUN \<equiv> flag 1"

definition mrt_freq :: "MCXNMRTState \<Rightarrow> u32" where
  "mrt_freq s = (case mrt_clk s of Some hz \<Rightarrow> hz | None \<Rightarrow> 0)"

definition mrt_peek :: "MCXNMRTState \<Rightarrow> nat \<Rightarrow> int \<Rightarrow> u32" where
  "mrt_peek s n now =
     (if \<not> tst (mrt_stat s n) STAT_RUN \<or> now \<le> mrt_base_ns s n then mrt_load s n
      else let elapsed = word_of_int (now - mrt_base_ns s n) :: u64;
               counts = (elapsed * ucast (mrt_freq s)) div 1000000000
           in if counts \<ge> ucast (mrt_load s n) then 0 else mrt_load s n - ucast counts)"

definition mrt_update_irq :: "MCXNMRTState \<Rightarrow> MCXNMRTState" where
  "mrt_update_irq s =
     s\<lparr>mrt_irq := qemu_set_irq ()
         (fold (\<lambda>n level. if tst (mrt_stat s n) STAT_INTFLAG \<and> tst (mrt_ctrl s n) CTRL_INTEN then True else level)
               [0..<MCXN_MRT_CHANNELS] False) (mrt_irq s)\<rparr>"

text \<open>The loop of \<^verbatim>\<open>mrt_reschedule\<close> over the channels, keeping the nearest expiry.\<close>

fun mrt_best :: "MCXNMRTState \<Rightarrow> int \<Rightarrow> nat list \<Rightarrow> u64 \<Rightarrow> u64 result" where
  "mrt_best s now [] best = Inr best"
| "mrt_best s now (n # ns) best =
     (if \<not> tst (mrt_stat s n) STAT_RUN then mrt_best s now ns best
      else case checked_div (ucast (mrt_peek s n now) * 1000000000) (ucast (mrt_freq s)) of
          Inl e \<Rightarrow> Inl e
        | Inr d \<Rightarrow> mrt_best s now ns (if d < best then d else best))"

definition mrt_reschedule :: "MCXNMRTState \<Rightarrow> int \<Rightarrow> MCXNMRTState result" where
  "mrt_reschedule s now =
     (let s = s\<lparr>mrt_timer := None\<rparr>
      in case mrt_best s now [0..<MCXN_MRT_CHANNELS] (NOT 0) of
          Inl e \<Rightarrow> Inl e
        | Inr best \<Rightarrow>
            Inr (if best \<noteq> NOT 0 then s\<lparr>mrt_timer := Some (now + sint (if best \<noteq> 0 then best else 1))\<rparr> else s))"

text \<open>One channel of the loop of \<^verbatim>\<open>mrt_tick\<close>.\<close>

definition mrt_expire :: "int \<Rightarrow> nat \<Rightarrow> MCXNMRTState \<Rightarrow> MCXNMRTState" where
  "mrt_expire now n s =
     (if \<not> tst (mrt_stat s n) STAT_RUN then s
      else if mrt_peek s n now = 0 then
        let s = s\<lparr>mrt_stat := (mrt_stat s)(n := mrt_stat s n OR STAT_INTFLAG)\<rparr>
        in if drop_bit 1 (mrt_ctrl s n AND CTRL_MODE) = MODE_REPEAT \<and> mrt_intval s n \<noteq> 0 then
             s\<lparr>mrt_load := (mrt_load s)(n := mrt_intval s n AND INTVAL_IVALUE),
               mrt_base_ns := (mrt_base_ns s)(n := now)\<rparr>
           else s\<lparr>mrt_stat := (mrt_stat s)(n := mrt_stat s n AND NOT STAT_RUN),
                  mrt_load := (mrt_load s)(n := 0)\<rparr>
      else s)"

definition mrt_tick :: "MCXNMRTState \<Rightarrow> int \<Rightarrow> MCXNMRTState result" where
  "mrt_tick s now = mrt_reschedule (mrt_update_irq (fold (mrt_expire now) [0..<MCXN_MRT_CHANNELS] s)) now"

definition mrt_idle :: "MCXNMRTState \<Rightarrow> nat" where
  "mrt_idle s = (case find (\<lambda>n. \<not> tst (mrt_stat s n) STAT_RUN) [0..<MCXN_MRT_CHANNELS] of
     Some n \<Rightarrow> n | None \<Rightarrow> 0)"

definition mrt_read :: "MCXNMRTState \<Rightarrow> int \<Rightarrow> nat \<Rightarrow> u64" where
  "mrt_read s now off =
     (if off < CH_STRIDE * MCXN_MRT_CHANNELS then
        let n = off div CH_STRIDE; r = off mod CH_STRIDE
        in if r = CH_INTVAL then ucast (mrt_intval s n AND INTVAL_IVALUE)
           else if r = CH_TIMER then ucast (mrt_peek s n now)
           else if r = CH_CTRL then ucast (mrt_ctrl s n)
           else if r = CH_STAT then ucast (mrt_stat s n)
           else 0
      else if off = R_IDLE_CH then push_bit 4 (of_nat (mrt_idle s))
      else if off = R_IRQ_FLAG then
        ucast (fold (\<lambda>n f. if tst (mrt_stat s n) STAT_INTFLAG then f OR flag n else f) [0..<MCXN_MRT_CHANNELS] 0 :: u32)
      else 0)"

definition mrt_intval_write :: "MCXNMRTState \<Rightarrow> int \<Rightarrow> nat \<Rightarrow> u32 \<Rightarrow> MCXNMRTState" where
  "mrt_intval_write s now n v =
     (let s = s\<lparr>mrt_intval := (mrt_intval s)(n := v)\<rparr>
      in if tst v INTVAL_LOAD \<or> \<not> tst (mrt_stat s n) STAT_RUN then
           let s = s\<lparr>mrt_load := (mrt_load s)(n := v AND INTVAL_IVALUE), mrt_base_ns := (mrt_base_ns s)(n := now)\<rparr>
           in s\<lparr>mrt_stat := (mrt_stat s)(n := (if mrt_load s n \<noteq> 0 then mrt_stat s n OR STAT_RUN
                                               else mrt_stat s n AND NOT STAT_RUN))\<rparr>
         else s)"

definition mrt_write :: "MCXNMRTState \<Rightarrow> int \<Rightarrow> nat \<Rightarrow> u64 \<Rightarrow> MCXNMRTState result" where
  "mrt_write s now off value =
     (let v = ucast value :: u32; n = off div CH_STRIDE; r = off mod CH_STRIDE
      in if off < CH_STRIDE * MCXN_MRT_CHANNELS then
           if r = CH_INTVAL then mrt_reschedule (mrt_intval_write s now n v) now
           else if r = CH_CTRL then Inr (mrt_update_irq (s\<lparr>mrt_ctrl := (mrt_ctrl s)(n := v AND 0x7)\<rparr>))
           else if r = CH_STAT then
             Inr (mrt_update_irq (if tst v STAT_INTFLAG
                                  then s\<lparr>mrt_stat := (mrt_stat s)(n := mrt_stat s n AND NOT STAT_INTFLAG)\<rparr> else s))
           else Inr s
         else Inr s)"

definition mcxn_mrt_reset :: "MCXNMRTState \<Rightarrow> MCXNMRTState" where
  "mcxn_mrt_reset s =
     s\<lparr>mrt_timer := None,
       mrt_intval := (\<lambda>n. if n < MCXN_MRT_CHANNELS then 0 else mrt_intval s n),
       mrt_ctrl := (\<lambda>n. if n < MCXN_MRT_CHANNELS then 0 else mrt_ctrl s n),
       mrt_stat := (\<lambda>n. if n < MCXN_MRT_CHANNELS then 0 else mrt_stat s n),
       mrt_load := (\<lambda>n. if n < MCXN_MRT_CHANNELS then 0 else mrt_load s n),
       mrt_base_ns := (\<lambda>n. if n < MCXN_MRT_CHANNELS then 0 else mrt_base_ns s n)\<rparr>"

definition mcxn_mrt_post_load :: "MCXNMRTState \<Rightarrow> MCXNMRTState" where
  "mcxn_mrt_post_load s = mrt_update_irq s"

section \<open>Scheduling\<close>

definition mrt_running :: "MCXNMRTState \<Rightarrow> nat \<Rightarrow> bool" where
  "mrt_running s n \<longleftrightarrow> n < MCXN_MRT_CHANNELS \<and> tst (mrt_stat s n) STAT_RUN"

definition mrt_pending :: "MCXNMRTState \<Rightarrow> bool" where
  "mrt_pending s \<longleftrightarrow> (\<exists>n < MCXN_MRT_CHANNELS. tst (mrt_stat s n) STAT_INTFLAG \<and> tst (mrt_ctrl s n) CTRL_INTEN)"

text \<open>The nanoseconds until channel \<open>n\<close> expires, as the reschedule loop computes them.\<close>

definition mrt_expiry :: "MCXNMRTState \<Rightarrow> int \<Rightarrow> nat \<Rightarrow> u64" where
  "mrt_expiry s now n = ucast (mrt_peek s n now) * 1000000000 div ucast (mrt_freq s)"

lemma mrt_expiry_small: "unat (mrt_expiry s now n) < 2 ^ 63"
proof -
  let ?p = "ucast (mrt_peek s n now) * 1000000000 :: u64"
  have "unat ?p \<le> unat (ucast (mrt_peek s n now) :: u64) * unat (1000000000 :: u64)"
    by (simp only: unat_word_ariths mod_less_eq_dividend)
  moreover have "unat (ucast (mrt_peek s n now) :: u64) < 2 ^ 32"
    using unat_ucast_le [of "mrt_peek s n now", where ?'b = 64] unsigned_less [where ?'a = nat, of "mrt_peek s n now"]
    by simp
  ultimately have "unat ?p < 2 ^ 63" by simp
  then show ?thesis unfolding mrt_expiry_def unat_div_distrib by (rule le_less_trans [OF div_le_dividend])
qed

lemma mrt_expiry_not_max: "mrt_expiry s now n < NOT 0"
  using mrt_expiry_small [of s now n] by (simp add: word_less_nat_alt unsigned_minus_1_eq_mask mask_eq_exp_minus_1)

text \<open>With a clock the loop finds the least expiry of the running channels.\<close>

lemma mrt_best_least:
  assumes "mrt_freq s \<noteq> 0"
  shows "\<exists>b. mrt_best s now ns best = Inr b \<and> b \<le> best
     \<and> (\<forall>n \<in> set ns. tst (mrt_stat s n) STAT_RUN \<longrightarrow> b \<le> mrt_expiry s now n)
     \<and> (b = best \<or> (\<exists>n \<in> set ns. tst (mrt_stat s n) STAT_RUN \<and> b = mrt_expiry s now n))"
proof (induction ns arbitrary: best)
  case Nil
  then show ?case by simp
next
  case (Cons n ns)
  have f: "(ucast (mrt_freq s) :: u64) \<noteq> 0" using assms by (subst ucast_eq_0_up) simp_all
  show ?case
  proof (cases "tst (mrt_stat s n) STAT_RUN")
    case False
    then show ?thesis using Cons.IH [of best] by auto
  next
    case True
    let ?e = "mrt_expiry s now n"
    have "mrt_best s now (n # ns) best = mrt_best s now ns (if ?e < best then ?e else best)"
      using True f by (simp add: mrt_expiry_def)
    moreover obtain b where b: "mrt_best s now ns (if ?e < best then ?e else best) = Inr b"
      "b \<le> (if ?e < best then ?e else best)"
      "\<And>m. m \<in> set ns \<Longrightarrow> tst (mrt_stat s m) STAT_RUN \<Longrightarrow> b \<le> mrt_expiry s now m"
      "b = (if ?e < best then ?e else best)
        \<or> (\<exists>m \<in> set ns. tst (mrt_stat s m) STAT_RUN \<and> b = mrt_expiry s now m)"
      using Cons.IH [of "if ?e < best then ?e else best"] by blast
    moreover have "b \<le> ?e" "b \<le> best" using b(2) by (auto split: if_splits)
    moreover have "b = best \<or> b = ?e \<or> (\<exists>m \<in> set ns. tst (mrt_stat s m) STAT_RUN \<and> b = mrt_expiry s now m)"
      using b(4) by (auto split: if_splits)
    ultimately show ?thesis using True by (intro exI [of _ b]) (auto simp del: tst_flag mrt_best.simps)
  qed
qed

lemma mrt_reschedule_armed:
  assumes "mrt_freq s \<noteq> 0"
  shows "\<exists>d. mrt_reschedule s now = Inr (s\<lparr>mrt_timer := d\<rparr>)
     \<and> (case d of None \<Rightarrow> \<not> (\<exists>n. mrt_running s n)
        | Some t \<Rightarrow> now < t \<and> (\<exists>n. mrt_running s n) \<and> (\<forall>n. mrt_running s n \<longrightarrow>
            t \<le> now + max 1 (sint (mrt_expiry s now n))))"
proof -
  let ?s = "s\<lparr>mrt_timer := None\<rparr>"
  have e: "mrt_freq ?s = mrt_freq s" "mrt_expiry ?s = mrt_expiry s"
    by (simp_all add: mrt_freq_def mrt_expiry_def mrt_peek_def fun_eq_iff Let_def cong: if_cong)
  have "mrt_freq ?s \<noteq> 0" using assms e by simp
  from mrt_best_least [OF this, of now "[0..<MCXN_MRT_CHANNELS]" "NOT 0", unfolded e]
  obtain b where b1: "mrt_best ?s now [0..<MCXN_MRT_CHANNELS] (NOT 0) = Inr b"
    and b2: "\<forall>n \<in> set [0..<MCXN_MRT_CHANNELS]. tst (mrt_stat ?s n) STAT_RUN \<longrightarrow> b \<le> mrt_expiry s now n"
    and b3: "b = NOT 0 \<or> (\<exists>n \<in> set [0..<MCXN_MRT_CHANNELS]. tst (mrt_stat ?s n) STAT_RUN \<and> b = mrt_expiry s now n)"
    by (elim exE conjE) (rule that)
  have r: "n \<in> set [0..<MCXN_MRT_CHANNELS] \<and> tst (mrt_stat ?s n) STAT_RUN \<longleftrightarrow> mrt_running s n" for n
    by (simp add: mrt_running_def)
  have b: "mrt_best ?s now [0..<MCXN_MRT_CHANNELS] (NOT 0) = Inr b"
    "\<And>n. mrt_running s n \<Longrightarrow> b \<le> mrt_expiry s now n"
    "b = NOT 0 \<or> (\<exists>n. mrt_running s n \<and> b = mrt_expiry s now n)"
    using b1 b2 b3 unfolding r [symmetric] Bex_def Ball_def by (simp_all only: conj_assoc simp_thms)
  have max: "b = NOT 0 \<longleftrightarrow> \<not> (\<exists>n. mrt_running s n)"
    using b(2,3) mrt_expiry_not_max [of s now] by (metis leD)
  show ?thesis
  proof (cases "b = NOT 0")
    case True
    then show ?thesis using b(1) max by (auto simp: mrt_reschedule_def intro!: exI [of _ None])
  next
    case False
    then obtain m where m: "mrt_running s m" "b = mrt_expiry s now m" using b(3) by blast
    then have small: "unat b < 2 ^ 63" using mrt_expiry_small by simp
    let ?t = "now + sint (if b \<noteq> 0 then b else 1)"
    have "mrt_reschedule s now = Inr (s\<lparr>mrt_timer := Some ?t\<rparr>)"
      using b(1) False by (simp add: mrt_reschedule_def)
    moreover have "now < ?t" using small by (auto simp: sint_small less_le [of 0] word_uint_eq_iff [of b])
    moreover have "?t \<le> now + max 1 (sint (mrt_expiry s now n))" if "mrt_running s n" for n
      using b(2) [OF that] small mrt_expiry_small [of s now n]
      by (auto simp: sint_small word_le_def le_max_iff_disj)
    ultimately show ?thesis using m(1) by (intro exI [of _ "Some ?t"]) auto
  qed
qed

section \<open>Runs\<close>

datatype mrt_event = Mrt_write int nat u64 | Mrt_tick int

fun mrt_step :: "mrt_event \<Rightarrow> MCXNMRTState \<Rightarrow> MCXNMRTState result" where
  "mrt_step (Mrt_write now off v) s = mrt_write s now off v"
| "mrt_step (Mrt_tick now) s = mrt_tick s now"

definition mrt_inv :: "MCXNMRTState \<Rightarrow> bool" where
  "mrt_inv s \<longleftrightarrow> mrt_freq s \<noteq> 0
     \<and> (mrt_timer s = None \<longleftrightarrow> \<not> (\<exists>n. mrt_running s n))
     \<and> line_level (mrt_irq s) () = mrt_pending s"

lemma mrt_update_irq_fields [simp]:
  "mrt_freq (mrt_update_irq s) = mrt_freq s" "mrt_running (mrt_update_irq s) = mrt_running s"
  "mrt_pending (mrt_update_irq s) = mrt_pending s" "mrt_timer (mrt_update_irq s) = mrt_timer s"
  by (simp_all add: mrt_update_irq_def mrt_freq_def mrt_running_def mrt_pending_def fun_eq_iff)

lemma mrt_update_irq_level [simp]: "line_level (mrt_irq (mrt_update_irq s)) () = mrt_pending s"
  by (auto simp add: mrt_update_irq_def mrt_pending_def fold_raise simp del: tst_flag)

lemma mrt_expire_freq [simp]:
  "mrt_freq (mrt_expire now n s) = mrt_freq s" "mrt_freq (fold (mrt_expire now) ns s) = mrt_freq s"
proof -
  show "mrt_freq (mrt_expire now n s) = mrt_freq s" for n s
    by (simp add: mrt_expire_def mrt_freq_def Let_def)
  then show "mrt_freq (fold (mrt_expire now) ns s) = mrt_freq s" by (induction ns arbitrary: s) simp_all
qed

lemma mrt_reschedule_inv:
  assumes "mrt_freq s \<noteq> 0" and "line_level (mrt_irq s) () = mrt_pending s"
  shows "\<exists>t. mrt_reschedule s now = Inr t \<and> mrt_inv t"
proof -
  from mrt_reschedule_armed [OF assms(1), of now]
  obtain d where d: "mrt_reschedule s now = Inr (s\<lparr>mrt_timer := d\<rparr>)"
    and c: "case d of None \<Rightarrow> \<not> (\<exists>n. mrt_running s n)
      | Some t \<Rightarrow> now < t \<and> (\<exists>n. mrt_running s n) \<and> (\<forall>n. mrt_running s n \<longrightarrow>
            t \<le> now + max 1 (sint (mrt_expiry s now n)))"
    by (elim exE conjE) (rule that)
  have "d = None \<longleftrightarrow> \<not> (\<exists>n. mrt_running s n)" using c by (cases d) auto
  moreover have "mrt_running (s\<lparr>mrt_timer := d\<rparr>) = mrt_running s" "mrt_pending (s\<lparr>mrt_timer := d\<rparr>) = mrt_pending s"
    "mrt_freq (s\<lparr>mrt_timer := d\<rparr>) = mrt_freq s"
    by (simp_all add: mrt_running_def mrt_pending_def mrt_freq_def fun_eq_iff)
  ultimately show ?thesis using assms d by (simp add: mrt_inv_def)
qed

lemma mrt_intval_write_fields [simp]:
  "mrt_freq (mrt_intval_write s now n v) = mrt_freq s"
  "mrt_irq (mrt_intval_write s now n v) = mrt_irq s"
  "mrt_pending (mrt_intval_write s now n v) = mrt_pending s"
  by (auto simp: mrt_intval_write_def mrt_freq_def mrt_pending_def Let_def)

interpretation mrt: live_device mrt_step mrt_inv
proof
  fix s e assume inv: "mrt_inv s"
  then have f: "mrt_freq s \<noteq> 0" and l: "line_level (mrt_irq s) () = mrt_pending s"
    by (simp_all add: mrt_inv_def)
  have upd: "mrt_inv (mrt_update_irq t)"
    if "mrt_freq t = mrt_freq s" "mrt_running t = mrt_running s" "mrt_timer t = mrt_timer s" for t
    using that inv by (simp add: mrt_inv_def)
  show "\<exists>t. mrt_step e s = Inr t \<and> mrt_inv t"
  proof (cases e)
    case (Mrt_tick now)
    then show ?thesis using mrt_reschedule_inv [of "mrt_update_irq (fold (mrt_expire now) _ s)"] f
      by (simp add: mrt_tick_def)
  next
    case (Mrt_write now off v)
    have "\<exists>t. mrt_reschedule (mrt_intval_write s now n u) now = Inr t \<and> mrt_inv t" for n u
      using f l by (intro mrt_reschedule_inv) simp_all
    moreover have "mrt_inv (mrt_update_irq (s\<lparr>mrt_ctrl := c\<rparr>))" for c
      by (rule upd) (simp_all add: mrt_freq_def mrt_running_def fun_eq_iff)
    moreover have "mrt_inv (mrt_update_irq (s\<lparr>mrt_stat := (mrt_stat s)(n := mrt_stat s n AND NOT STAT_INTFLAG)\<rparr>))" for n
      by (rule upd) (simp_all add: mrt_freq_def mrt_running_def fun_eq_iff)
    moreover have "mrt_inv (mrt_update_irq s)" by (rule upd) simp_all
    ultimately show ?thesis using inv by (simp add: Mrt_write mrt_write_def Let_def)
  qed
qed

section \<open>Channels are independent\<close>

text \<open>All that the loop of \<^verbatim>\<open>mrt_tick\<close> reads and writes of channel \<open>n\<close>.\<close>

definition mrt_chan :: "MCXNMRTState \<Rightarrow> nat \<Rightarrow> u32 option \<times> u32 \<times> u32 \<times> u32 \<times> u32 \<times> int" where
  "mrt_chan s n = (mrt_clk s, mrt_intval s n, mrt_ctrl s n, mrt_stat s n, mrt_load s n, mrt_base_ns s n)"

lemma mrt_expire_other: "m \<noteq> n \<Longrightarrow> mrt_chan (mrt_expire now m s) n = mrt_chan s n"
  by (simp add: mrt_expire_def mrt_chan_def Let_def)

lemma mrt_expire_cong:
  assumes "mrt_chan s n = mrt_chan t n"
  shows "mrt_chan (mrt_expire now n s) n = mrt_chan (mrt_expire now n t) n"
proof -
  have "mrt_peek s n now = mrt_peek t n now" using assms by (simp add: mrt_chan_def mrt_peek_def mrt_freq_def Let_def cong: if_cong)
  then show ?thesis using assms by (simp add: mrt_expire_def mrt_chan_def Let_def)
qed

lemma mrt_expire_all:
  "distinct ns \<Longrightarrow> mrt_chan (fold (mrt_expire now) ns s) n
     = (if n \<in> set ns then mrt_chan (mrt_expire now n s) n else mrt_chan s n)"
proof (induction ns arbitrary: s)
  case Nil
  then show ?case by simp
next
  case (Cons m ns)
  show ?case
  proof (cases "m = n")
    case True
    with Cons show ?thesis by simp
  next
    case False
    with Cons mrt_expire_other [OF False, of now s]
      mrt_expire_cong [of "mrt_expire now m s" n s now] show ?thesis by simp
  qed
qed

lemma mrt_peek_zero:
  assumes "tst (mrt_stat s n) STAT_RUN" and "mrt_base_ns s n < now"
    and "unat (mrt_load s n) * 1000000000 \<le> nat (now - mrt_base_ns s n) * unat (mrt_freq s)"
    and "nat (now - mrt_base_ns s n) * unat (mrt_freq s) < 2 ^ 64"
  shows "mrt_peek s n now = 0"
proof -
  let ?e = "nat (now - mrt_base_ns s n)" and ?f = "unat (mrt_freq s)"
  have "(word_of_int (now - mrt_base_ns s n) :: u64) = of_nat ?e" using assms(2) by simp
  moreover have "unat ((of_nat ?e :: u64) * ucast (mrt_freq s)) = ?e * ?f"
  proof -
    have "(of_nat ?e :: u64) * ucast (mrt_freq s) = of_nat (?e * ?f)" by simp
    then show ?thesis using assms(4) by (simp only: unat_of_nat) simp
  qed
  moreover have "unat (mrt_load s n) \<le> ?e * ?f div 1000000000" using assms(3) by (simp add: less_eq_div_iff_mult_less_eq)
  ultimately show ?thesis
    using assms(1,2) unat_ucast_le [of "mrt_load s n", where ?'b = 64]
    by (simp add: mrt_peek_def Let_def word_le_nat_alt unat_div_distrib del: of_nat_nat)
qed

text \<open>Without a clock, a running channel makes the reschedule divide by zero.\<close>

lemma mrt_unclocked_faults:
  assumes "mrt_freq s = 0" and "mrt_running s n"
  shows "mrt_reschedule s now = Inl Div_by_zero"
proof -
  have "mrt_best t now ns best = Inl Div_by_zero"
    if "mrt_freq t = 0" "\<exists>n \<in> set ns. tst (mrt_stat t n) STAT_RUN" for t ns best
    using that by (induction ns arbitrary: best) (auto simp del: tst_flag)
  moreover have "mrt_freq (s\<lparr>mrt_timer := None\<rparr>) = 0" using assms(1) by (simp add: mrt_freq_def)
  moreover have "\<exists>n \<in> set [0..<MCXN_MRT_CHANNELS]. tst (mrt_stat (s\<lparr>mrt_timer := None\<rparr>) n) STAT_RUN"
    using assms(2) by (auto simp: mrt_running_def)
  ultimately show ?thesis by (simp add: mrt_reschedule_def)
qed

section \<open>Properties\<close>

text \<open>
  C19: with a running clock, any sequence of register writes and timer ticks after reset keeps
  the shared timer armed exactly while some channel runs, and the interrupt line high exactly
  while some channel has its flag and its enable set.
\<close>

theorem mrt_armed_while_running:
  assumes "mrt_freq s \<noteq> 0" and "mrt_irq s = []"
  shows "\<exists>t. dev_run mrt_step es (mcxn_mrt_reset s) = Inr t
     \<and> (mrt_timer t = None \<longleftrightarrow> \<not> (\<exists>n. mrt_running t n)) \<and> line_level (mrt_irq t) () = mrt_pending t"
proof -
  have "mrt_inv (mcxn_mrt_reset s)"
    using assms by (simp add: mrt_inv_def mcxn_mrt_reset_def mrt_freq_def mrt_running_def mrt_pending_def)
  from mrt.run_live [OF this, of es] show ?thesis unfolding mrt_inv_def by (elim exE conjE) (intro exI conjI)
qed

theorem mrt_armed_while_running_witness:
  "let s = \<lparr>mrt_irq = [], mrt_timer = None, mrt_clk = Some 1000000, mrt_intval = (\<lambda>_. 0), mrt_ctrl = (\<lambda>_. 0),
            mrt_stat = (\<lambda>_. 0), mrt_load = (\<lambda>_. 0), mrt_base_ns = (\<lambda>_. 0)\<rparr>
   in \<exists>t. dev_run mrt_step [Mrt_write 0 0x8 1, Mrt_write 10 0x0 5, Mrt_tick 6000] (mcxn_mrt_reset s) = Inr t
        \<and> line_level (mrt_irq t) () = mrt_pending t"
proof -
  define s where "s = \<lparr>mrt_irq = [], mrt_timer = None, mrt_clk = Some 1000000, mrt_intval = (\<lambda>_. 0), mrt_ctrl = (\<lambda>_. 0),
            mrt_stat = (\<lambda>_. 0), mrt_load = (\<lambda>_. 0), mrt_base_ns = (\<lambda>_. 0)\<rparr>"
  have "mrt_freq s \<noteq> 0" "mrt_irq s = []" by (simp_all add: s_def mrt_freq_def)
  from mrt_armed_while_running [OF this, of "[Mrt_write 0 0x8 1, Mrt_write 10 0x0 5, Mrt_tick 6000]"]
  show ?thesis unfolding Let_def s_def [symmetric] by (elim exE conjE) (intro exI conjI)
qed

text \<open>
  C27: once a running channel has counted its interval, the next tick sets its interrupt flag,
  raises the line if the channel's interrupt is enabled, and leaves the channel reloaded in
  repeat mode and stopped otherwise.
\<close>

theorem mrt_channel_expires:
  assumes "mrt_freq s \<noteq> 0" and "n < MCXN_MRT_CHANNELS" and "tst (mrt_stat s n) STAT_RUN" and "mrt_base_ns s n < now"
    and "unat (mrt_load s n) * 1000000000 \<le> nat (now - mrt_base_ns s n) * unat (mrt_freq s)"
    and "nat (now - mrt_base_ns s n) * unat (mrt_freq s) < 2 ^ 64"
  shows "\<exists>t. mrt_tick s now = Inr t \<and> tst (mrt_stat t n) STAT_INTFLAG
     \<and> (tst (mrt_ctrl s n) CTRL_INTEN \<longrightarrow> line_level (mrt_irq t) ())
     \<and> (if drop_bit 1 (mrt_ctrl s n AND CTRL_MODE) = MODE_REPEAT \<and> mrt_intval s n \<noteq> 0
        then tst (mrt_stat t n) STAT_RUN \<and> mrt_peek t n now = mrt_intval s n AND INTVAL_IVALUE
        else \<not> tst (mrt_stat t n) STAT_RUN)"
proof -
  let ?u = "fold (mrt_expire now) [0..<MCXN_MRT_CHANNELS] s"
  have "mrt_freq (mrt_update_irq ?u) \<noteq> 0" using assms(1) by simp
  then obtain d where t: "mrt_tick s now = Inr ((mrt_update_irq ?u)\<lparr>mrt_timer := d\<rparr>)"
    using mrt_reschedule_armed [of "mrt_update_irq ?u" now] unfolding mrt_tick_def by blast
  have "mrt_chan ?u n = mrt_chan (mrt_expire now n s) n" using assms(2) by (simp add: mrt_expire_all)
  then have u: "mrt_stat ?u n = mrt_stat (mrt_expire now n s) n" "mrt_ctrl ?u n = mrt_ctrl s n"
    "mrt_load ?u n = mrt_load (mrt_expire now n s) n" "mrt_base_ns ?u n = mrt_base_ns (mrt_expire now n s) n"
    by (simp_all add: mrt_chan_def mrt_expire_def Let_def)
  have z: "mrt_peek s n now = 0" using assms(3-) by (rule mrt_peek_zero)
  have i: "tst (mrt_stat ?u n) STAT_INTFLAG" using assms(3) z by (simp add: u mrt_expire_def Let_def)
  then have "line_level (mrt_irq (mrt_update_irq ?u)) ()" if "tst (mrt_ctrl s n) CTRL_INTEN"
    using that assms(2) u(2) unfolding mrt_update_irq_level mrt_pending_def by auto
  moreover have "if drop_bit 1 (mrt_ctrl s n AND CTRL_MODE) = MODE_REPEAT \<and> mrt_intval s n \<noteq> 0
      then tst (mrt_stat ?u n) STAT_RUN \<and> mrt_load ?u n = mrt_intval s n AND INTVAL_IVALUE \<and> mrt_base_ns ?u n = now
      else \<not> tst (mrt_stat ?u n) STAT_RUN"
    using assms(3) z by (simp add: u mrt_expire_def Let_def)
  ultimately show ?thesis using i
    by (intro exI [of _ "(mrt_update_irq ?u)\<lparr>mrt_timer := d\<rparr>"])
       (simp add: t mrt_peek_def mrt_update_irq_def split: if_splits)
qed

theorem mrt_channel_expires_witness:
  "\<exists>t. mrt_tick \<lparr>mrt_irq = [], mrt_timer = None, mrt_clk = Some 1000000, mrt_intval = (\<lambda>_. 5), mrt_ctrl = (\<lambda>_. 1),
            mrt_stat = (\<lambda>_. 2), mrt_load = (\<lambda>_. 5), mrt_base_ns = (\<lambda>_. 0)\<rparr> 5000 = Inr t
     \<and> tst (mrt_stat t 2) STAT_INTFLAG \<and> line_level (mrt_irq t) () \<and> mrt_peek t 2 5000 = 5"
proof -
  define s where "s = \<lparr>mrt_irq = [], mrt_timer = None, mrt_clk = Some 1000000, mrt_intval = (\<lambda>_. 5), mrt_ctrl = (\<lambda>_. 1),
            mrt_stat = (\<lambda>_. 2), mrt_load = (\<lambda>_. 5), mrt_base_ns = (\<lambda>_. 0)\<rparr>"
  have "mrt_freq s \<noteq> 0" "2 < MCXN_MRT_CHANNELS" "tst (mrt_stat s 2) STAT_RUN" "mrt_base_ns s 2 < 5000"
    "unat (mrt_load s 2) * 1000000000 \<le> nat (5000 - mrt_base_ns s 2) * unat (mrt_freq s)"
    "nat (5000 - mrt_base_ns s 2) * unat (mrt_freq s) < 2 ^ 64"
    by (simp_all add: s_def mrt_freq_def MCXN_MRT_CHANNELS_def bit_double_iff)
  note ex = mrt_channel_expires [OF this]
  have "drop_bit 1 (mrt_ctrl s 2 AND CTRL_MODE) = MODE_REPEAT" "mrt_intval s 2 \<noteq> 0"
    "mrt_intval s 2 AND INTVAL_IVALUE = 5" "tst (mrt_ctrl s 2) CTRL_INTEN"
    by (simp_all add: s_def CTRL_MODE_def MODE_REPEAT_def INTVAL_IVALUE_def)
  with ex obtain t where "mrt_tick s 5000 = Inr t" "tst (mrt_stat t 2) STAT_INTFLAG" "line_level (mrt_irq t) ()"
    "mrt_peek t 2 5000 = 5" by (simp only: simp_thms if_True) (elim exE conjE, rule that)
  then show ?thesis unfolding s_def [symmetric] by (intro exI conjI)
qed

end
