(* ===== verification/Mcxn_Lptmr.thy ===== *)
theory Mcxn_Lptmr
  imports Mcxn_Prelude
begin

unbundle bit_operations_syntax

text \<open>
  The low-power timer (\<^verbatim>\<open>hw/timer/mcxn_lptmr.c\<close>): a 16-bit up-counter on a selectable,
  prescaled low-power clock with one compare value, an interrupt line and a trigger output that
  the compare match pulses.
\<close>

section \<open>Model\<close>

datatype lptmr_line = Lptmr_irq | Lptmr_trigger

record MCXNLPTMRState =
  lptmr_lines :: "lptmr_line irq_log"
  lptmr_timer :: "int option"
  lptmr_clk :: "u32 option"
  lptmr_csr :: u32
  lptmr_psr :: u32
  lptmr_cmr :: u32
  lptmr_cnr :: u32
  lptmr_base_ns :: int

definition LPTMR_CSR :: nat where "LPTMR_CSR = 0x0"
definition LPTMR_PSR :: nat where "LPTMR_PSR = 0x4"
definition LPTMR_CMR :: nat where "LPTMR_CMR = 0x8"
definition LPTMR_CNR :: nat where "LPTMR_CNR = 0xC"

lemmas lptmr_offsets = LPTMR_CSR_def LPTMR_PSR_def LPTMR_CMR_def LPTMR_CNR_def

abbreviation CSR_TEN :: u32 where "CSR_TEN \<equiv> flag 0"
abbreviation CSR_TFC :: u32 where "CSR_TFC \<equiv> flag 2"
abbreviation CSR_TIE :: u32 where "CSR_TIE \<equiv> flag 6"
abbreviation CSR_TCF :: u32 where "CSR_TCF \<equiv> flag 7"
definition PSR_PCS :: u32 where "PSR_PCS = 3"
abbreviation PSR_PBYP :: u32 where "PSR_PBYP \<equiv> flag 2"
definition PSR_PRESCALE :: u32 where "PSR_PRESCALE = push_bit 3 0xF"
definition FRO_16K_HZ :: u32 where "FRO_16K_HZ = 16000"
definition CLK_32K_HZ :: u32 where "CLK_32K_HZ = 32768"

definition lptmr_divider :: "MCXNLPTMRState \<Rightarrow> u32" where
  "lptmr_divider s =
     (if tst (lptmr_psr s) PSR_PBYP then 1
      else flag (unat (drop_bit 3 (lptmr_psr s AND PSR_PRESCALE)) + 1))"

definition lptmr_source_hz :: "MCXNLPTMRState \<Rightarrow> u32" where
  "lptmr_source_hz s =
     (let pcs = lptmr_psr s AND PSR_PCS
      in if pcs = 0 then (case lptmr_clk s of Some hz \<Rightarrow> hz | None \<Rightarrow> 0)
         else if pcs = 1 then FRO_16K_HZ
         else if pcs = 2 then CLK_32K_HZ
         else 0)"

definition lptmr_freq :: "MCXNLPTMRState \<Rightarrow> u32" where
  "lptmr_freq s = lptmr_source_hz s div lptmr_divider s"

definition lptmr_peek :: "MCXNLPTMRState \<Rightarrow> int \<Rightarrow> u32" where
  "lptmr_peek s now =
     (if \<not> tst (lptmr_csr s) CSR_TEN \<or> now \<le> lptmr_base_ns s then lptmr_cnr s
      else let counts = ((word_of_int (now - lptmr_base_ns s) :: u64) * ucast (lptmr_freq s)) div 1000000000
           in ucast (ucast (lptmr_cnr s) + counts) AND 0xFFFF)"

definition lptmr_update_irq :: "MCXNLPTMRState \<Rightarrow> MCXNLPTMRState" where
  "lptmr_update_irq s =
     s\<lparr>lptmr_lines := qemu_set_irq Lptmr_irq (tst (lptmr_csr s) CSR_TCF \<and> tst (lptmr_csr s) CSR_TIE) (lptmr_lines s)\<rparr>"

definition lptmr_reschedule :: "MCXNLPTMRState \<Rightarrow> int \<Rightarrow> MCXNLPTMRState" where
  "lptmr_reschedule s now =
     (let s = s\<lparr>lptmr_timer := None\<rparr>
      in if \<not> tst (lptmr_csr s) CSR_TEN then s
         else let freq = lptmr_freq s
              in if freq = 0 then s
                 else let cur = lptmr_peek s now;
                          remain = (if cur \<le> lptmr_cmr s then lptmr_cmr s - cur + 1 else 1)
                      in s\<lparr>lptmr_timer := Some (now + sint ((ucast remain * 1000000000 :: u64) div ucast freq))\<rparr>)"

definition lptmr_tick :: "MCXNLPTMRState \<Rightarrow> int \<Rightarrow> MCXNLPTMRState" where
  "lptmr_tick s now =
     (let s = s\<lparr>lptmr_csr := lptmr_csr s OR CSR_TCF\<rparr>;
          s = (if \<not> tst (lptmr_csr s) CSR_TFC then s\<lparr>lptmr_cnr := 0, lptmr_base_ns := now\<rparr>
               else s\<lparr>lptmr_cnr := lptmr_peek s now, lptmr_base_ns := now\<rparr>);
          s = lptmr_update_irq s;
          s = s\<lparr>lptmr_lines := qemu_irq_pulse Lptmr_trigger (lptmr_lines s)\<rparr>
      in lptmr_reschedule s now)"

definition lptmr_read :: "MCXNLPTMRState \<Rightarrow> int \<Rightarrow> nat \<Rightarrow> u64" where
  "lptmr_read s now off =
     (if off = LPTMR_CSR then ucast (lptmr_csr s)
      else if off = LPTMR_PSR then ucast (lptmr_psr s)
      else if off = LPTMR_CMR then ucast (lptmr_cmr s)
      else if off = LPTMR_CNR then ucast (lptmr_peek s now)
      else 0)"

definition lptmr_write :: "MCXNLPTMRState \<Rightarrow> int \<Rightarrow> nat \<Rightarrow> u64 \<Rightarrow> MCXNLPTMRState" where
  "lptmr_write s now off value =
     (let v = ucast value :: u32 in
      if off = LPTMR_CSR then
        let was_en = tst (lptmr_csr s) CSR_TEN;
            s = (if tst v CSR_TCF then s\<lparr>lptmr_csr := lptmr_csr s AND NOT CSR_TCF\<rparr> else s);
            s = s\<lparr>lptmr_csr := (lptmr_csr s AND CSR_TCF) OR (v AND NOT CSR_TCF)\<rparr>;
            s = (if tst (lptmr_csr s) CSR_TEN \<and> \<not> was_en then s\<lparr>lptmr_cnr := 0, lptmr_base_ns := now\<rparr> else s);
            s = (if \<not> tst (lptmr_csr s) CSR_TEN then s\<lparr>lptmr_cnr := 0\<rparr> else s)
        in lptmr_reschedule (lptmr_update_irq s) now
      else if off = LPTMR_PSR then lptmr_reschedule (s\<lparr>lptmr_psr := v\<rparr>) now
      else if off = LPTMR_CMR then lptmr_reschedule (s\<lparr>lptmr_cmr := v AND 0xFFFF\<rparr>) now
      else s)"

definition mcxn_lptmr_reset :: "MCXNLPTMRState \<Rightarrow> MCXNLPTMRState" where
  "mcxn_lptmr_reset s =
     s\<lparr>lptmr_timer := None, lptmr_csr := 0, lptmr_psr := 0, lptmr_cmr := 0, lptmr_cnr := 0, lptmr_base_ns := 0\<rparr>"

definition mcxn_lptmr_post_load :: "MCXNLPTMRState \<Rightarrow> MCXNLPTMRState" where
  "mcxn_lptmr_post_load s = lptmr_update_irq s"

section \<open>Periodic operation\<close>

lemma lptmr_freq_upd [simp]:
  "lptmr_freq (s\<lparr>lptmr_timer := d\<rparr>) = lptmr_freq s" "lptmr_freq (s\<lparr>lptmr_csr := c\<rparr>) = lptmr_freq s"
  "lptmr_freq (s\<lparr>lptmr_lines := l\<rparr>) = lptmr_freq s" "lptmr_freq (s\<lparr>lptmr_cnr := n\<rparr>) = lptmr_freq s"
  "lptmr_freq (s\<lparr>lptmr_base_ns := b\<rparr>) = lptmr_freq s"
  by (simp_all add: lptmr_freq_def lptmr_source_hz_def lptmr_divider_def Let_def cong: if_cong)

text \<open>The compare period in nanoseconds: CMR + 1 counts of the prescaled clock.\<close>

definition lptmr_period :: "MCXNLPTMRState \<Rightarrow> nat" where
  "lptmr_period s = (unat (lptmr_cmr s) + 1) * 1000000000 div unat (lptmr_freq s)"

text \<open>A timer that is enabled in time-counter mode on a running clock.\<close>

definition lptmr_periodic :: "MCXNLPTMRState \<Rightarrow> bool" where
  "lptmr_periodic s \<longleftrightarrow> tst (lptmr_csr s) CSR_TEN \<and> \<not> tst (lptmr_csr s) CSR_TFC
     \<and> lptmr_freq s \<noteq> 0 \<and> unat (lptmr_cmr s) < 2 ^ 16"

text \<open>Ticks that the QEMU timer delivers at the armed deadlines; no deadline ends the sequence.\<close>

fun lptmr_ticks :: "nat \<Rightarrow> MCXNLPTMRState \<Rightarrow> MCXNLPTMRState" where
  "lptmr_ticks 0 s = s"
| "lptmr_ticks (Suc n) s =
     (case lptmr_timer s of None \<Rightarrow> s | Some t \<Rightarrow> lptmr_ticks n (lptmr_tick (s\<lparr>lptmr_timer := None\<rparr>) t))"

lemma lptmr_reschedule_restart:
  assumes "lptmr_periodic s" and "lptmr_cnr s = 0" and "lptmr_base_ns s = now"
  shows "lptmr_reschedule s now = s\<lparr>lptmr_timer := Some (now + int (lptmr_period s))\<rparr>"
proof -
  let ?r = "lptmr_cmr s + 1" and ?d = "(ucast (lptmr_cmr s + 1) * 1000000000 :: u64) div ucast (lptmr_freq s)"
  have c: "unat (lptmr_cmr s) < 2 ^ 16" using assms(1) by (simp add: lptmr_periodic_def)
  then have r: "unat ?r = unat (lptmr_cmr s) + 1" by (simp add: unat_plus_if_size word_size)
  have u: "unat (ucast x :: u64) = unat x" for x :: u32
    using unsigned_less [where ?'a = nat, of x] by (simp add: unsigned_ucast_eq take_bit_nat_eq_self)
  have "unat (ucast ?r * 1000000000 :: u64) = (unat (lptmr_cmr s) + 1) * 1000000000"
    using c by (subst unat_mult_lem [THEN iffD1]) (simp_all only: u r, simp_all)
  then have d: "unat ?d = lptmr_period s" by (simp only: unat_div_distrib u lptmr_period_def)
  moreover have "lptmr_period s < 2 ^ 63"
    unfolding lptmr_period_def using c by (intro le_less_trans [OF div_le_dividend]) simp
  ultimately have "sint ?d = int (lptmr_period s)" by (subst sint_small) simp_all
  moreover have "lptmr_peek (s\<lparr>lptmr_timer := None\<rparr>) now = 0" using assms by (simp add: lptmr_peek_def)
  ultimately show ?thesis using assms(1) by (simp add: lptmr_reschedule_def Let_def lptmr_periodic_def)
qed

lemma lptmr_tick_periodic:
  assumes "lptmr_periodic s"
  shows "\<exists>ls. lptmr_tick s now = s\<lparr>lptmr_csr := lptmr_csr s OR CSR_TCF, lptmr_cnr := 0, lptmr_base_ns := now,
       lptmr_lines := ls, lptmr_timer := Some (now + int (lptmr_period s))\<rparr>
     \<and> ls = lptmr_lines s @ [(Lptmr_irq, tst (lptmr_csr s) CSR_TIE), (Lptmr_trigger, True), (Lptmr_trigger, False)]"
proof -
  let ?ls = "lptmr_lines s @ [(Lptmr_irq, tst (lptmr_csr s) CSR_TIE), (Lptmr_trigger, True), (Lptmr_trigger, False)]"
  let ?s = "s\<lparr>lptmr_csr := lptmr_csr s OR CSR_TCF, lptmr_cnr := 0, lptmr_base_ns := now, lptmr_lines := ?ls\<rparr>"
  have "lptmr_tick s now = lptmr_reschedule ?s now" using assms
    by (simp add: lptmr_tick_def Let_def lptmr_update_irq_def lptmr_periodic_def qemu_irq_pulse_def qemu_set_irq_def)
  moreover have "lptmr_periodic ?s" "lptmr_period ?s = lptmr_period s"
    using assms by (simp_all add: lptmr_periodic_def lptmr_period_def)
  ultimately show ?thesis by (simp add: lptmr_reschedule_restart)
qed

definition lptmr_pulses :: "MCXNLPTMRState \<Rightarrow> nat" where
  "lptmr_pulses s = length (filter (\<lambda>c. c = (Lptmr_trigger, True)) (lptmr_lines s))"

lemma lptmr_ticks_periodic:
  assumes "lptmr_periodic s" and "lptmr_timer s = Some d"
  shows "lptmr_timer (lptmr_ticks n s) = Some (d + int n * int (lptmr_period s))
     \<and> lptmr_pulses (lptmr_ticks n s) = lptmr_pulses s + n
     \<and> (0 < n \<longrightarrow> tst (lptmr_csr (lptmr_ticks n s)) CSR_TCF
          \<and> line_level (lptmr_lines (lptmr_ticks n s)) Lptmr_irq = tst (lptmr_csr s) CSR_TIE)"
  using assms
proof (induction n arbitrary: s d)
  case 0
  then show ?case by simp
next
  case (Suc n)
  let ?p = "lptmr_period s"
  let ?ls = "lptmr_lines s @ [(Lptmr_irq, tst (lptmr_csr s) CSR_TIE), (Lptmr_trigger, True), (Lptmr_trigger, False)]"
  let ?t = "s\<lparr>lptmr_csr := lptmr_csr s OR CSR_TCF, lptmr_cnr := 0, lptmr_base_ns := d,
       lptmr_lines := ?ls, lptmr_timer := Some (d + int ?p)\<rparr>"
  have "lptmr_periodic (s\<lparr>lptmr_timer := None\<rparr>)" "lptmr_period (s\<lparr>lptmr_timer := None\<rparr>) = ?p"
    using Suc.prems by (simp_all add: lptmr_periodic_def lptmr_period_def)
  then have step: "lptmr_ticks (Suc n) s = lptmr_ticks n ?t"
    using lptmr_tick_periodic [of "s\<lparr>lptmr_timer := None\<rparr>" d] Suc.prems by simp
  have p: "lptmr_periodic ?t" "lptmr_period ?t = ?p" "lptmr_timer ?t = Some (d + int ?p)"
    "lptmr_pulses ?t = Suc (lptmr_pulses s)" "tst (lptmr_csr ?t) CSR_TIE = tst (lptmr_csr s) CSR_TIE"
    using Suc.prems by (simp_all add: lptmr_periodic_def lptmr_period_def lptmr_pulses_def)
  have one: "tst (lptmr_csr ?t) CSR_TCF \<and> line_level (lptmr_lines ?t) Lptmr_irq = tst (lptmr_csr s) CSR_TIE"
    by (simp add: line_level_def)
  note ih = Suc.IH [OF p(1,3), unfolded p]
  show ?case unfolding step using ih one by (cases "n = 0") (simp_all add: p algebra_simps)
qed

section \<open>Properties\<close>

text \<open>
  C28: enabling the timer in time-counter mode makes it match periodically: after the enabling
  write at \<open>now\<close> the \<open>n\<close>-th following deadline is \<open>n + 1\<close> periods of CMR + 1 counts later, every
  match pulses the trigger output exactly once, and it raises the interrupt exactly if enabled.
\<close>

theorem lptmr_matches_periodically:
  assumes "\<not> tst (lptmr_csr s) CSR_TEN" and "tst (ucast v) CSR_TEN" and "\<not> tst (ucast v) CSR_TFC"
    and "lptmr_freq s \<noteq> 0" and "unat (lptmr_cmr s) < 2 ^ 16"
  shows "let t = lptmr_ticks n (lptmr_write s now LPTMR_CSR v)
     in lptmr_timer t = Some (now + int (n + 1) * int (lptmr_period s))
      \<and> lptmr_pulses t = lptmr_pulses s + n
      \<and> (0 < n \<longrightarrow> tst (lptmr_csr t) CSR_TCF \<and> line_level (lptmr_lines t) Lptmr_irq = tst (ucast v :: u32) CSR_TIE)"
proof -
  define c where "c = ((if tst (ucast v :: u32) CSR_TCF then lptmr_csr s AND NOT CSR_TCF else lptmr_csr s) AND CSR_TCF)
     OR (ucast v AND NOT CSR_TCF)"
  have c: "tst c CSR_TEN" "\<not> tst c CSR_TFC" "tst c CSR_TIE = tst (ucast v :: u32) CSR_TIE"
    using assms(2,3) by (simp_all add: c_def bit_simps)
  let ?u = "lptmr_update_irq (s\<lparr>lptmr_csr := c, lptmr_cnr := 0, lptmr_base_ns := now\<rparr>)"
  have w: "lptmr_write s now LPTMR_CSR v = lptmr_reschedule ?u now"
    using assms(1,2) by (simp add: lptmr_write_def Let_def c_def bit_simps)
  have p: "lptmr_periodic ?u" "lptmr_period ?u = lptmr_period s"
    using assms(4,5) c by (simp_all add: lptmr_update_irq_def lptmr_periodic_def lptmr_period_def)
  let ?t = "?u\<lparr>lptmr_timer := Some (now + int (lptmr_period s))\<rparr>"
  have "lptmr_reschedule ?u now = ?t"
    using lptmr_reschedule_restart [OF p(1), of now] p(2) by (simp add: lptmr_update_irq_def)
  moreover have "lptmr_periodic ?t" "lptmr_period ?t = lptmr_period s"
    using p by (simp_all add: lptmr_periodic_def lptmr_period_def)
  moreover have "lptmr_pulses ?t = lptmr_pulses s" "tst (lptmr_csr ?t) CSR_TIE = tst (ucast v :: u32) CSR_TIE"
    using c(3) by (simp_all add: lptmr_pulses_def lptmr_update_irq_def qemu_set_irq_def)
  ultimately show ?thesis using lptmr_ticks_periodic [of ?t "now + int (lptmr_period s)" n]
    by (simp add: w Let_def algebra_simps del: tst_flag)
qed

theorem lptmr_matches_periodically_witness:
  "let t = lptmr_ticks 3 (lptmr_write \<lparr>lptmr_lines = [], lptmr_timer = None, lptmr_clk = Some 12000000, lptmr_csr = 0,
        lptmr_psr = 5, lptmr_cmr = 15, lptmr_cnr = 0, lptmr_base_ns = 0\<rparr> 100 LPTMR_CSR 0x41)
   in lptmr_timer t = Some 4000100 \<and> lptmr_pulses t = 3 \<and> line_level (lptmr_lines t) Lptmr_irq"
proof -
  define s where "s = \<lparr>lptmr_lines = [], lptmr_timer = None, lptmr_clk = Some 12000000, lptmr_csr = 0,
        lptmr_psr = 5, lptmr_cmr = 15, lptmr_cnr = 0, lptmr_base_ns = 0\<rparr>"
  have f: "lptmr_freq s = 16000"
    by (simp add: s_def lptmr_freq_def lptmr_source_hz_def lptmr_divider_def PSR_PCS_def FRO_16K_HZ_def)
  then have "\<not> tst (lptmr_csr s) CSR_TEN" "tst (ucast (0x41 :: u64)) CSR_TEN" "\<not> tst (ucast (0x41 :: u64)) CSR_TFC"
    "lptmr_freq s \<noteq> 0" "unat (lptmr_cmr s) < 2 ^ 16"
    by (simp_all add: s_def)
  from lptmr_matches_periodically [OF this, of 3 100]
  show ?thesis unfolding s_def [symmetric]
    by (simp add: Let_def lptmr_period_def f) (simp add: s_def lptmr_pulses_def)
qed

end
