(* ===== verification/Mcxn_Edma.thy ===== *)
theory Mcxn_Edma
  imports Mcxn_Prelude
begin

text \<open>
  The enhanced DMA controller (\<^verbatim>\<open>hw/dma/mcxn_edma.c\<close>, \<^verbatim>\<open>include/hw/dma/mcxn_edma.h\<close>):
  sixteen channels with transfer control descriptors, minor and major loops, channel
  linking, scatter/gather and the bottom half that serves the request lines.

  The system bus is a parameter: its three access functions work on an abstract bus state
  \<open>'m\<close> and also return the calls the accessed devices make on the request lines while they
  are accessed, which reach \<open>mcxn_edma_req\<close> before the engine continues.  Transfers
  whose bus address lies in the register window of the controller itself are outside the model.
\<close>

section \<open>State\<close>

record MCXNEDMAChan =
  ch_csr :: u32
  ch_es :: u32
  ch_intr :: u32
  ch_sbr :: u32
  ch_pri :: u32
  ch_mux :: u32
  tcd_saddr :: u32
  tcd_slast :: u32
  tcd_daddr :: u32
  tcd_dlast :: u32
  tcd_nbytes :: u32
  tcd_soff :: u16
  tcd_attr :: u16
  tcd_doff :: u16
  tcd_citer :: u16
  tcd_csr :: u16
  tcd_biter :: u16

record MCXNEDMAState =
  mp_csr :: u32
  mp_es :: u32
  ch_grpri :: "nat \<Rightarrow> u32"
  ch :: "nat \<Rightarrow> MCXNEDMAChan"
  req_level :: "nat \<Rightarrow> bool"
  req_edge :: "nat \<Rightarrow> bool"
  req_enabled :: "nat \<Rightarrow> bool"
  dma_id :: u8
  edma_bh :: bool
  in_link :: bool
  edma_irq :: "nat irq_log"

type_synonym dma_requests = "(nat \<times> bool) list"

record 'm edma_bus =
  address_space_read :: "u32 \<Rightarrow> nat \<Rightarrow> 'm \<Rightarrow> u8 list \<times> dma_requests \<times> 'm"
  address_space_write :: "u32 \<Rightarrow> u8 list \<Rightarrow> 'm \<Rightarrow> dma_requests \<times> 'm"
  dma_memory_read :: "u32 \<Rightarrow> nat \<Rightarrow> 'm \<Rightarrow> u8 list option \<times> dma_requests \<times> 'm"

definition MCXN_EDMA_CHANNELS :: nat where "MCXN_EDMA_CHANNELS = 16"
definition MCXN_EDMA_MAX_XFER :: nat where "MCXN_EDMA_MAX_XFER = 64"
definition MCXN_EDMA_REQ_SOURCES :: nat where "MCXN_EDMA_REQ_SOURCES = 128"
definition MCXN_EDMA_MAX_LOOPS :: nat where "MCXN_EDMA_MAX_LOOPS = 0x100000"
definition CH_MUX_SRC_MASK :: u32 where "CH_MUX_SRC_MASK = 0x7F"

definition R_MP_CSR :: nat where "R_MP_CSR = 0x00"
definition R_MP_ES :: nat where "R_MP_ES = 0x04"
definition R_MP_INT :: nat where "R_MP_INT = 0x08"
definition R_MP_HRS :: nat where "R_MP_HRS = 0x0C"
definition R_CH_GRPRI :: nat where "R_CH_GRPRI = 0x100"
definition R_CH_CSR :: nat where "R_CH_CSR = 0x00"
definition R_CH_ES :: nat where "R_CH_ES = 0x04"
definition R_CH_INT :: nat where "R_CH_INT = 0x08"
definition R_CH_SBR :: nat where "R_CH_SBR = 0x0C"
definition R_CH_PRI :: nat where "R_CH_PRI = 0x10"
definition R_CH_MUX :: nat where "R_CH_MUX = 0x14"
definition R_TCD_SADDR :: nat where "R_TCD_SADDR = 0x20"
definition R_TCD_SOFF :: nat where "R_TCD_SOFF = 0x24"
definition R_TCD_ATTR :: nat where "R_TCD_ATTR = 0x26"
definition R_TCD_NBYTES :: nat where "R_TCD_NBYTES = 0x28"
definition R_TCD_SLAST :: nat where "R_TCD_SLAST = 0x2C"
definition R_TCD_DADDR :: nat where "R_TCD_DADDR = 0x30"
definition R_TCD_DOFF :: nat where "R_TCD_DOFF = 0x34"
definition R_TCD_CITER :: nat where "R_TCD_CITER = 0x36"
definition R_TCD_DLAST :: nat where "R_TCD_DLAST = 0x38"
definition R_TCD_CSR :: nat where "R_TCD_CSR = 0x3C"
definition R_TCD_BITER :: nat where "R_TCD_BITER = 0x3E"

lemmas edma_offsets = R_MP_CSR_def R_MP_ES_def R_MP_INT_def R_MP_HRS_def R_CH_GRPRI_def R_CH_CSR_def
  R_CH_ES_def R_CH_INT_def R_CH_SBR_def R_CH_PRI_def R_CH_MUX_def R_TCD_SADDR_def R_TCD_SOFF_def
  R_TCD_ATTR_def R_TCD_NBYTES_def R_TCD_SLAST_def R_TCD_DADDR_def R_TCD_DOFF_def R_TCD_CITER_def
  R_TCD_DLAST_def R_TCD_CSR_def R_TCD_BITER_def MCXN_EDMA_CHANNELS_def

abbreviation CH_ES_SGE :: u32 where "CH_ES_SGE \<equiv> flag 2"
abbreviation CH_ES_NCE :: u32 where "CH_ES_NCE \<equiv> flag 3"
abbreviation CH_ES_DOE :: u32 where "CH_ES_DOE \<equiv> flag 4"
abbreviation CH_ES_DAE :: u32 where "CH_ES_DAE \<equiv> flag 5"
abbreviation CH_ES_SOE :: u32 where "CH_ES_SOE \<equiv> flag 6"
abbreviation CH_ES_SAE :: u32 where "CH_ES_SAE \<equiv> flag 7"
abbreviation CH_ES_ERR :: u32 where "CH_ES_ERR \<equiv> flag 31"
abbreviation CH_CSR_ERQ :: u32 where "CH_CSR_ERQ \<equiv> flag 0"
abbreviation CH_CSR_EEI :: u32 where "CH_CSR_EEI \<equiv> flag 2"
abbreviation CH_CSR_DONE :: u32 where "CH_CSR_DONE \<equiv> flag 30"
abbreviation CH_INT_INT :: u32 where "CH_INT_INT \<equiv> flag 0"
abbreviation TCD_CSR_START :: u16 where "TCD_CSR_START \<equiv> flag 0"
abbreviation TCD_CSR_INTMAJOR :: u16 where "TCD_CSR_INTMAJOR \<equiv> flag 1"
abbreviation TCD_CSR_DREQ :: u16 where "TCD_CSR_DREQ \<equiv> flag 3"
abbreviation TCD_CSR_ESG :: u16 where "TCD_CSR_ESG \<equiv> flag 4"
abbreviation TCD_CSR_MAJORELINK :: u16 where "TCD_CSR_MAJORELINK \<equiv> flag 5"
abbreviation CITER_ELINK :: u16 where "CITER_ELINK \<equiv> flag 15"

definition CITER_ELINK_MASK :: u16 where "CITER_ELINK_MASK = 0x1FF"
definition CITER_MASK :: u16 where "CITER_MASK = 0x7FFF"
definition NBYTES_MASK :: u32 where "NBYTES_MASK = 0x3FFFFFFF"
definition CH_SBR_MID_MASK :: u32 where "CH_SBR_MID_MASK = 0x1F"
definition EDMA_MID_DMA0 :: u32 where "EDMA_MID_DMA0 = 6"
definition EDMA_MID_DMA1 :: u32 where "EDMA_MID_DMA1 = 7"

definition TCD_CSR_MAJORLINKCH :: "u16 \<Rightarrow> nat" where
  "TCD_CSR_MAJORLINKCH v = unat (drop_bit 8 v AND 0xF)"

definition CITER_LINKCH :: "u16 \<Rightarrow> nat" where
  "CITER_LINKCH v = unat (drop_bit 9 v AND 0xF)"

definition ATTR_SMOD :: "u16 \<Rightarrow> nat" where "ATTR_SMOD a = unat (drop_bit 11 a AND 0x1F)"
definition ATTR_DMOD :: "u16 \<Rightarrow> nat" where "ATTR_DMOD a = unat (drop_bit 3 a AND 0x1F)"
definition ATTR_SSIZE :: "u16 \<Rightarrow> nat" where "ATTR_SSIZE a = unat (drop_bit 8 a AND 0x7)"
definition ATTR_DSIZE :: "u16 \<Rightarrow> nat" where "ATTR_DSIZE a = unat (a AND 0x7)"

section \<open>Request lines\<close>

definition mcxn_edma_req :: "MCXNEDMAState \<Rightarrow> nat \<Rightarrow> bool \<Rightarrow> MCXNEDMAState" where
  "mcxn_edma_req s src level =
     (if src \<ge> MCXN_EDMA_REQ_SOURCES then s
      else s\<lparr>req_level := (req_level s)(src := level), edma_bh := edma_bh s \<or> level\<rparr>)"

definition mcxn_edma_req_enable :: "MCXNEDMAState \<Rightarrow> nat \<Rightarrow> bool \<Rightarrow> MCXNEDMAState" where
  "mcxn_edma_req_enable s src level =
     (if src \<ge> MCXN_EDMA_REQ_SOURCES then s
      else if req_enabled s src = level then s
      else s\<lparr>req_enabled := (req_enabled s)(src := level),
             edma_bh := edma_bh s \<or> level \<and> req_level s src\<rparr>)"

definition mcxn_edma_req_pulse :: "MCXNEDMAState \<Rightarrow> nat \<Rightarrow> bool \<Rightarrow> MCXNEDMAState" where
  "mcxn_edma_req_pulse s src level =
     (if src \<ge> MCXN_EDMA_REQ_SOURCES then s
      else if \<not> level then s
      else s\<lparr>req_edge := (req_edge s)(src := True), req_level := (req_level s)(src := True), edma_bh := True\<rparr>)"

text \<open>The calls made by devices during one bus access.\<close>

definition edma_deliver :: "dma_requests \<Rightarrow> MCXNEDMAState \<Rightarrow> MCXNEDMAState" where
  "edma_deliver ev s = fold (\<lambda>(src, level) s. mcxn_edma_req s src level) ev s"

section \<open>One minor loop\<close>

definition edma_advance :: "u32 \<Rightarrow> u16 \<Rightarrow> nat \<Rightarrow> u32" where
  "edma_advance addr off md =
     (if md = 0 then addr + scast off
      else (addr AND NOT (mask md)) OR ((addr + scast off) AND mask md))"

definition edma_upd :: "MCXNEDMAState \<Rightarrow> nat \<Rightarrow> (MCXNEDMAChan \<Rightarrow> MCXNEDMAChan) \<Rightarrow> MCXNEDMAState" where
  "edma_upd s n f = s\<lparr>ch := (ch s)(n := f (ch s n))\<rparr>"

definition edma_update_irq :: "MCXNEDMAState \<Rightarrow> nat \<Rightarrow> MCXNEDMAState" where
  "edma_update_irq s n = s\<lparr>edma_irq := qemu_set_irq n (tst (ch_intr (ch s n)) CH_INT_INT) (edma_irq s)\<rparr>"

text \<open>\<open>CH_ES\<close> is extended and, if the error interrupt is enabled, the interrupt raised.\<close>

definition edma_error :: "MCXNEDMAState \<Rightarrow> nat \<Rightarrow> u32 \<Rightarrow> MCXNEDMAState" where
  "edma_error s n err =
     (let s = edma_upd s n (\<lambda>c. c\<lparr>ch_es := ch_es c OR err\<rparr>)
      in if tst (ch_csr (ch s n)) CH_CSR_EEI
         then edma_update_irq (edma_upd s n (\<lambda>c. c\<lparr>ch_intr := ch_intr c OR CH_INT_INT\<rparr>)) n
         else s)"

definition tcd_errors :: "MCXNEDMAChan \<Rightarrow> u32" where
  "tcd_errors c =
     (let ssize = 2 ^ ATTR_SSIZE (tcd_attr c);
          dsize = 2 ^ ATTR_DSIZE (tcd_attr c);
          nbytes = unat (tcd_nbytes c AND NBYTES_MASK)
      in (if unat (tcd_saddr c) mod ssize \<noteq> 0 then CH_ES_SAE else 0)
         OR (if sint (tcd_soff c) mod int ssize \<noteq> 0 then CH_ES_SOE else 0)
         OR (if unat (tcd_daddr c) mod dsize \<noteq> 0 then CH_ES_DAE else 0)
         OR (if sint (tcd_doff c) mod int dsize \<noteq> 0 then CH_ES_DOE else 0)
         OR (if nbytes mod ssize \<noteq> 0 \<or> nbytes mod dsize \<noteq> 0 then CH_ES_NCE else 0)
         OR (if ssize > MCXN_EDMA_MAX_XFER \<or> dsize > MCXN_EDMA_MAX_XFER then CH_ES_NCE else 0))"

text \<open>The read and write halves of a chunk and the loop over the chunks of a minor loop.\<close>

function edma_gather ::
  "('m, 'z) edma_bus_scheme \<Rightarrow> nat \<Rightarrow> u16 \<Rightarrow> nat \<Rightarrow> nat \<Rightarrow> nat \<Rightarrow> u32 \<Rightarrow> u8 list
    \<Rightarrow> MCXNEDMAState \<Rightarrow> 'm \<Rightarrow> u32 \<times> u8 list \<times> MCXNEDMAState \<times> 'm" where
  "edma_gather B ssize soff smod chunk k saddr buf s m =
     (if k < chunk \<and> 0 < ssize then
        (case address_space_read B saddr ssize m of (bs, ev, m) \<Rightarrow>
           edma_gather B ssize soff smod chunk (k + ssize) (edma_advance saddr soff smod) (buf @ bs)
             (edma_deliver ev s) m)
      else (saddr, buf, s, m))"
  by pat_completeness auto
termination
  by (relation "measure (\<lambda>(B, ssize, soff, smod, chunk, k, _). chunk - k)") auto

function edma_scatter ::
  "('m, 'z) edma_bus_scheme \<Rightarrow> nat \<Rightarrow> u16 \<Rightarrow> nat \<Rightarrow> nat \<Rightarrow> nat \<Rightarrow> u32 \<Rightarrow> u8 list
    \<Rightarrow> MCXNEDMAState \<Rightarrow> 'm \<Rightarrow> u32 \<times> MCXNEDMAState \<times> 'm" where
  "edma_scatter B dsize doff dmod chunk k daddr buf s m =
     (if k < chunk \<and> 0 < dsize then
        (case address_space_write B daddr (take dsize (drop k buf)) m of (ev, m) \<Rightarrow>
           edma_scatter B dsize doff dmod chunk (k + dsize) (edma_advance daddr doff dmod) buf
             (edma_deliver ev s) m)
      else (daddr, s, m))"
  by pat_completeness auto
termination
  by (relation "measure (\<lambda>(B, dsize, doff, dmod, chunk, k, _). chunk - k)") auto

function edma_transfer ::
  "('m, 'z) edma_bus_scheme \<Rightarrow> MCXNEDMAChan \<Rightarrow> nat \<Rightarrow> nat \<Rightarrow> nat \<Rightarrow> u32 \<Rightarrow> u32
    \<Rightarrow> MCXNEDMAState \<Rightarrow> 'm \<Rightarrow> u32 \<times> u32 \<times> MCXNEDMAState \<times> 'm" where
  "edma_transfer B c nbytes chunk b saddr daddr s m =
     (if b < nbytes \<and> 0 < chunk then
        (case edma_gather B (2 ^ ATTR_SSIZE (tcd_attr c)) (tcd_soff c) (ATTR_SMOD (tcd_attr c)) chunk 0
                saddr [] s m of (saddr, buf, s, m) \<Rightarrow>
         case edma_scatter B (2 ^ ATTR_DSIZE (tcd_attr c)) (tcd_doff c) (ATTR_DMOD (tcd_attr c)) chunk 0
                daddr buf s m of (daddr, s, m) \<Rightarrow>
           edma_transfer B c nbytes chunk (b + chunk) saddr daddr s m)
      else (saddr, daddr, s, m))"
  by pat_completeness auto
termination
  by (relation "measure (\<lambda>(B, c, nbytes, chunk, b, _). nbytes - b)") auto

declare edma_gather.simps [simp del] edma_scatter.simps [simp del] edma_transfer.simps [simp del]

text \<open>
  \<^verbatim>\<open>edma_minor_loop\<close> up to its channel links: the configuration checks, the transfer and
  the update of the addresses and of CITER.  The outcome says how it goes on.
\<close>

datatype minor_outcome = Minor_aborted | Minor_more bool | Major_complete

definition citer_mask :: "u16 \<Rightarrow> u16" where
  "citer_mask citer = (if tst citer CITER_ELINK then CITER_ELINK_MASK else CITER_MASK)"

text \<open>
  The part after the transfer: addresses and CITER are stored, and on major completion the
  last-address adjustments are applied and CITER is reloaded.
\<close>

definition edma_minor_commit ::
  "MCXNEDMAState \<Rightarrow> nat \<Rightarrow> u32 \<Rightarrow> u32 \<Rightarrow> bool \<Rightarrow> u16 \<Rightarrow> u16 \<Rightarrow> minor_outcome \<times> MCXNEDMAState" where
  "edma_minor_commit s n saddr daddr elink cmask citer =
     (let citer = citer - 1;
          s = edma_upd s n (\<lambda>c. c\<lparr>tcd_saddr := saddr, tcd_daddr := daddr,
                tcd_citer := (tcd_citer c AND NOT cmask) OR citer\<rparr>)
      in if citer \<noteq> 0 then (Minor_more elink, s)
         else (Major_complete,
               edma_upd s n (\<lambda>c. c\<lparr>tcd_saddr := saddr + tcd_slast c,
                 tcd_daddr := (if \<not> tst (tcd_csr c) TCD_CSR_ESG then daddr + tcd_dlast c else daddr),
                 tcd_citer := tcd_biter c\<rparr>)))"

definition edma_minor_body ::
  "('m, 'z) edma_bus_scheme \<Rightarrow> MCXNEDMAState \<Rightarrow> nat \<Rightarrow> 'm \<Rightarrow> minor_outcome \<times> MCXNEDMAState \<times> 'm" where
  "edma_minor_body B s n m =
     (let c = ch s n;
          ssize = 2 ^ ATTR_SSIZE (tcd_attr c);
          dsize = 2 ^ ATTR_DSIZE (tcd_attr c) :: nat;
          nbytes = unat (tcd_nbytes c AND NBYTES_MASK);
          elink = tst (tcd_citer c) CITER_ELINK;
          cmask = citer_mask (tcd_citer c);
          citer = tcd_citer c AND cmask
      in if dsize = 0 \<or> nbytes = 0 \<or> citer = 0 then
           (Minor_aborted, edma_error s n (CH_ES_NCE OR CH_ES_ERR), m)
         else if tcd_errors c \<noteq> 0 then
           (Minor_aborted, edma_error s n (tcd_errors c OR CH_ES_ERR), m)
         else
           (case edma_transfer B c nbytes (max ssize dsize) 0 (tcd_saddr c) (tcd_daddr c) s m of
              (saddr, daddr, s, m) \<Rightarrow>
                (case edma_minor_commit s n saddr daddr elink cmask citer of (r, s) \<Rightarrow> (r, s, m))))"

lemma edma_req_in_link [simp]: "in_link (mcxn_edma_req s src l) = in_link s"
  by (simp add: mcxn_edma_req_def)

lemma edma_deliver_in_link [simp]: "in_link (edma_deliver ev s) = in_link s"
  by (induction ev arbitrary: s) (simp_all add: edma_deliver_def split_beta)

lemma edma_upd_in_link [simp]:
  "in_link (edma_upd s n f) = in_link s" "in_link (edma_update_irq s n) = in_link s"
  "in_link (edma_error s n e) = in_link s"
  by (simp_all add: edma_upd_def edma_update_irq_def edma_error_def Let_def)

text \<open>What request deliveries leave alone, a transfer leaves alone.\<close>

lemma edma_gather_frame:
  assumes "\<And>ev s. f (edma_deliver ev s) = f s"
  shows "edma_gather B ssize soff smod chunk k saddr buf s m = (a, bf, s', m') \<Longrightarrow> f s' = f s"
proof (induction B ssize soff smod chunk k saddr buf s m rule: edma_gather.induct)
  case (1 B ssize soff smod chunk k saddr buf s m)
  show ?case
  proof (cases "k < chunk \<and> 0 < ssize")
    case True
    obtain bs ev m1 where r: "address_space_read B saddr ssize m = (bs, ev, m1)" by (metis prod_cases3)
    from "1.prems" True r
    have "edma_gather B ssize soff smod chunk (k + ssize) (edma_advance saddr soff smod) (buf @ bs)
        (edma_deliver ev s) m1 = (a, bf, s', m')" by (simp add: edma_gather.simps [of B ssize soff smod chunk k])
    from "1.IH" [OF True r [symmetric] refl this] show ?thesis by (simp add: assms)
  next
    case False
    with "1.prems" show ?thesis by (auto simp: edma_gather.simps [of B ssize soff smod chunk k])
  qed
qed

lemma edma_scatter_frame:
  assumes "\<And>ev s. f (edma_deliver ev s) = f s"
  shows "edma_scatter B dsize doff dmod chunk k daddr buf s m = (a, s', m') \<Longrightarrow> f s' = f s"
proof (induction B dsize doff dmod chunk k daddr buf s m rule: edma_scatter.induct)
  case (1 B dsize doff dmod chunk k daddr buf s m)
  show ?case
  proof (cases "k < chunk \<and> 0 < dsize")
    case True
    obtain ev m1 where r: "address_space_write B daddr (take dsize (drop k buf)) m = (ev, m1)" by force
    from "1.prems" True r
    have "edma_scatter B dsize doff dmod chunk (k + dsize) (edma_advance daddr doff dmod) buf
        (edma_deliver ev s) m1 = (a, s', m')" by (simp add: edma_scatter.simps [of B dsize doff dmod chunk k])
    from "1.IH" [OF True r [symmetric] this] show ?thesis by (simp add: assms)
  next
    case False
    with "1.prems" show ?thesis by (auto simp: edma_scatter.simps [of B dsize doff dmod chunk k])
  qed
qed

lemma edma_transfer_frame:
  assumes f: "\<And>ev s. f (edma_deliver ev s) = f s"
  shows "edma_transfer B c nbytes chunk b saddr daddr s m = (a, d, s', m') \<Longrightarrow> f s' = f s"
proof (induction B c nbytes chunk b saddr daddr s m rule: edma_transfer.induct)
  case (1 B c nbytes chunk b saddr daddr s m)
  show ?case
  proof (cases "b < nbytes \<and> 0 < chunk")
    case True
    let ?g = "edma_gather B (2 ^ ATTR_SSIZE (tcd_attr c)) (tcd_soff c) (ATTR_SMOD (tcd_attr c)) chunk 0 saddr [] s m"
    obtain sa bf s1 m1 where g: "?g = (sa, bf, s1, m1)" by (metis prod_cases4)
    let ?w = "edma_scatter B (2 ^ ATTR_DSIZE (tcd_attr c)) (tcd_doff c) (ATTR_DMOD (tcd_attr c)) chunk 0 daddr bf s1 m1"
    obtain da s2 m2 where w: "?w = (da, s2, m2)" by (metis prod_cases3)
    from "1.prems" True g w have "edma_transfer B c nbytes chunk (b + chunk) sa da s2 m2 = (a, d, s', m')"
      by (simp add: edma_transfer.simps [of B c nbytes chunk b])
    from "1.IH" [OF True g [symmetric] refl refl w [symmetric] refl this]
    show ?thesis using edma_gather_frame [of f, OF f g] edma_scatter_frame [of f, OF f w] by simp
  next
    case False
    with "1.prems" show ?thesis by (auto simp: edma_transfer.simps [of B c nbytes chunk b])
  qed
qed

lemmas edma_transfer_in_link = edma_transfer_frame [of in_link, OF edma_deliver_in_link]

lemma edma_minor_commit_in_link:
  "edma_minor_commit s n saddr daddr elink cmask citer = (r, s') \<Longrightarrow> in_link s' = in_link s"
  by (auto simp: edma_minor_commit_def Let_def simp del: tst_flag split: if_splits)

lemma edma_minor_body_in_link:
  "edma_minor_body B s n m = (r, s', m') \<Longrightarrow> in_link s' = in_link s"
  by (auto simp: edma_minor_body_def Let_def simp del: tst_flag split: if_splits prod.splits
      dest!: edma_transfer_in_link edma_minor_commit_in_link)

section \<open>Linking, scatter/gather and service requests\<close>

definition edma_load_next_tcd ::
  "('m, 'z) edma_bus_scheme \<Rightarrow> MCXNEDMAState \<Rightarrow> nat \<Rightarrow> 'm \<Rightarrow> bool \<times> MCXNEDMAState \<times> 'm" where
  "edma_load_next_tcd B s n m =
     (let sga = tcd_dlast (ch s n);
          bad = (\<lambda>s. edma_upd s n (\<lambda>c. c\<lparr>ch_es := ch_es c OR (CH_ES_SGE OR CH_ES_ERR)\<rparr>))
      in if sga = 0 \<or> tst sga 0x1F then (False, bad s, m)
         else
           (case dma_memory_read B sga 32 m of
              (None, ev, m) \<Rightarrow> (False, bad (edma_deliver ev s), m)
            | (Some tcd, ev, m) \<Rightarrow>
                (True,
                 edma_upd (edma_deliver ev s) n (\<lambda>c. c\<lparr>
                   tcd_saddr := ldl_le_p tcd 0x00, tcd_soff := lduw_le_p tcd 0x04,
                   tcd_attr := lduw_le_p tcd 0x06, tcd_nbytes := ldl_le_p tcd 0x08,
                   tcd_slast := ldl_le_p tcd 0x0C, tcd_daddr := ldl_le_p tcd 0x10,
                   tcd_doff := lduw_le_p tcd 0x14, tcd_citer := lduw_le_p tcd 0x16,
                   tcd_dlast := ldl_le_p tcd 0x18, tcd_csr := lduw_le_p tcd 0x1C,
                   tcd_biter := lduw_le_p tcd 0x1E\<rparr>), m)))"

definition edma_major_done :: "MCXNEDMAState \<Rightarrow> nat \<Rightarrow> MCXNEDMAState" where
  "edma_major_done s n =
     (let s = edma_upd s n (\<lambda>c. c\<lparr>ch_csr := ch_csr c OR CH_CSR_DONE\<rparr>);
          s = (if tst (tcd_csr (ch s n)) TCD_CSR_DREQ
               then edma_upd s n (\<lambda>c. c\<lparr>ch_csr := ch_csr c AND NOT CH_CSR_ERQ\<rparr>) else s)
      in if tst (tcd_csr (ch s n)) TCD_CSR_INTMAJOR
         then edma_update_irq (edma_upd s n (\<lambda>c. c\<lparr>ch_intr := ch_intr c OR CH_INT_INT\<rparr>)) n
         else s)"

function edma_minor_loop ::
    "('m, 'z) edma_bus_scheme \<Rightarrow> MCXNEDMAState \<Rightarrow> nat \<Rightarrow> 'm \<Rightarrow> bool \<times> MCXNEDMAState \<times> 'm"
  and edma_link_channel ::
    "('m, 'z) edma_bus_scheme \<Rightarrow> MCXNEDMAState \<Rightarrow> nat \<Rightarrow> 'm \<Rightarrow> MCXNEDMAState \<times> 'm"
  and edma_run ::
    "('m, 'z) edma_bus_scheme \<Rightarrow> MCXNEDMAState \<Rightarrow> nat \<Rightarrow> 'm \<Rightarrow> MCXNEDMAState \<times> 'm" where
  "edma_minor_loop B s n m =
     (case edma_minor_body B s n m of
        (Minor_aborted, s, m) \<Rightarrow> (True, s, m)
      | (Minor_more elink, s, m) \<Rightarrow>
          (case (if elink then edma_link_channel B s (CITER_LINKCH (tcd_citer (ch s n))) m else (s, m)) of
             (s, m) \<Rightarrow> (False, s, m))
      | (Major_complete, s, m) \<Rightarrow>
          (case (if tst (tcd_csr (ch s n)) TCD_CSR_MAJORELINK
                 then edma_link_channel B s (TCD_CSR_MAJORLINKCH (tcd_csr (ch s n))) m else (s, m)) of
             (s, m) \<Rightarrow>
               (case (if tst (tcd_csr (ch s n)) TCD_CSR_ESG then snd (edma_load_next_tcd B s n m)
                      else (s, m)) of
                  (s, m) \<Rightarrow> (True, edma_major_done s n, m))))"
| "edma_link_channel B s link m =
     (if link \<ge> MCXN_EDMA_CHANNELS \<or> in_link s then (s, m)
      else
        (case edma_run B (edma_upd (s\<lparr>in_link := True\<rparr>) link
                            (\<lambda>c. c\<lparr>ch_csr := ch_csr c AND NOT CH_CSR_DONE\<rparr>)) link m of
           (s, m) \<Rightarrow> (s\<lparr>in_link := False\<rparr>, m)))"
| "edma_run B s n m =
     (case edma_minor_loop B s n m of
        (_, s, m) \<Rightarrow> (edma_upd s n (\<lambda>c. c\<lparr>tcd_csr := tcd_csr c AND NOT TCD_CSR_START\<rparr>), m))"
  by pat_completeness auto
termination
  by (relation "measure (\<lambda>x. case x of
        Inl (B, s, n, m) \<Rightarrow> (if in_link s then 0 else 3) + 1
      | Inr (Inl (B, s, n, m)) \<Rightarrow> (if in_link s then 0 else 3)
      | Inr (Inr (B, s, n, m)) \<Rightarrow> (if in_link s then 0 else 3) + 2)")
     (auto dest: edma_minor_body_in_link [OF sym])

declare edma_minor_loop.simps [simp del] edma_link_channel.simps [simp del] edma_run.simps [simp del]

section \<open>Registers\<close>

definition edma_mp_int :: "MCXNEDMAState \<Rightarrow> u32" where
  "edma_mp_int s =
     fold (\<lambda>n r. if tst (ch_intr (ch s n)) CH_INT_INT then r OR flag n else r) [0..<MCXN_EDMA_CHANNELS] 0"

definition edma_ch_read :: "MCXNEDMAChan \<Rightarrow> nat \<Rightarrow> u64" where
  "edma_ch_read c off =
     (if off = R_CH_CSR then ucast (ch_csr c)
      else if off = R_CH_ES then ucast (ch_es c)
      else if off = R_CH_INT then ucast (ch_intr c)
      else if off = R_CH_SBR then ucast (ch_sbr c)
      else if off = R_CH_PRI then ucast (ch_pri c)
      else if off = R_CH_MUX then ucast (ch_mux c)
      else if off = R_TCD_SADDR then ucast (tcd_saddr c)
      else if off = R_TCD_SOFF then ucast (tcd_soff c)
      else if off = R_TCD_ATTR then ucast (tcd_attr c)
      else if off = R_TCD_NBYTES then ucast (tcd_nbytes c)
      else if off = R_TCD_SLAST then ucast (tcd_slast c)
      else if off = R_TCD_DADDR then ucast (tcd_daddr c)
      else if off = R_TCD_DOFF then ucast (tcd_doff c)
      else if off = R_TCD_CITER then ucast (tcd_citer c)
      else if off = R_TCD_DLAST then ucast (tcd_dlast c)
      else if off = R_TCD_CSR then ucast (tcd_csr c)
      else if off = R_TCD_BITER then ucast (tcd_biter c)
      else 0)"

definition edma_read :: "MCXNEDMAState \<Rightarrow> nat \<Rightarrow> u64" where
  "edma_read s off =
     (if off < 0x1000 then
        (if off = R_MP_CSR then ucast (mp_csr s)
         else if off = R_MP_ES then ucast (mp_es s)
         else if off = R_MP_INT then ucast (edma_mp_int s)
         else if off = R_MP_HRS then 0
         else if off \<ge> R_CH_GRPRI \<and> off < R_CH_GRPRI + 4 * MCXN_EDMA_CHANNELS
              then ucast (ch_grpri s ((off - R_CH_GRPRI) div 4))
         else 0)
      else if off div 0x1000 - 1 \<ge> MCXN_EDMA_CHANNELS then 0
      else edma_ch_read (ch s (off div 0x1000 - 1)) (off mod 0x1000))"

text \<open>The registers of a channel whose write only stores a value.\<close>

definition edma_ch_store :: "MCXNEDMAChan \<Rightarrow> nat \<Rightarrow> u32 \<Rightarrow> MCXNEDMAChan" where
  "edma_ch_store c off v =
     (if off = R_CH_CSR then
        (let c = (if tst v CH_CSR_DONE then c\<lparr>ch_csr := ch_csr c AND NOT CH_CSR_DONE\<rparr> else c)
         in c\<lparr>ch_csr := (ch_csr c AND CH_CSR_DONE) OR (v AND NOT CH_CSR_DONE)\<rparr>)
      else if off = R_CH_ES then c\<lparr>ch_es := ch_es c AND NOT v\<rparr>
      else if off = R_CH_SBR then c\<lparr>ch_sbr := v\<rparr>
      else if off = R_CH_PRI then c\<lparr>ch_pri := v\<rparr>
      else if off = R_CH_MUX then c\<lparr>ch_mux := v\<rparr>
      else if off = R_TCD_SADDR then c\<lparr>tcd_saddr := v\<rparr>
      else if off = R_TCD_SOFF then c\<lparr>tcd_soff := ucast v\<rparr>
      else if off = R_TCD_ATTR then c\<lparr>tcd_attr := ucast v\<rparr>
      else if off = R_TCD_NBYTES then c\<lparr>tcd_nbytes := v\<rparr>
      else if off = R_TCD_SLAST then c\<lparr>tcd_slast := v\<rparr>
      else if off = R_TCD_DADDR then c\<lparr>tcd_daddr := v\<rparr>
      else if off = R_TCD_DOFF then c\<lparr>tcd_doff := ucast v\<rparr>
      else if off = R_TCD_CITER then c\<lparr>tcd_citer := ucast v\<rparr>
      else if off = R_TCD_DLAST then c\<lparr>tcd_dlast := v\<rparr>
      else if off = R_TCD_BITER then c\<lparr>tcd_biter := ucast v\<rparr>
      else c)"

definition edma_write ::
  "('m, 'z) edma_bus_scheme \<Rightarrow> MCXNEDMAState \<Rightarrow> nat \<Rightarrow> u64 \<Rightarrow> 'm \<Rightarrow> MCXNEDMAState \<times> 'm" where
  "edma_write B s off val m =
     (let v = ucast val :: u32
      in if off < 0x1000 then
           (if off = R_MP_CSR then (s\<lparr>mp_csr := v\<rparr>, m)
            else if off \<ge> R_CH_GRPRI \<and> off < R_CH_GRPRI + 4 * MCXN_EDMA_CHANNELS
                 then (s\<lparr>ch_grpri := (ch_grpri s)((off - R_CH_GRPRI) div 4 := v)\<rparr>, m)
            else (s, m))
         else
           (let n = off div 0x1000 - 1; r = off mod 0x1000
            in if n \<ge> MCXN_EDMA_CHANNELS then (s, m)
               else if r = R_CH_INT then
                 (if tst v CH_INT_INT
                  then (edma_update_irq (edma_upd s n (\<lambda>c. c\<lparr>ch_intr := ch_intr c AND NOT CH_INT_INT\<rparr>)) n, m)
                  else (s, m))
               else if r = R_TCD_CSR then
                 (let s = edma_upd s n (\<lambda>c. c\<lparr>tcd_csr := ucast v\<rparr>)
                  in if tst v (flag 0)
                     then edma_run B (edma_upd s n (\<lambda>c. c\<lparr>ch_csr := ch_csr c AND NOT CH_CSR_DONE\<rparr>)) n m
                     else (s, m))
               else (edma_upd s n (\<lambda>c. edma_ch_store c r v), m)))"

section \<open>The bottom half\<close>

text \<open>Whether channel \<open>n\<close> is to be served: enabled, with a source that asks and is not gated.\<close>

definition edma_src :: "MCXNEDMAState \<Rightarrow> nat \<Rightarrow> nat" where
  "edma_src s n = unat (ch_mux (ch s n) AND CH_MUX_SRC_MASK)"

definition edma_wanted :: "MCXNEDMAState \<Rightarrow> nat \<Rightarrow> bool" where
  "edma_wanted s n \<longleftrightarrow> tst (ch_csr (ch s n)) CH_CSR_ERQ \<and> edma_src s n \<noteq> 0
     \<and> req_level s (edma_src s n) \<and> req_enabled s (edma_src s n)"

definition edma_serve ::
  "('m, 'z) edma_bus_scheme \<Rightarrow> nat \<Rightarrow> bool \<times> MCXNEDMAState \<times> 'm \<Rightarrow> bool \<times> MCXNEDMAState \<times> 'm" where
  "edma_serve B n = (\<lambda>(progress, s, m).
     if edma_wanted s n then
       (let src = edma_src s n
        in case edma_minor_loop B (edma_upd s n (\<lambda>c. c\<lparr>ch_csr := ch_csr c AND NOT CH_CSR_DONE\<rparr>)) n m of
             (_, s, m) \<Rightarrow>
               (True, (if req_edge s src then s\<lparr>req_level := (req_level s)(src := False)\<rparr> else s), m))
     else (progress, s, m))"

definition edma_pass ::
  "('m, 'z) edma_bus_scheme \<Rightarrow> MCXNEDMAState \<Rightarrow> 'm \<Rightarrow> bool \<times> MCXNEDMAState \<times> 'm" where
  "edma_pass B s m = fold (edma_serve B) [0..<MCXN_EDMA_CHANNELS] (False, s, m)"

function edma_drain ::
  "('m, 'z) edma_bus_scheme \<Rightarrow> nat \<Rightarrow> MCXNEDMAState \<Rightarrow> 'm \<Rightarrow> MCXNEDMAState \<times> 'm" where
  "edma_drain B guard s m =
     (case edma_pass B s m of
        (progress, s, m) \<Rightarrow>
          if progress \<and> guard + 1 < MCXN_EDMA_MAX_LOOPS then edma_drain B (guard + 1) s m else (s, m))"
  by pat_completeness auto
termination
  by (relation "measure (\<lambda>(B, guard, s, m). MCXN_EDMA_MAX_LOOPS - guard)") auto

declare edma_drain.simps [simp del]

definition edma_drop_pulses :: "MCXNEDMAState \<Rightarrow> MCXNEDMAState" where
  "edma_drop_pulses s =
     s\<lparr>req_level := (\<lambda>src. if src < MCXN_EDMA_REQ_SOURCES \<and> req_edge s src then False else req_level s src)\<rparr>"

definition mcxn_edma_service_bh ::
  "('m, 'z) edma_bus_scheme \<Rightarrow> MCXNEDMAState \<Rightarrow> 'm \<Rightarrow> MCXNEDMAState \<times> 'm" where
  "mcxn_edma_service_bh B s m =
     (case edma_drain B 0 s m of (s, m) \<Rightarrow> (edma_drop_pulses s, m))"

text \<open>The main loop runs a scheduled bottom half and forgets the schedule first.\<close>

definition edma_bh_poll ::
  "('m, 'z) edma_bus_scheme \<Rightarrow> MCXNEDMAState \<Rightarrow> 'm \<Rightarrow> MCXNEDMAState \<times> 'm" where
  "edma_bh_poll B s m =
     (if edma_bh s then mcxn_edma_service_bh B (s\<lparr>edma_bh := False\<rparr>) m else (s, m))"

section \<open>Reset and migration\<close>

definition edma_chan_zero :: MCXNEDMAChan where
  "edma_chan_zero = \<lparr>ch_csr = 0, ch_es = 0, ch_intr = 0, ch_sbr = 0, ch_pri = 0, ch_mux = 0, tcd_saddr = 0,
     tcd_slast = 0, tcd_daddr = 0, tcd_dlast = 0, tcd_nbytes = 0, tcd_soff = 0, tcd_attr = 0, tcd_doff = 0,
     tcd_citer = 0, tcd_csr = 0, tcd_biter = 0\<rparr>"

definition mcxn_edma_reset :: "MCXNEDMAState \<Rightarrow> MCXNEDMAState" where
  "mcxn_edma_reset s =
     s\<lparr>mp_csr := 0x00310000, mp_es := 0, ch_grpri := (\<lambda>_. 0),
       ch := (\<lambda>_. edma_chan_zero
         \<lparr>ch_sbr := (if dma_id s \<noteq> 0 then EDMA_MID_DMA1 else EDMA_MID_DMA0) AND CH_SBR_MID_MASK\<rparr>),
       req_level := (\<lambda>_. False), req_edge := (\<lambda>_. False), req_enabled := (\<lambda>_. True)\<rparr>"

definition mcxn_edma_post_load :: "MCXNEDMAState \<Rightarrow> MCXNEDMAState" where
  "mcxn_edma_post_load s =
     (let s = fold (\<lambda>n s. edma_update_irq s n) [0..<MCXN_EDMA_CHANNELS] s
      in if list_ex (\<lambda>n. req_level s n \<and> req_enabled s n) [0..<MCXN_EDMA_REQ_SOURCES]
         then s\<lparr>edma_bh := True\<rparr> else s)"

section \<open>What a service request leaves alone\<close>

lemma edma_deliver_fields [simp]:
  "ch (edma_deliver ev s) = ch s" "edma_irq (edma_deliver ev s) = edma_irq s"
  "req_edge (edma_deliver ev s) = req_edge s" "req_enabled (edma_deliver ev s) = req_enabled s"
  by (induction ev arbitrary: s) (simp_all add: edma_deliver_def split_beta mcxn_edma_req_def)

lemma edma_deliver_Nil [simp]: "edma_deliver [] s = s"
  by (simp add: edma_deliver_def)

lemma edma_transfer_fields:
  assumes "edma_transfer B c nbytes chunk b saddr daddr s m = (a, d, s', m')"
  shows "ch s' = ch s" "edma_irq s' = edma_irq s" "req_edge s' = req_edge s" "req_enabled s' = req_enabled s"
  using edma_transfer_frame [of ch, OF _ assms] edma_transfer_frame [of edma_irq, OF _ assms]
    edma_transfer_frame [of req_edge, OF _ assms] edma_transfer_frame [of req_enabled, OF _ assms] by simp_all

lemma edma_upd_fields [simp]:
  "ch (edma_upd s n f) k = (if k = n then f (ch s n) else ch s k)" "edma_irq (edma_upd s n f) = edma_irq s"
  "req_level (edma_upd s n f) = req_level s" "req_edge (edma_upd s n f) = req_edge s"
  "req_enabled (edma_upd s n f) = req_enabled s" "edma_bh (edma_upd s n f) = edma_bh s"
  by (simp_all add: edma_upd_def)

lemma edma_update_irq_fields [simp]:
  "ch (edma_update_irq s n) = ch s" "req_level (edma_update_irq s n) = req_level s"
  "req_edge (edma_update_irq s n) = req_edge s" "req_enabled (edma_update_irq s n) = req_enabled s"
  "edma_irq (edma_update_irq s n) = qemu_set_irq n (bit (ch_intr (ch s n)) 0) (edma_irq s)"
  "edma_bh (edma_update_irq s n) = edma_bh s"
  by (simp_all add: edma_update_irq_def)

text \<open>Only the channels of \<open>K\<close> may differ, and the request gates are the same.\<close>

definition edma_only :: "nat set \<Rightarrow> MCXNEDMAState \<Rightarrow> MCXNEDMAState \<Rightarrow> bool" where
  "edma_only K s s' \<longleftrightarrow> (\<forall>k. k \<notin> K \<longrightarrow> ch s' k = ch s k) \<and> req_edge s' = req_edge s
     \<and> req_enabled s' = req_enabled s \<and> in_link s' = in_link s"

lemma edma_only_refl [simp]: "edma_only K s s"
  by (simp add: edma_only_def)

lemma edma_only_trans: "edma_only K s t \<Longrightarrow> edma_only L t u \<Longrightarrow> edma_only (K \<union> L) s u"
  by (auto simp: edma_only_def)

lemma edma_only_mono: "edma_only K s t \<Longrightarrow> K \<subseteq> L \<Longrightarrow> edma_only L s t"
  by (auto simp: edma_only_def)

lemma edma_only_ops [intro!]:
  "edma_only K s t \<Longrightarrow> n \<in> K \<Longrightarrow> edma_only K s (edma_upd t n f)"
  "edma_only K s t \<Longrightarrow> edma_only K s (edma_update_irq t n)"
  "edma_only K s t \<Longrightarrow> edma_only K s (edma_deliver ev t)"
  by (auto simp: edma_only_def)

lemma edma_error_only: "edma_only {n} s (edma_error s n e)"
  by (auto simp: edma_error_def Let_def)

lemma edma_transfer_only:
  "edma_transfer B c nbytes chunk b saddr daddr s m = (a, d, s', m') \<Longrightarrow> edma_only {n} s s'"
  using edma_transfer_fields edma_transfer_in_link by (fastforce simp: edma_only_def)

lemma edma_minor_commit_only:
  "edma_minor_commit s n saddr daddr elink cmask citer = (r, s') \<Longrightarrow> edma_only {n} s s'"
  by (auto simp: edma_minor_commit_def Let_def split: if_splits)

lemma edma_minor_body_only:
  assumes "edma_minor_body B s n m = (r, s', m')"
  shows "edma_only {n} s s'"
proof -
  let ?c = "ch s n"
  let ?tr = "edma_transfer B ?c (unat (tcd_nbytes ?c AND NBYTES_MASK))
     (max (2 ^ ATTR_SSIZE (tcd_attr ?c)) (2 ^ ATTR_DSIZE (tcd_attr ?c))) 0 (tcd_saddr ?c) (tcd_daddr ?c) s m"
  obtain a d s1 m1 where tr: "?tr = (a, d, s1, m1)" by (metis prod_cases4)
  obtain r2 s2 where cm: "edma_minor_commit s1 n a d (tst (tcd_citer ?c) CITER_ELINK)
      (citer_mask (tcd_citer ?c)) (tcd_citer ?c AND citer_mask (tcd_citer ?c)) = (r2, s2)" by force
  have "edma_only {n} s s2"
    using edma_only_trans [OF edma_transfer_only [OF tr, of n] edma_minor_commit_only [OF cm]] by simp
  with assms show ?thesis
    by (auto simp: edma_minor_body_def Let_def tr cm edma_error_only simp del: tst_flag split: if_splits)
qed

lemma edma_load_next_tcd_only:
  "edma_only {n} s (fst (snd (edma_load_next_tcd B s n m)))"
  by (auto simp: edma_load_next_tcd_def Let_def split: prod.splits option.splits)

lemma edma_major_done_only: "edma_only K s t \<Longrightarrow> n \<in> K \<Longrightarrow> edma_only K s (edma_major_done t n)"
  by (auto simp: edma_major_done_def Let_def)

text \<open>Inside a link no further channel is started, so a minor loop stays on its channel.\<close>

lemma edma_link_blocked [simp]: "in_link s \<Longrightarrow> edma_link_channel B s l m = (s, m)"
  by (simp add: edma_link_channel.simps)

text \<open>The tail of a minor loop once its link has been made.\<close>

lemma edma_minor_loop_only:
  assumes link: "\<And>s l m s' m'. edma_link_channel B s l m = (s', m') \<Longrightarrow> in_link s = b \<Longrightarrow> edma_only (K l) s s'"
    and "in_link s = b" and run: "edma_minor_loop B s n m = (r, s', m')"
  shows "\<exists>l. edma_only (insert n (K l)) s s'"
proof -
  obtain o1 s1 m1 where body: "edma_minor_body B s n m = (o1, s1, m1)" by (metis prod_cases3)
  have only1: "edma_only {n} s s1" using edma_minor_body_only [OF body] .
  then have b1: "in_link s1 = b" using assms(2) by (simp add: edma_only_def)
  have linked: "edma_only (insert n (K l)) s s2"
    if "(if q then edma_link_channel B s1 l m1 else (s1, m1)) = (s2, m2)" for q l s2 m2
  proof (cases q)
    case True
    then have "edma_only (K l) s1 s2" using that link b1 by simp
    from edma_only_trans [OF only1 this] show ?thesis by simp
  next
    case False
    then show ?thesis using that only1 edma_only_mono by fastforce
  qed
  have loaded: "edma_only (insert n (K l)) s (fst (snd (edma_load_next_tcd B t n m)))"
    if "edma_only (insert n (K l)) s t" for t l m
    using edma_only_trans [OF that edma_load_next_tcd_only [of n t B m]] by simp
  show ?thesis
  proof (cases o1)
    case Minor_aborted
    then show ?thesis using run only1 edma_only_mono [OF only1, of "insert n (K 0)"]
      by (auto simp: edma_minor_loop.simps [of B s] body)
  next
    case (Minor_more e)
    then have "(if e then edma_link_channel B s1 (CITER_LINKCH (tcd_citer (ch s1 n))) m1 else (s1, m1)) = (s', m')"
      using run by (auto simp: edma_minor_loop.simps [of B s] body split: prod.splits)
    from linked [OF this] show ?thesis by blast
  next
    case Major_complete
    let ?l = "TCD_CSR_MAJORLINKCH (tcd_csr (ch s1 n))"
    obtain s2 m2 where l: "(if tst (tcd_csr (ch s1 n)) TCD_CSR_MAJORELINK
        then edma_link_channel B s1 ?l m1 else (s1, m1)) = (s2, m2)" by force
    obtain s3 m3 where g: "(if tst (tcd_csr (ch s2 n)) TCD_CSR_ESG
        then snd (edma_load_next_tcd B s2 n m2) else (s2, m2)) = (s3, m3)" by force
    have "s' = edma_major_done s3 n"
      using run Major_complete l g by (simp add: edma_minor_loop.simps [of B s] body del: tst_flag)
    moreover have "edma_only (insert n (K ?l)) s s3"
      using g linked [OF l] loaded [OF linked [OF l], of m2] by (auto simp del: tst_flag split: if_splits)
    ultimately show ?thesis using edma_major_done_only by blast
  qed
qed

lemma edma_minor_loop_in_link:
  assumes "in_link s" and "edma_minor_loop B s n m = (r, s', m')"
  shows "edma_only {n} s s'"
  using edma_minor_loop_only [of B True "\<lambda>_. {}", OF _ _ assms(2)] assms(1) by auto

lemma edma_run_in_link:
  assumes "in_link s" and "edma_run B s n m = (s', m')"
  shows "edma_only {n} s s'"
proof -
  obtain r s1 m1 where r: "edma_minor_loop B s n m = (r, s1, m1)" by (metis prod_cases3)
  from edma_minor_loop_in_link [OF assms(1) this] assms(2) show ?thesis
    by (auto simp: edma_run.simps r)
qed

lemma edma_link_channel_only:
  assumes "\<not> in_link s" and "edma_link_channel B s l m = (s', m')"
  shows "edma_only {l} s s'"
proof (cases "l \<ge> MCXN_EDMA_CHANNELS")
  case True
  then show ?thesis using assms by (simp add: edma_link_channel.simps)
next
  case False
  let ?t = "edma_upd (s\<lparr>in_link := True\<rparr>) l (\<lambda>c. c\<lparr>ch_csr := ch_csr c AND NOT CH_CSR_DONE\<rparr>)"
  obtain s1 m1 where r: "edma_run B ?t l m = (s1, m1)" by force
  have "edma_only {l} ?t s1" by (rule edma_run_in_link [OF _ r]) (simp add: edma_upd_def)
  moreover have "s' = s1\<lparr>in_link := False\<rparr>"
    using assms r False by (simp add: edma_link_channel.simps)
  ultimately show ?thesis using assms(1) by (auto simp: edma_only_def edma_upd_def)
qed

lemma edma_minor_loop_two:
  assumes "edma_minor_loop B s n m = (r, s', m')"
  shows "\<exists>l. edma_only {n, l} s s'"
proof (cases "in_link s")
  case True
  from edma_only_mono [OF edma_minor_loop_in_link [OF True assms]] show ?thesis by blast
next
  case False
  then show ?thesis
    by (intro edma_minor_loop_only [of B False "\<lambda>l. {l}", OF _ _ assms]) (auto dest: edma_link_channel_only)
qed

lemma edma_run_only:
  assumes "edma_run B s n m = (s', m')"
  shows "\<exists>l. edma_only {n, l} s s'"
proof -
  obtain r s1 m1 where r: "edma_minor_loop B s n m = (r, s1, m1)" by (metis prod_cases3)
  from edma_minor_loop_two [OF this] assms show ?thesis by (auto simp: edma_run.simps r)
qed

section \<open>Copying between memories\<close>

definition bytes_at :: "(u32 \<Rightarrow> u8) \<Rightarrow> u32 \<Rightarrow> nat \<Rightarrow> u8 list" where
  "bytes_at f a n = map (\<lambda>i. f (a + of_nat i)) [0..<n]"

definition mem_store :: "(u32 \<Rightarrow> u8) \<Rightarrow> u32 \<Rightarrow> u8 list \<Rightarrow> u32 \<Rightarrow> u8" where
  "mem_store f a bs = (\<lambda>x. if unat (x - a) < length bs then bs ! unat (x - a) else f x)"

lemma length_bytes_at [simp]: "length (bytes_at f a n) = n"
  by (simp add: bytes_at_def)

lemma bytes_at_0 [simp]: "bytes_at f a 0 = []"
  by (simp add: bytes_at_def)

lemma bytes_at_add: "bytes_at f a (m + n) = bytes_at f a m @ bytes_at f (a + of_nat m) n"
  by (rule nth_equalityI) (auto simp: bytes_at_def nth_append algebra_simps simp flip: of_nat_add)

lemma mem_store_Nil [simp]: "mem_store f a [] = f"
  by (simp add: mem_store_def)

lemma mem_store_append:
  assumes "length xs + length ys \<le> 2 ^ 32"
  shows "mem_store (mem_store f a xs) (a + of_nat (length xs)) ys = mem_store f a (xs @ ys)"
proof
  fix x
  define y where "y = x - a"
  have eq: "x - (a + of_nat (length xs)) = y - of_nat (length xs)" by (simp add: y_def)
  have w: "unat (y - of_nat (length xs)) =
      (if length xs \<le> unat y then unat y - length xs else unat y + 2 ^ 32 - length xs)"
    if "length xs < 2 ^ 32"
    using that by (simp add: unat_sub_if_size word_size unat_of_nat)
  have "unat y < 2 ^ 32" using unsigned_less [where ?'a = nat, of y] by simp
  then show "mem_store (mem_store f a xs) (a + of_nat (length xs)) ys x = mem_store f a (xs @ ys) x"
    using assms w unfolding mem_store_def eq y_def [symmetric]
    by (cases "ys = []") (auto simp: nth_append)
qed

lemma bytes_at_store_other:
  assumes "\<And>i. i < n \<Longrightarrow> length bs \<le> unat (a + of_nat i - d)"
  shows "bytes_at (mem_store f d bs) a n = bytes_at f a n"
  using assms by (auto simp: bytes_at_def mem_store_def not_less [symmetric])

lemma bytes_at_store_same:
  assumes "length bs < 2 ^ 32"
  shows "bytes_at (mem_store f a bs) a (length bs) = bs"
  using assms by (intro nth_equalityI) (simp_all add: bytes_at_def mem_store_def unat_of_nat)

lemma scast_of_nat16: "n < 2 ^ 15 \<Longrightarrow> (scast (of_nat n :: u16) :: u32) = of_nat n"
proof -
  assume "n < 2 ^ 15"
  then have "sint (of_nat n :: u16) = int n"
    by (simp add: signed_of_nat signed_take_bit_int_eq_self)
  then show ?thesis by (simp add: scast_eq)
qed

text \<open>
  A bus on which certain address ranges behave as memory: accesses there raise no
  requests, a read returns the stored bytes and a write replaces them and nothing else.
\<close>

locale ram_bus =
  fixes B :: "('m, 'z) edma_bus_scheme"
    and mem :: "'m \<Rightarrow> u32 \<Rightarrow> u8"
    and ram :: "u32 \<Rightarrow> nat \<Rightarrow> bool"
  assumes ram_part: "ram a n \<Longrightarrow> i + k \<le> n \<Longrightarrow> ram (a + of_nat i) k"
    and ram_read: "ram a n \<Longrightarrow> address_space_read B a n m = (bytes_at (mem m) a n, [], m)"
    and ram_write: "ram a (length bs) \<Longrightarrow> \<exists>m'. address_space_write B a bs m = ([], m') \<and>
           mem m' = mem_store (mem m) a bs"
begin

lemma gather_ram:
  assumes "ram a (j * wd)" and "0 < wd" and "soff = of_nat wd" and "wd < 2 ^ 15"
    and "chunk = k + j * wd"
  shows "edma_gather B wd soff 0 chunk k a buf s m
       = (a + of_nat (j * wd), buf @ bytes_at (mem m) a (j * wd), s, m)"
  using assms
proof (induction j arbitrary: k a buf)
  case 0
  then show ?case by (simp add: edma_gather.simps)
next
  case (Suc j)
  note off = scast_of_nat16 [OF Suc.prems(4)]
  have "ram a wd" using ram_part [OF Suc.prems(1), of 0 wd] by simp
  moreover have "ram (a + of_nat wd) (j * wd)" using ram_part [OF Suc.prems(1), of wd "j * wd"] by simp
  ultimately show ?case
    using Suc.IH [of "a + of_nat wd" "k + wd" "buf @ bytes_at (mem m) a wd"] Suc.prems
    by (subst edma_gather.simps) (simp add: ram_read edma_advance_def off bytes_at_add)
qed

lemma scatter_ram:
  assumes "ram a (j * wd)" and "0 < wd" and "doff = of_nat wd" and "wd < 2 ^ 15"
    and "chunk = k + j * wd" and "length buf = chunk" and "chunk \<le> 2 ^ 32"
  shows "\<exists>m'. edma_scatter B wd doff 0 chunk k a buf s m = (a + of_nat (j * wd), s, m')
       \<and> mem m' = mem_store (mem m) a (drop k buf)"
  using assms
proof (induction j arbitrary: k a m)
  case 0
  then show ?case by (simp add: edma_scatter.simps)
next
  case (Suc j)
  note off = scast_of_nat16 [OF Suc.prems(4)]
  let ?x = "take wd (drop k buf)"
  have len: "length ?x = wd" using Suc.prems by simp
  have "ram a (length ?x)" using ram_part [OF Suc.prems(1), of 0 wd] len by simp
  then obtain m1 where m1: "address_space_write B a ?x m = ([], m1)" "mem m1 = mem_store (mem m) a ?x"
    using ram_write by blast
  have "ram (a + of_nat wd) (j * wd)" using ram_part [OF Suc.prems(1), of wd "j * wd"] by simp
  then obtain m' where m': "edma_scatter B wd doff 0 chunk (k + wd) (a + of_nat wd) buf s m1
        = (a + of_nat wd + of_nat (j * wd), s, m')"
      "mem m' = mem_store (mem m1) (a + of_nat wd) (drop (k + wd) buf)"
    using Suc.IH [of "a + of_nat wd" "k + wd" m1] Suc.prems by auto
  have "?x @ drop (k + wd) buf = drop k buf" by (metis append_take_drop_id drop_drop add.commute)
  then have "mem m' = mem_store (mem m) a (drop k buf)"
    using mem_store_append [of ?x "drop (k + wd) buf" "mem m" a] len m'(2) m1(2) Suc.prems by simp
  moreover have "edma_scatter B wd doff 0 chunk k a buf s m = (a + of_nat (Suc j * wd), s, m')"
    using Suc.prems m1(1) m'(1) by (subst edma_scatter.simps) (simp add: edma_advance_def off)
  ultimately show ?case by blast
qed

text \<open>
  The chunks of a contiguous transfer: after the first \<open>b\<close> bytes, with the source outside
  the destination, the rest of the source is still what it was.
\<close>

lemma transfer_ram:
  fixes c :: MCXNEDMAChan
  defines "ss \<equiv> 2 ^ ATTR_SSIZE (tcd_attr c)" and "ds \<equiv> 2 ^ ATTR_DSIZE (tcd_attr c)"
  assumes "ram src n" and "ram dst n" and "n < 2 ^ 32"
    and "tcd_soff c = of_nat ss" and "tcd_doff c = of_nat ds" and "ss < 2 ^ 15" and "ds < 2 ^ 15"
    and "ATTR_SMOD (tcd_attr c) = 0" and "ATTR_DMOD (tcd_attr c) = 0"
    and "\<And>i. i < n \<Longrightarrow> n \<le> unat (src + of_nat i - dst)"
    and "n = b + j * max ss ds" and "mem m = mem_store f dst (bytes_at f src b)"
  shows "\<exists>m'. edma_transfer B c n (max ss ds) b (src + of_nat b) (dst + of_nat b) s m
           = (src + of_nat n, dst + of_nat n, s, m')
       \<and> mem m' = mem_store f dst (bytes_at f src n)"
  using assms(13,14)
proof (induction j arbitrary: b m)
  case 0
  then show ?case by (simp add: edma_transfer.simps)
next
  case (Suc j)
  let ?k = "max ss ds"
  have pos: "0 < ss" "0 < ds" by (simp_all add: ss_def ds_def)
  obtain x y where x: "?k = x * ss" and y: "?k = y * ds"
  proof -
    have "ss dvd ?k" "ds dvd ?k" unfolding ss_def ds_def max_def by (auto simp: le_imp_power_dvd power_increasing_iff)
    then show ?thesis using that by (metis dvdE mult.commute)
  qed
  have rs: "ram (src + of_nat b) (x * ss)" and rd: "ram (dst + of_nat b) (y * ds)"
    using ram_part [OF assms(3), of b ?k] ram_part [OF assms(4), of b ?k] Suc.prems(1) x y by simp_all
  let ?buf = "bytes_at f (src + of_nat b) ?k"
  have "bytes_at (mem m) (src + of_nat b) ?k = ?buf"
    unfolding Suc.prems(2)
  proof (rule bytes_at_store_other)
    fix i assume "i < ?k"
    then have "n \<le> unat (src + of_nat (b + i) - dst)" using Suc.prems(1) by (intro assms(12)) simp
    then show "length (bytes_at f src b) \<le> unat (src + of_nat b + of_nat i - dst)"
      using Suc.prems(1) by (simp add: add.assoc)
  qed
  then have g: "edma_gather B ss (tcd_soff c) 0 ?k 0 (src + of_nat b) [] s m
      = (src + of_nat b + of_nat ?k, ?buf, s, m)"
    using gather_ram [OF rs pos(1) assms(6) assms(8), of ?k 0 "[]" s m] x by simp
  obtain m1 where w: "edma_scatter B ds (tcd_doff c) 0 ?k 0 (dst + of_nat b) ?buf s m
      = (dst + of_nat b + of_nat ?k, s, m1)" "mem m1 = mem_store (mem m) (dst + of_nat b) ?buf"
    using scatter_ram [OF rd pos(2) assms(7) assms(9), of ?k 0 ?buf s m] y Suc.prems(1) assms(5) by auto
  have "mem m1 = mem_store f dst (bytes_at f src (b + ?k))"
    using w(2) Suc.prems mem_store_append [of "bytes_at f src b" ?buf f dst] assms(5)
    by (simp add: bytes_at_add)
  then obtain m' where "edma_transfer B c n ?k (b + ?k) (src + of_nat (b + ?k)) (dst + of_nat (b + ?k)) s m1
        = (src + of_nat n, dst + of_nat n, s, m')" "mem m' = mem_store f dst (bytes_at f src n)"
    using Suc.IH [of "b + ?k" m1] Suc.prems(1) by auto
  then show ?case
    using g w(1) Suc.prems(1) pos
    by (subst edma_transfer.simps)
       (simp add: ss_def [symmetric] ds_def [symmetric] assms(10,11) add.assoc)
qed

end

section \<open>Descriptors the engine accepts\<close>

definition tcd_count :: "MCXNEDMAChan \<Rightarrow> u16" where
  "tcd_count c = tcd_citer c AND citer_mask (tcd_citer c)"

definition tcd_length :: "MCXNEDMAChan \<Rightarrow> nat" where
  "tcd_length c = unat (tcd_nbytes c AND NBYTES_MASK)"

definition tcd_valid :: "MCXNEDMAChan \<Rightarrow> bool" where
  "tcd_valid c \<longleftrightarrow> tcd_length c \<noteq> 0 \<and> tcd_count c \<noteq> 0 \<and> tcd_errors c = 0"

lemma flag_eq_0_iff: "(flag k :: 'a::len word) = 0 \<longleftrightarrow> LENGTH('a) \<le> k"
  by (metis bit_flag_iff bit_word_eqI bit_0_eq bot_apply bot_bool_def not_le)

lemma tcd_errors_zero:
  assumes "tcd_errors c = 0"
  shows "tcd_length c mod 2 ^ ATTR_SSIZE (tcd_attr c) = 0" "tcd_length c mod 2 ^ ATTR_DSIZE (tcd_attr c) = 0"
    "2 ^ ATTR_SSIZE (tcd_attr c) \<le> MCXN_EDMA_MAX_XFER" "2 ^ ATTR_DSIZE (tcd_attr c) \<le> MCXN_EDMA_MAX_XFER"
  using assms
  by (auto simp: tcd_errors_def Let_def or_eq_0_iff flag_eq_0_iff tcd_length_def not_less split: if_splits)

lemma mod_max_power: "n mod max (2 ^ i) (2 ^ j) = 0" if "n mod 2 ^ i = 0" "n mod 2 ^ j = 0" for n i j :: nat
  using that by (simp add: max_def)

text \<open>The whole transfer a minor loop of channel \<open>c\<close> makes.\<close>

definition edma_move ::
  "('m, 'z) edma_bus_scheme \<Rightarrow> MCXNEDMAChan \<Rightarrow> MCXNEDMAState \<Rightarrow> 'm \<Rightarrow> u32 \<times> u32 \<times> MCXNEDMAState \<times> 'm" where
  "edma_move B c s m =
     edma_transfer B c (tcd_length c) (max (2 ^ ATTR_SSIZE (tcd_attr c)) (2 ^ ATTR_DSIZE (tcd_attr c))) 0
       (tcd_saddr c) (tcd_daddr c) s m"

lemma edma_minor_body_valid:
  assumes "tcd_valid (ch s n)" and "edma_move B (ch s n) s m = (a, d, s1, m1)"
  shows "edma_minor_body B s n m =
    (case edma_minor_commit s1 n a d (tst (tcd_citer (ch s n)) CITER_ELINK) (citer_mask (tcd_citer (ch s n)))
            (tcd_count (ch s n)) of (r, s2) \<Rightarrow> (r, s2, m1))"
  using assms
  by (simp add: edma_minor_body_def Let_def tcd_valid_def tcd_length_def tcd_count_def edma_move_def del: tst_flag)

lemma edma_minor_body_invalid:
  assumes "\<not> tcd_valid (ch s n)"
  shows "\<exists>e. edma_minor_body B s n m = (Minor_aborted, edma_error s n (e OR CH_ES_ERR), m) \<and> e \<noteq> 0"
  using assms
  by (auto simp: edma_minor_body_def Let_def tcd_valid_def tcd_length_def tcd_count_def flag_eq_0_iff
      simp del: tst_flag)

text \<open>A channel that neither links nor chains descriptors.\<close>

definition tcd_plain :: "MCXNEDMAChan \<Rightarrow> bool" where
  "tcd_plain c \<longleftrightarrow> \<not> tst (tcd_citer c) CITER_ELINK \<and> \<not> tst (tcd_csr c) TCD_CSR_MAJORELINK
     \<and> \<not> tst (tcd_csr c) TCD_CSR_ESG"

lemma tcd_plain_count:
  assumes "tcd_plain c"
  shows "tcd_count c = tcd_citer c" and "tcd_citer c AND NOT (citer_mask (tcd_citer c)) = 0"
proof -
  have m: "citer_mask (tcd_citer c) = mask 15"
    using assms by (simp add: tcd_plain_def citer_mask_def CITER_MASK_def mask_eq_exp_minus_1)
  have b: "bit (tcd_citer c) k \<Longrightarrow> k < 15" for k
    using assms bit_imp_le_length [of "tcd_citer c" k] by (cases "k = 15") (auto simp: tcd_plain_def)
  show "tcd_count c = tcd_citer c"
    unfolding tcd_count_def m by (rule bit_word_eqI) (auto simp: bit_simps dest: b)
  show "tcd_citer c AND NOT (citer_mask (tcd_citer c)) = 0"
    unfolding m by (rule bit_word_eqI) (auto simp: bit_simps dest: b)
qed

text \<open>What one request does to a plain channel after a transfer that ended at \<open>a\<close> and \<open>d\<close>.\<close>

definition tcd_after :: "u32 \<Rightarrow> u32 \<Rightarrow> MCXNEDMAChan \<Rightarrow> MCXNEDMAChan" where
  "tcd_after a d c =
     (if tcd_citer c = 1 then
        c\<lparr>tcd_saddr := a + tcd_slast c, tcd_daddr := d + tcd_dlast c, tcd_citer := tcd_biter c,
          ch_csr := (if tst (tcd_csr c) TCD_CSR_DREQ then (ch_csr c OR CH_CSR_DONE) AND NOT CH_CSR_ERQ
                     else ch_csr c OR CH_CSR_DONE),
          ch_intr := (if tst (tcd_csr c) TCD_CSR_INTMAJOR then ch_intr c OR CH_INT_INT else ch_intr c)\<rparr>
      else c\<lparr>tcd_saddr := a, tcd_daddr := d, tcd_citer := tcd_citer c - 1\<rparr>)"

lemma edma_minor_loop_plain:
  assumes "tcd_valid (ch s n)" and "tcd_plain (ch s n)" and "edma_move B (ch s n) s m = (a, d, s1, m1)"
  shows "\<exists>s2. edma_minor_loop B s n m = (tcd_citer (ch s n) = 1, s2, m1)
       \<and> ch s2 n = tcd_after a d (ch s n)
       \<and> edma_irq s2 = edma_irq s1 @ (if tcd_citer (ch s n) = 1 \<and> tst (tcd_csr (ch s n)) TCD_CSR_INTMAJOR
                                       then [(n, True)] else [])
       \<and> req_level s2 = req_level s1 \<and> edma_bh s2 = edma_bh s1 \<and> edma_only {n} s s2"
proof -
  note body = edma_minor_body_valid [OF assms(1,3)]
  note cnt = tcd_plain_count [OF assms(2)]
  have only: "edma_only {n} s s1" using assms(3) edma_transfer_only by (simp add: edma_move_def)
  have ch1: "ch s1 = ch s" using assms(3) edma_transfer_fields by (fastforce simp: edma_move_def)
  show ?thesis
  proof (cases "tcd_citer (ch s n) = 1")
    case True
    then show ?thesis using assms(2)
      by (simp add: edma_minor_loop.simps body edma_minor_commit_def cnt ch1 Let_def tcd_plain_def
          edma_major_done_def tcd_after_def qemu_set_irq_def edma_only_ops only)
  next
    case False
    then have "tcd_citer (ch s n) - 1 \<noteq> 0" by simp
    then show ?thesis using assms(2) False
      by (simp add: edma_minor_loop.simps body edma_minor_commit_def cnt ch1 Let_def tcd_plain_def tcd_after_def
          edma_only_ops only)
  qed
qed

text \<open>Element-wise strides and no circular buffer: the transfer is one contiguous block.\<close>

definition tcd_contiguous :: "MCXNEDMAChan \<Rightarrow> bool" where
  "tcd_contiguous c \<longleftrightarrow> tcd_soff c = of_nat (2 ^ ATTR_SSIZE (tcd_attr c))
     \<and> tcd_doff c = of_nat (2 ^ ATTR_DSIZE (tcd_attr c))
     \<and> ATTR_SMOD (tcd_attr c) = 0 \<and> ATTR_DMOD (tcd_attr c) = 0"

text \<open>Two blocks of the same length that neither wrap around nor overlap.\<close>

definition blocks_apart :: "u32 \<Rightarrow> u32 \<Rightarrow> nat \<Rightarrow> bool" where
  "blocks_apart src dst n \<longleftrightarrow> unat src + n \<le> 2 ^ 32 \<and> unat dst + n \<le> 2 ^ 32
     \<and> (unat src + n \<le> unat dst \<or> unat dst + n \<le> unat src)"

lemma blocks_apart_byte:
  assumes "blocks_apart src dst n" and "i < n"
  shows "n \<le> unat (src + of_nat i - dst)"
proof -
  have "unat (of_nat i :: u32) = i" using assms by (simp add: blocks_apart_def unat_of_nat)
  then have "unat (src + of_nat i) = unat src + i"
    using assms by (simp add: blocks_apart_def unat_plus_if_size word_size)
  then show ?thesis using assms by (auto simp: blocks_apart_def unat_sub_if_size word_size)
qed

lemma tcd_length_bound: "tcd_length c < 2 ^ 32"
  using unsigned_less [where ?'a = nat, of "tcd_nbytes c AND NBYTES_MASK"] by (simp add: tcd_length_def)

context ram_bus
begin

lemma move_copies:
  assumes "tcd_valid c" and "tcd_contiguous c"
    and "ram (tcd_saddr c) (tcd_length c)" and "ram (tcd_daddr c) (tcd_length c)"
    and "blocks_apart (tcd_saddr c) (tcd_daddr c) (tcd_length c)"
  shows "\<exists>m'. edma_move B c s m = (tcd_saddr c + of_nat (tcd_length c), tcd_daddr c + of_nat (tcd_length c), s, m')
       \<and> mem m' = mem_store (mem m) (tcd_daddr c) (bytes_at (mem m) (tcd_saddr c) (tcd_length c))"
proof -
  let ?ss = "2 ^ ATTR_SSIZE (tcd_attr c) :: nat" and ?ds = "2 ^ ATTR_DSIZE (tcd_attr c) :: nat"
  note err = tcd_errors_zero [of c]
  have "?ss < 2 ^ 15" "?ds < 2 ^ 15" using err(3,4) assms(1) by (simp_all add: tcd_valid_def MCXN_EDMA_MAX_XFER_def)
  moreover have "tcd_length c mod max ?ss ?ds = 0"
    using err(1,2) assms(1) by (intro mod_max_power) (simp_all add: tcd_valid_def)
  then obtain j where "tcd_length c = 0 + j * max ?ss ?ds"
    by (metis add_0 mod_0_imp_dvd dvdE mult.commute)
  ultimately show ?thesis
    using transfer_ram [OF assms(3,4) tcd_length_bound, of c 0 j m "mem m" s] assms(2,5)
    by (simp add: edma_move_def tcd_contiguous_def blocks_apart_byte)
qed

lemma minor_loop_copies:
  assumes "tcd_valid (ch s n)" and "tcd_plain (ch s n)" and "tcd_contiguous (ch s n)"
    and "ram (tcd_saddr (ch s n)) (tcd_length (ch s n))" and "ram (tcd_daddr (ch s n)) (tcd_length (ch s n))"
    and "blocks_apart (tcd_saddr (ch s n)) (tcd_daddr (ch s n)) (tcd_length (ch s n))"
  shows "\<exists>s' m'. edma_minor_loop B s n m = (tcd_citer (ch s n) = 1, s', m')
       \<and> mem m' = mem_store (mem m) (tcd_daddr (ch s n))
                    (bytes_at (mem m) (tcd_saddr (ch s n)) (tcd_length (ch s n)))
       \<and> ch s' n = tcd_after (tcd_saddr (ch s n) + of_nat (tcd_length (ch s n)))
                     (tcd_daddr (ch s n) + of_nat (tcd_length (ch s n))) (ch s n)"
  using move_copies [OF assms(1,3,4,5,6), of s m] edma_minor_loop_plain [OF assms(1,2), of B m] by blast

end

section \<open>The bottom half\<close>

lemma edma_serve_idle: "\<not> edma_wanted s n \<Longrightarrow> edma_serve B n (p, s, m) = (p, s, m)"
  by (simp add: edma_serve_def)

lemma fold_serve_idle:
  "(\<And>n. n \<in> set ns \<Longrightarrow> \<not> edma_wanted s n) \<Longrightarrow> fold (edma_serve B) ns (p, s, m) = (p, s, m)"
  by (induction ns) (simp_all add: edma_serve_idle)

lemma edma_pass_idle:
  "(\<And>n. n < MCXN_EDMA_CHANNELS \<Longrightarrow> \<not> edma_wanted s n) \<Longrightarrow> edma_pass B s m = (False, s, m)"
  unfolding edma_pass_def by (rule fold_serve_idle) simp

lemma edma_drain_idle:
  "(\<And>n. n < MCXN_EDMA_CHANNELS \<Longrightarrow> \<not> edma_wanted s n) \<Longrightarrow> edma_drain B g s m = (s, m)"
  by (simp add: edma_drain.simps edma_pass_idle)

text \<open>One channel served in a pass, nothing wanted before or after it.\<close>

lemma edma_pass_one:
  assumes "n < MCXN_EDMA_CHANNELS" and "edma_serve B n (False, s, m) = (True, s1, m1)"
    and "\<And>k. k < n \<Longrightarrow> \<not> edma_wanted s k"
    and "\<And>k. n < k \<Longrightarrow> k < MCXN_EDMA_CHANNELS \<Longrightarrow> \<not> edma_wanted s1 k"
  shows "edma_pass B s m = (True, s1, m1)"
proof -
  have "[0..<MCXN_EDMA_CHANNELS] = [0..<n] @ n # [Suc n..<MCXN_EDMA_CHANNELS]"
    using assms(1) upt_add_eq_append [of 0 n "MCXN_EDMA_CHANNELS - n"] by (simp add: upt_conv_Cons)
  then show ?thesis
    unfolding edma_pass_def
    using fold_serve_idle [of "[0..<n]" s B False m] fold_serve_idle [of "[Suc n..<MCXN_EDMA_CHANNELS]" s1 B True m1]
      assms by simp
qed

lemma edma_drain_step:
  assumes "edma_pass B s m = (True, s1, m1)" and "g + 1 < MCXN_EDMA_MAX_LOOPS"
  shows "edma_drain B g s m = edma_drain B (g + 1) s1 m1"
  using assms by (subst edma_drain.simps) simp

lemma edma_gather_length:
  assumes "\<And>a n m. length (fst (address_space_read B a n m)) = n"
  shows "chunk = k + j * w \<Longrightarrow> 0 < w \<Longrightarrow> length buf = k \<Longrightarrow>
           length (fst (snd (edma_gather B w soff smod chunk k a buf s m))) = chunk"
proof (induction j arbitrary: k a buf s m)
  case 0
  then show ?case by (simp add: edma_gather.simps)
next
  case (Suc j)
  obtain bs ev m1 where r: "address_space_read B a w m = (bs, ev, m1)" by (metis prod_cases3)
  then have "length bs = w" using assms [of a w m] by simp
  then show ?case
    using Suc.IH [of "k + w" "buf @ bs"] Suc.prems
    by (subst edma_gather.simps) (simp add: r)
qed

lemma edma_error_result:
  "ch (edma_error s n e) n = (if tst (ch_csr (ch s n)) CH_CSR_EEI
                   then (ch s n)\<lparr>ch_es := ch_es (ch s n) OR e, ch_intr := ch_intr (ch s n) OR CH_INT_INT\<rparr>
                   else (ch s n)\<lparr>ch_es := ch_es (ch s n) OR e\<rparr>)"
  "edma_irq (edma_error s n e) = edma_irq s @ (if tst (ch_csr (ch s n)) CH_CSR_EEI then [(n, True)] else [])"
  by (simp_all add: edma_error_def Let_def qemu_set_irq_def)

lemma max_power_multiple: "\<exists>j. max (2 ^ a) (2 ^ b) = j * (2 ^ a :: nat)"
proof -
  have "(2 :: nat) ^ a dvd max (2 ^ a) (2 ^ b)" by (auto simp: max_def le_imp_power_dvd power_increasing_iff)
  then show ?thesis by (metis dvdE mult.commute)
qed

section \<open>Properties\<close>

text \<open>A bus that is memory throughout, for evaluating the engine on concrete descriptors.\<close>

definition flat_bus :: "(u32 \<Rightarrow> u8) edma_bus" where
  "flat_bus = \<lparr>address_space_read = (\<lambda>a n m. (bytes_at m a n, [], m)),
     address_space_write = (\<lambda>a bs m. ([], mem_store m a bs)),
     dma_memory_read = (\<lambda>a n m. (Some (bytes_at m a n), [], m))\<rparr>"

interpretation flat: ram_bus flat_bus "\<lambda>m. m" "\<lambda>a n. True"
  by unfold_locales (simp_all add: flat_bus_def)

definition idle_edma :: MCXNEDMAState where
  "idle_edma = mcxn_edma_reset \<lparr>mp_csr = 0, mp_es = 0, ch_grpri = (\<lambda>_. 0), ch = (\<lambda>_. edma_chan_zero),
     req_level = (\<lambda>_. False), req_edge = (\<lambda>_. False), req_enabled = (\<lambda>_. True), dma_id = 0,
     edma_bh = False, in_link = False, edma_irq = []\<rparr>"



text \<open>
  C4: one service request of an accepted descriptor without links or chaining moves exactly one
  minor loop.  While CITER is above one it stores the advanced addresses and decrements CITER;
  on the last one it applies the last-address adjustments, reloads CITER, sets DONE, drops
  ERQ if DREQ asks for it, and raises the interrupt exactly if INTMAJOR is set.
\<close>

theorem edma_request_moves_one_minor_loop:
  assumes "tcd_valid (ch s n)" and "tcd_plain (ch s n)" and "edma_move B (ch s n) s m = (a, d, s1, m1)"
  shows "\<exists>s2. edma_minor_loop B s n m = (tcd_citer (ch s n) = 1, s2, m1)
       \<and> ch s2 n = tcd_after a d (ch s n)
       \<and> edma_irq s2 = edma_irq s1 @ (if tcd_citer (ch s n) = 1 \<and> tst (tcd_csr (ch s n)) TCD_CSR_INTMAJOR
                                       then [(n, True)] else [])"
  using edma_minor_loop_plain [OF assms] by blast

lemma example_channel:
  fixes s :: MCXNEDMAState
  defines "s \<equiv> edma_upd idle_edma 2 (\<lambda>c. c\<lparr>tcd_nbytes := 4, tcd_citer := 1, tcd_biter := 5, tcd_attr := 0x0202,
             tcd_soff := 4, tcd_doff := 4, tcd_saddr := 0x100, tcd_daddr := 0x200, tcd_csr := 2\<rparr>)"
  shows "tcd_valid (ch s 2)" "tcd_plain (ch s 2)" "tcd_contiguous (ch s 2)" "tcd_length (ch s 2) = 4"
    "tcd_saddr (ch s 2) = 0x100" "tcd_daddr (ch s 2) = 0x200" "tcd_citer (ch s 2) = 1"
    "blocks_apart 0x100 0x200 4"
  by (simp_all add: blocks_apart_def s_def tcd_valid_def tcd_errors_def Let_def ATTR_SSIZE_def ATTR_DSIZE_def ATTR_SMOD_def
      ATTR_DMOD_def NBYTES_MASK_def tcd_length_def tcd_count_def citer_mask_def CITER_MASK_def
      MCXN_EDMA_MAX_XFER_def tcd_plain_def tcd_contiguous_def)

theorem edma_request_moves_one_minor_loop_witness:
  "let s = edma_upd idle_edma 2 (\<lambda>c. c\<lparr>tcd_nbytes := 4, tcd_citer := 1, tcd_biter := 5, tcd_attr := 0x0202,
             tcd_soff := 4, tcd_doff := 4, tcd_saddr := 0x100, tcd_daddr := 0x200, tcd_csr := 2\<rparr>)
   in \<exists>s2 m2. edma_minor_loop flat_bus s 2 (\<lambda>a. ucast a) = (True, s2, m2)
        \<and> tcd_citer (ch s2 2) = 5 \<and> tcd_saddr (ch s2 2) = 0x104 \<and> line_level (edma_irq s2) 2"
proof -
  define s where "s = edma_upd idle_edma 2 (\<lambda>c. c\<lparr>tcd_nbytes := 4, tcd_citer := 1, tcd_biter := 5, tcd_attr := 0x0202,
             tcd_soff := 4, tcd_doff := 4, tcd_saddr := 0x100, tcd_daddr := 0x200, tcd_csr := 2\<rparr>)"
  note c = example_channel [folded s_def]
  obtain m2 where mv: "edma_move flat_bus (ch s 2) s (\<lambda>a. ucast a) = (0x104, 0x204, s, m2)"
    using flat.move_copies [OF c(1,3) TrueI TrueI, of s "\<lambda>a. ucast a"] c(4-8) by auto
  obtain s2 where s2: "edma_minor_loop flat_bus s 2 (\<lambda>a. ucast a) = (tcd_citer (ch s 2) = 1, s2, m2)"
    "ch s2 2 = tcd_after 0x104 0x204 (ch s 2)"
    "edma_irq s2 = edma_irq s @ (if tcd_citer (ch s 2) = 1 \<and> tst (tcd_csr (ch s 2)) TCD_CSR_INTMAJOR
       then [(2, True)] else [])"
    using edma_request_moves_one_minor_loop [OF c(1,2) mv] by blast
  have "tst (tcd_csr (ch s 2)) TCD_CSR_INTMAJOR" "tcd_biter (ch s 2) = 5" "tcd_slast (ch s 2) = 0"
    by (simp_all add: s_def idle_edma_def mcxn_edma_reset_def edma_chan_zero_def)
  then have "tcd_citer (ch s2 2) = 5" "tcd_saddr (ch s2 2) = 0x104" "line_level (edma_irq s2) 2"
    using s2(2,3) c(7) by (simp_all add: tcd_after_def line_level_def)
  then show ?thesis using s2(1) c(7) unfolding Let_def s_def [symmetric] by auto
qed

text \<open>
  C20: a service request changes at most two channels, its own and one it links to: links made
  while a linked channel runs are ignored, so a chain of links always ends, and the link guard
  is left as it was found.
\<close>

theorem edma_link_depth_bounded:
  "\<exists>l. \<forall>k. k \<noteq> n \<and> k \<noteq> l \<longrightarrow> ch (fst (edma_run B s n m)) k = ch s k
           \<and> in_link (fst (edma_run B s n m)) = in_link s"
proof -
  obtain s' m' where r: "edma_run B s n m = (s', m')" by force
  from edma_run_only [OF this] show ?thesis by (auto simp: r edma_only_def)
qed

theorem edma_link_depth_bounded_witness:
  "\<exists>l. \<forall>k. k \<noteq> 0 \<and> k \<noteq> l \<longrightarrow>
     ch (fst (edma_run flat_bus (edma_upd idle_edma 0 (\<lambda>c. c\<lparr>tcd_csr := 0x0220\<rparr>)) 0 (\<lambda>_. 0))) k
       = ch (edma_upd idle_edma 0 (\<lambda>c. c\<lparr>tcd_csr := 0x0220\<rparr>)) k"
  using edma_link_depth_bounded [of 0 flat_bus "edma_upd idle_edma 0 (\<lambda>c. c\<lparr>tcd_csr := 0x0220\<rparr>)" "\<lambda>_. 0"]
  by blast

text \<open>
  When every channel is disabled, has no source, or has a source that does not ask or that
  INPUTMUX blocks, the bottom half makes no bus access and changes no channel; it only
  discards pulses nobody consumed.
\<close>

theorem edma_gated_requests_move_nothing:
  assumes "\<forall>n < MCXN_EDMA_CHANNELS. \<not> tst (ch_csr (ch s n)) CH_CSR_ERQ \<or> edma_src s n = 0
             \<or> \<not> req_level s (edma_src s n) \<or> \<not> req_enabled s (edma_src s n)"
  shows "mcxn_edma_service_bh B s m = (edma_drop_pulses s, m)"
  using assms edma_drain_idle [of s B 0 m]
  by (auto simp: mcxn_edma_service_bh_def edma_wanted_def simp del: tst_flag)

theorem edma_gated_requests_move_nothing_witness:
  "let s = mcxn_edma_req_enable (mcxn_edma_req (edma_upd idle_edma 0 (\<lambda>c. c\<lparr>ch_csr := 1, ch_mux := 25\<rparr>)) 25 True)
             25 False
   in req_level s 25 \<and> mcxn_edma_service_bh flat_bus s (\<lambda>_. 0) = (edma_drop_pulses s, \<lambda>_. 0)"
  unfolding Let_def
  by (intro conjI edma_gated_requests_move_nothing)
     (simp_all add: mcxn_edma_req_enable_def mcxn_edma_req_def idle_edma_def mcxn_edma_reset_def
        MCXN_EDMA_REQ_SOURCES_def edma_src_def CH_MUX_SRC_MASK_def edma_chan_zero_def)

text \<open>
  C21: a pulse request moves exactly one minor loop of the channel it is routed to: the bottom
  half runs that minor loop, acknowledges the pulse, and stops.
\<close>

theorem edma_pulse_moves_one_minor_loop:
  assumes "n < MCXN_EDMA_CHANNELS" and "edma_wanted s n" and "req_edge s (edma_src s n)"
    and "\<forall>k < n. \<not> edma_wanted s k"
    and "edma_minor_loop B (edma_upd s n (\<lambda>c. c\<lparr>ch_csr := ch_csr c AND NOT CH_CSR_DONE\<rparr>)) n m = (r, s1, m1)"
    and "\<forall>k < MCXN_EDMA_CHANNELS. \<not> edma_wanted (s1\<lparr>req_level := (req_level s1)(edma_src s n := False)\<rparr>) k"
  shows "mcxn_edma_service_bh B s m
       = (edma_drop_pulses (s1\<lparr>req_level := (req_level s1)(edma_src s n := False)\<rparr>), m1)"
proof -
  let ?s2 = "s1\<lparr>req_level := (req_level s1)(edma_src s n := False)\<rparr>"
  obtain l where "edma_only {n, l} (edma_upd s n (\<lambda>c. c\<lparr>ch_csr := ch_csr c AND NOT CH_CSR_DONE\<rparr>)) s1"
    using edma_minor_loop_two [OF assms(5)] by blast
  then have "req_edge s1 = req_edge s" by (simp add: edma_only_def)
  then have "edma_serve B n (False, s, m) = (True, ?s2, m1)"
    using assms(2,3,5) by (simp add: edma_serve_def Let_def)
  then have "edma_pass B s m = (True, ?s2, m1)"
    using assms(1,4,6) by (intro edma_pass_one [of n]) auto
  then have "edma_drain B 0 s m = edma_drain B 1 ?s2 m1"
    using edma_drain_step [of B s m ?s2 m1 0] by (simp add: MCXN_EDMA_MAX_LOOPS_def)
  also have "\<dots> = (?s2, m1)" using assms(6) by (intro edma_drain_idle) blast
  finally show ?thesis by (simp add: mcxn_edma_service_bh_def)
qed

lemma example_pulse:
  fixes s :: MCXNEDMAState
  defines "s \<equiv> mcxn_edma_req_pulse (edma_upd idle_edma 0 (\<lambda>c. c\<lparr>tcd_nbytes := 4, tcd_citer := 3, tcd_biter := 3,
             tcd_attr := 0x0202, tcd_soff := 4, tcd_doff := 4, tcd_saddr := 0x100, tcd_daddr := 0x200,
             ch_csr := 1, ch_mux := 7\<rparr>)) 7 True"
  shows "edma_wanted s 0" "req_edge s 7" "edma_src s 0 = 7" "(req_level s)(7 := False) = (\<lambda>_. False)"
    "tcd_valid (ch s 0)" "tcd_plain (ch s 0)" "ch_csr (ch s 0) = 1" "tcd_contiguous (ch s 0)"
    "blocks_apart (tcd_saddr (ch s 0)) (tcd_daddr (ch s 0)) (tcd_length (ch s 0))"
  by (simp_all add: tcd_contiguous_def ATTR_SMOD_def ATTR_DMOD_def blocks_apart_def s_def mcxn_edma_req_pulse_def edma_wanted_def edma_src_def CH_MUX_SRC_MASK_def
      MCXN_EDMA_REQ_SOURCES_def idle_edma_def mcxn_edma_reset_def tcd_valid_def tcd_errors_def Let_def
      ATTR_SSIZE_def ATTR_DSIZE_def NBYTES_MASK_def tcd_length_def tcd_count_def citer_mask_def
      CITER_MASK_def MCXN_EDMA_MAX_XFER_def tcd_plain_def edma_chan_zero_def fun_eq_iff)

theorem edma_pulse_moves_one_minor_loop_witness:
  "let s = mcxn_edma_req_pulse (edma_upd idle_edma 0 (\<lambda>c. c\<lparr>tcd_nbytes := 4, tcd_citer := 3, tcd_biter := 3,
             tcd_attr := 0x0202, tcd_soff := 4, tcd_doff := 4, tcd_saddr := 0x100, tcd_daddr := 0x200,
             ch_csr := 1, ch_mux := 7\<rparr>)) 7 True
   in \<exists>s1 m1. edma_minor_loop flat_bus s 0 (\<lambda>_. 0) = (False, s1, m1)
        \<and> mcxn_edma_service_bh flat_bus s (\<lambda>_. 0)
            = (edma_drop_pulses (s1\<lparr>req_level := (\<lambda>_. False)\<rparr>), m1)"
proof -
  define s where "s = mcxn_edma_req_pulse (edma_upd idle_edma 0 (\<lambda>c. c\<lparr>tcd_nbytes := 4, tcd_citer := 3,
             tcd_biter := 3, tcd_attr := 0x0202, tcd_soff := 4, tcd_doff := 4, tcd_saddr := 0x100,
             tcd_daddr := 0x200, ch_csr := 1, ch_mux := 7\<rparr>)) 7 True"
  note c = example_pulse [folded s_def]
  have w: "(ch s 0)\<lparr>ch_csr := 1\<rparr> = ch s 0" using c(7) by (cases "ch s 0") simp
  have v: "(1 :: u32) AND NOT CH_CSR_DONE = 1" by (simp add: flag_def)
  have u: "edma_upd s 0 (\<lambda>c. c\<lparr>ch_csr := ch_csr c AND NOT CH_CSR_DONE\<rparr>) = s"
    unfolding edma_upd_def c(7) v w by simp
  obtain a d m0 where mv: "edma_move flat_bus (ch s 0) s (\<lambda>_. 0) = (a, d, s, m0)"
    using flat.move_copies [OF c(5,8) TrueI TrueI c(9)] by blast
  obtain s1 where s1: "edma_minor_loop flat_bus s 0 (\<lambda>_. 0) = (tcd_citer (ch s 0) = 1, s1, m0)"
    "req_level s1 = req_level s"
    using edma_minor_loop_plain [OF c(5,6) mv] by blast
  have "\<forall>k < MCXN_EDMA_CHANNELS. \<not> edma_wanted (s1\<lparr>req_level := (req_level s1)(edma_src s 0 := False)\<rparr>) k"
    using c(3,4) s1(2) by (simp add: edma_wanted_def)
  then have "mcxn_edma_service_bh flat_bus s (\<lambda>_. 0)
       = (edma_drop_pulses (s1\<lparr>req_level := (req_level s1)(edma_src s 0 := False)\<rparr>), m0)"
    using edma_pulse_moves_one_minor_loop [of 0 s flat_bus "\<lambda>_. 0", unfolded u, OF _ c(1) _ _ s1(1)] c(2,3)
    by (simp add: MCXN_EDMA_CHANNELS_def)
  moreover have "tcd_citer (ch s 0) \<noteq> 1" by (simp add: s_def mcxn_edma_req_pulse_def MCXN_EDMA_REQ_SOURCES_def)
  ultimately show ?thesis unfolding Let_def s_def [symmetric] using s1 c(3,4) by auto
qed

text \<open>
  Circular buffers: with a modulo field \<open>k\<close>, advancing an address keeps it inside its own
  block of \<open>2^k\<close> bytes and moves the position in the block by the offset, modulo the block size.
\<close>

theorem edma_modulo_wraps:
  assumes "0 < md"
  shows "edma_advance addr off md AND NOT (mask md) = addr AND NOT (mask md)
       \<and> edma_advance addr off md AND mask md = (addr + scast off) AND mask md"
  using assms by (auto simp: edma_advance_def intro!: bit_word_eqI) (auto simp: bit_simps)

theorem edma_modulo_wraps_witness:
  "edma_advance 0x2000000c 4 4 AND mask 4 = 0 \<and> edma_advance 0x2000000c 4 4 = 0x20000000"
  using edma_modulo_wraps [of 4 "0x2000000c" 4]
  by (simp add: edma_advance_def mask_eq_exp_minus_1 scast_eq)

text \<open>
  C22: the bounce buffer of an accepted descriptor never overflows: on a bus whose reads deliver
  the requested number of bytes, every chunk fills exactly \<open>max SSIZE DSIZE\<close> bytes of it, at
  most the 64 it has.
\<close>

theorem edma_chunk_fits_buffer:
  assumes "tcd_valid c" and "\<And>a n m. length (fst (address_space_read B a n m)) = n"
  shows "length (fst (snd (edma_gather B (2 ^ ATTR_SSIZE (tcd_attr c)) (tcd_soff c) (ATTR_SMOD (tcd_attr c))
             (max (2 ^ ATTR_SSIZE (tcd_attr c)) (2 ^ ATTR_DSIZE (tcd_attr c))) 0 addr [] s m)))
         = max (2 ^ ATTR_SSIZE (tcd_attr c)) (2 ^ ATTR_DSIZE (tcd_attr c))
       \<and> max (2 ^ ATTR_SSIZE (tcd_attr c)) (2 ^ ATTR_DSIZE (tcd_attr c)) \<le> MCXN_EDMA_MAX_XFER"
proof -
  obtain j where j: "max (2 ^ ATTR_SSIZE (tcd_attr c)) (2 ^ ATTR_DSIZE (tcd_attr c)) = 0 + j * (2 ^ ATTR_SSIZE (tcd_attr c) :: nat)"
    using max_power_multiple by (metis add_0)
  show ?thesis
    using edma_gather_length [OF assms(2) j, of "[]"] tcd_errors_zero(3,4) [of c] assms(1)
    by (simp add: tcd_valid_def)
qed

theorem edma_chunk_fits_buffer_witness:
  "let c = edma_chan_zero\<lparr>tcd_nbytes := 8, tcd_citer := 1, tcd_attr := 0x0002\<rparr>
   in length (fst (snd (edma_gather flat_bus 1 0 0 4 0 0x1000 [] idle_edma (\<lambda>a. ucast a)))) = 4"
  using edma_chunk_fits_buffer [of "edma_chan_zero\<lparr>tcd_nbytes := 8, tcd_citer := 1, tcd_attr := 0x0002\<rparr>" flat_bus
      "0x1000" idle_edma "\<lambda>a. ucast a"]
  by (simp add: Let_def tcd_valid_def tcd_errors_def ATTR_SSIZE_def ATTR_DSIZE_def ATTR_SMOD_def NBYTES_MASK_def
      tcd_length_def tcd_count_def citer_mask_def CITER_MASK_def MCXN_EDMA_MAX_XFER_def edma_chan_zero_def
      flat_bus_def)

text \<open>
  C36: with scatter/gather the completion of a descriptor is signalled by the flags of the next
  one: the engine loads the next descriptor before it looks at INTMAJOR, so the interrupt is
  raised exactly if the descriptor just loaded asks for it, whatever the completed one said.
\<close>

theorem edma_chained_completion_uses_next_flags:
  assumes "tcd_valid (ch s n)" and "tcd_citer (ch s n) = 1"
    and "tst (tcd_csr (ch s n)) TCD_CSR_ESG" and "\<not> tst (tcd_csr (ch s n)) TCD_CSR_MAJORELINK"
    and "tcd_dlast (ch s n) \<noteq> 0" and "\<not> tst (tcd_dlast (ch s n)) 0x1F"
    and "edma_move B (ch s n) s m = (a, d, s1, m1)"
    and "dma_memory_read B (tcd_dlast (ch s n)) 32 m1 = (Some tcd, [], m2)"
  shows "\<exists>s2. edma_minor_loop B s n m = (True, s2, m2) \<and> tst (ch_csr (ch s2 n)) CH_CSR_DONE
       \<and> edma_irq s2 = edma_irq s @ (if tst (lduw_le_p tcd 0x1C) TCD_CSR_INTMAJOR then [(n, True)] else [])"
proof -
  note body = edma_minor_body_valid [OF assms(1,7)]
  have s1: "ch s1 = ch s" "edma_irq s1 = edma_irq s"
    using assms(7) edma_transfer_fields by (fastforce simp: edma_move_def)+
  have "tcd_count (ch s n) = 1"
    using assms(2) by (simp add: tcd_count_def citer_mask_def CITER_MASK_def)
  then show ?thesis using assms(2-6,8)
    by (simp add: edma_minor_loop.simps body edma_minor_commit_def s1 Let_def edma_load_next_tcd_def
        edma_major_done_def qemu_set_irq_def)
qed

theorem edma_chained_completion_uses_next_flags_witness:
  "let s = edma_upd idle_edma 2 (\<lambda>c. c\<lparr>tcd_nbytes := 4, tcd_citer := 1, tcd_attr := 0x0202, tcd_soff := 4,
             tcd_doff := 4, tcd_saddr := 0x100, tcd_daddr := 0x200, tcd_csr := 0x12, tcd_dlast := 0x40\<rparr>)
   in tst (tcd_csr (ch s 2)) TCD_CSR_INTMAJOR
      \<and> (\<exists>s2 m2. edma_minor_loop flat_bus s 2 (\<lambda>_. 0) = (True, s2, m2) \<and> edma_irq s2 = [])"
proof -
  define s where "s = edma_upd idle_edma 2 (\<lambda>c. c\<lparr>tcd_nbytes := 4, tcd_citer := 1, tcd_attr := 0x0202,
             tcd_soff := 4, tcd_doff := 4, tcd_saddr := 0x100, tcd_daddr := 0x200, tcd_csr := 0x12,
             tcd_dlast := 0x40\<rparr>)"
  have c: "tcd_valid (ch s 2)" "tcd_contiguous (ch s 2)" "tcd_saddr (ch s 2) = 0x100" "tcd_daddr (ch s 2) = 0x200"
    "tcd_length (ch s 2) = 4" "blocks_apart 0x100 0x200 4"
    by (simp_all add: s_def tcd_valid_def tcd_errors_def Let_def ATTR_SSIZE_def ATTR_DSIZE_def ATTR_SMOD_def
      ATTR_DMOD_def NBYTES_MASK_def tcd_length_def tcd_count_def citer_mask_def CITER_MASK_def
      MCXN_EDMA_MAX_XFER_def tcd_contiguous_def blocks_apart_def)
  have "mem_store (\<lambda>_. 0) 0x200 (bytes_at (\<lambda>_. 0) 0x100 4) = (\<lambda>_. 0)"
    by (auto simp: mem_store_def bytes_at_def)
  then have mv: "edma_move flat_bus (ch s 2) s (\<lambda>_. 0) = (0x104, 0x204, s, \<lambda>_. 0)"
    using flat.move_copies [OF c(1,2) TrueI TrueI, of s "\<lambda>_. 0"] c(3-6) by auto
  have f: "tcd_citer (ch s 2) = 1" "tst (tcd_csr (ch s 2)) TCD_CSR_ESG"
    "\<not> tst (tcd_csr (ch s 2)) TCD_CSR_MAJORELINK" "tcd_dlast (ch s 2) \<noteq> 0" "\<not> tst (tcd_dlast (ch s 2)) 0x1F"
    and g: "tst (tcd_csr (ch s 2)) TCD_CSR_INTMAJOR" "edma_irq s = []"
    by (simp_all add: s_def idle_edma_def mcxn_edma_reset_def) (simp add: tst_def)
  have z: "lduw_le_p (bytes_at (\<lambda>_. 0) a 32) 0x1C = 0" for a by (simp add: lduw_le_p_def bytes_at_def)
  have r: "dma_memory_read flat_bus (tcd_dlast (ch s 2)) 32 (\<lambda>_. 0)
      = (Some (bytes_at (\<lambda>_. 0) (tcd_dlast (ch s 2)) 32), [], \<lambda>_. 0)" by (simp add: flat_bus_def)
  obtain s2 where "edma_minor_loop flat_bus s 2 (\<lambda>_. 0) = (True, s2, \<lambda>_. 0)" "edma_irq s2 = []"
    using edma_chained_completion_uses_next_flags [OF c(1) f mv r] z g(2) by auto
  then show ?thesis using g(1) unfolding s_def [symmetric] Let_def by blast
qed



end
