(* ===== verification/Mcxn_Sema42.thy ===== *)
theory Mcxn_Sema42
  imports Mcxn_Interfaces
begin

text \<open>
  SEMA42, the hardware semaphores (\<^verbatim>\<open>hw/misc/mcxn_sema42.c\<close>): sixteen byte-wide
  gates, each free (0) or owned by a domain (1..15).  The gate protocol is an
  instance of \<open>lock_device\<close>: a domain takes a gate by writing its number and
  reading it back.
\<close>

record MCXNSema42State =
  gate :: "nat \<Rightarrow> u8"
  rstgt :: u16

definition SEMA42_GATE_LAST :: nat where "SEMA42_GATE_LAST = 0x0F"
definition SEMA42_RSTGT :: nat where "SEMA42_RSTGT = 0x42"
definition SEMA42_GATE_GTFSM_MASK :: u8 where "SEMA42_GATE_GTFSM_MASK = 0x0F"

lemmas sema42_consts = SEMA42_GATE_LAST_def SEMA42_RSTGT_def SEMA42_GATE_GTFSM_MASK_def

definition mcxn_sema42_read :: "MCXNSema42State \<Rightarrow> nat \<Rightarrow> u64" where
  "mcxn_sema42_read s offset =
     (if offset \<le> SEMA42_GATE_LAST then ucast (gate s offset AND SEMA42_GATE_GTFSM_MASK)
      else if offset = SEMA42_RSTGT then ucast (rstgt s)
      else 0)"

definition mcxn_sema42_write :: "MCXNSema42State \<Rightarrow> nat \<Rightarrow> u64 \<Rightarrow> MCXNSema42State" where
  "mcxn_sema42_write s offset val =
     (if offset \<le> SEMA42_GATE_LAST then
        (let domain = ucast val AND SEMA42_GATE_GTFSM_MASK;
             cur = gate s offset AND SEMA42_GATE_GTFSM_MASK
         in if domain = 0 then s\<lparr>gate := (gate s)(offset := 0)\<rparr>
            else if cur = 0 \<or> cur = domain then s\<lparr>gate := (gate s)(offset := domain)\<rparr>
            else s)
      else if offset = SEMA42_RSTGT then s\<lparr>rstgt := ucast (val AND 0xFF)\<rparr>
      else s)"

definition mcxn_sema42_reset :: "MCXNSema42State \<Rightarrow> MCXNSema42State" where
  "mcxn_sema42_reset s = s\<lparr>gate := (\<lambda>_. 0), rstgt := 0\<rparr>"

section \<open>Gate protocol\<close>

text \<open>
  A domain number is a non-zero 4-bit value.  Taking a gate is the driver's
  sequence: write the own number, read back, and hold the gate if it is there.
\<close>

definition sema42_domain :: "u64 \<Rightarrow> bool" where
  "sema42_domain d \<longleftrightarrow> 1 \<le> d \<and> d \<le> 15"

definition sema42_free :: "nat \<Rightarrow> MCXNSema42State \<Rightarrow> bool" where
  "sema42_free g s \<longleftrightarrow> mcxn_sema42_read s g = 0"

definition sema42_held :: "nat \<Rightarrow> u64 \<Rightarrow> MCXNSema42State \<Rightarrow> bool" where
  "sema42_held g d s \<longleftrightarrow> mcxn_sema42_read s g = d"

definition sema42_lock :: "nat \<Rightarrow> u64 \<Rightarrow> MCXNSema42State \<Rightarrow> bool \<times> MCXNSema42State" where
  "sema42_lock g d s = (let s' = mcxn_sema42_write s g d in (mcxn_sema42_read s' g = d, s'))"

definition sema42_unlock :: "nat \<Rightarrow> u64 \<Rightarrow> MCXNSema42State \<Rightarrow> MCXNSema42State" where
  "sema42_unlock g d s = mcxn_sema42_write s g 0"

text \<open>Any access that is not a write of gate \<open>g\<close>.\<close>

definition sema42_elsewhere :: "nat \<Rightarrow> MCXNSema42State \<Rightarrow> MCXNSema42State \<Rightarrow> bool" where
  "sema42_elsewhere g s s' \<longleftrightarrow> (\<exists>off v. off \<noteq> g \<and> s' = mcxn_sema42_write s off v)"

lemma domain_value:
  assumes "sema42_domain d"
  shows "ucast d AND SEMA42_GATE_GTFSM_MASK = (ucast d :: u8)" and "(ucast d :: u8) \<noteq> 0"
    and "ucast (ucast d :: u8) = d"
proof -
  have "unat d < 2 ^ 4" using assms by (simp add: sema42_domain_def word_le_nat_alt)
  then have low: "bit d n \<Longrightarrow> n < 4" for n by (rule bit_less_exp)
  have m: "SEMA42_GATE_GTFSM_MASK = mask 4" by (simp add: SEMA42_GATE_GTFSM_MASK_def mask_eq_exp_minus_1)
  show "ucast d AND SEMA42_GATE_GTFSM_MASK = (ucast d :: u8)"
    unfolding m by (rule bit_word_eqI) (auto simp: bit_simps dest: low)
  show id: "ucast (ucast d :: u8) = d"
    by (rule bit_word_eqI) (auto simp: bit_simps dest: low)
  then show "(ucast d :: u8) \<noteq> 0" using assms by (auto simp: sema42_domain_def)
qed

lemma read_write_elsewhere [simp]:
  "off \<noteq> g \<Longrightarrow> g \<le> SEMA42_GATE_LAST \<Longrightarrow>
     mcxn_sema42_read (mcxn_sema42_write s off v) g = mcxn_sema42_read s g"
  by (auto simp: mcxn_sema42_read_def mcxn_sema42_write_def Let_def sema42_consts)

lemma read_unlock [simp]:
  "g \<le> SEMA42_GATE_LAST \<Longrightarrow> mcxn_sema42_read (mcxn_sema42_write s g 0) g = 0"
  by (simp add: mcxn_sema42_read_def mcxn_sema42_write_def)

lemma read_lock:
  assumes "g \<le> SEMA42_GATE_LAST" and "sema42_domain d"
  shows "mcxn_sema42_read (mcxn_sema42_write s g d) g =
           (if mcxn_sema42_read s g = 0 then d else mcxn_sema42_read s g)"
  using assms domain_value [OF assms(2)]
  by (auto simp: mcxn_sema42_read_def mcxn_sema42_write_def Let_def ucast_eq_0_up)

lemma domain_nonzero: "sema42_domain d \<Longrightarrow> d \<noteq> 0"
  by (auto simp: sema42_domain_def)

lemma sema42_lock_device:
  assumes "g \<le> SEMA42_GATE_LAST"
  shows "lock_device sema42_domain (sema42_free g) (sema42_held g) (sema42_lock g)
           (sema42_unlock g) (sema42_elsewhere g)"
  using assms
  by unfold_locales
     (auto simp: sema42_free_def sema42_held_def sema42_lock_def sema42_unlock_def
        sema42_elsewhere_def read_lock Let_def domain_nonzero)

interpretation gate0: lock_device sema42_domain "sema42_free 0" "sema42_held 0" "sema42_lock 0"
  "sema42_unlock 0" "sema42_elsewhere 0"
  by (rule sema42_lock_device) (simp add: sema42_consts)

section \<open>Properties\<close>

text \<open>
  C16: over any interleaving of lock attempts, releases by the holder and accesses to other
  registers, starting from reset, at most one domain holds a gate, the gate register then
  reads as that domain, and a gate nobody holds is granted to the next domain that asks.
\<close>

theorem sema42_mutual_exclusion:
  assumes "g \<le> SEMA42_GATE_LAST"
    and "lock_run sema42_domain (sema42_lock g) (sema42_unlock g) (sema42_elsewhere g)
           (mcxn_sema42_reset s0) s H"
  shows "(\<forall>a \<in> H. \<forall>b \<in> H. a = b) \<and> (\<forall>a \<in> H. mcxn_sema42_read s g = a)
       \<and> (H = {} \<longrightarrow> (\<forall>d. sema42_domain d \<longrightarrow> fst (sema42_lock g d s)))"
proof -
  note dev = sema42_lock_device [OF assms(1)]
  have "sema42_free g (mcxn_sema42_reset s0)"
    by (simp add: sema42_free_def mcxn_sema42_reset_def mcxn_sema42_read_def)
  then show ?thesis
    using lock_device.run_owner [OF dev assms(2)] lock_device.obtainable [OF dev, of _ s] assms(2)
    by (auto simp: sema42_held_def)
qed

lemma two_domains_race:
  "lock_run sema42_domain (sema42_lock 0) (sema42_unlock 0) (sema42_elsewhere 0)
     (mcxn_sema42_reset \<lparr>gate = (\<lambda>_. 7), rstgt = 9\<rparr>)
     \<lparr>gate = (\<lambda>_. 0)(0 := 3), rstgt = 0\<rparr> {3}"
proof -
  let ?s0 = "mcxn_sema42_reset \<lparr>gate = (\<lambda>_. 7), rstgt = 9\<rparr>"
  let ?s1 = "\<lparr>gate = (\<lambda>_. 0)(0 := 3), rstgt = 0\<rparr>"
  have "sema42_lock 0 3 ?s0 = (True, ?s1)" and "sema42_lock 0 5 ?s1 = (False, ?s1)"
    by (simp_all add: sema42_lock_def mcxn_sema42_write_def mcxn_sema42_read_def
        mcxn_sema42_reset_def sema42_consts Let_def)
  with lock_run.attempt [OF lock_run.attempt [OF lock_run.start [of sema42_domain "sema42_lock 0"
        "sema42_unlock 0" "sema42_elsewhere 0" ?s0]], of 3 True ?s1 5 False ?s1]
  show ?thesis by (simp add: sema42_domain_def)
qed

theorem sema42_mutual_exclusion_witness:
  "mcxn_sema42_read \<lparr>gate = (\<lambda>_. 0)(0 := 3), rstgt = 0\<rparr> 0 = 3"
  using sema42_mutual_exclusion [OF _ two_domains_race] by (simp add: sema42_consts)

end
