(* ===== verification/Mcxn_Mailbox.thy ===== *)
theory Mcxn_Mailbox
  imports Mcxn_Interfaces
begin

text \<open>
  MAILBOX, the inter-CPU mailbox (\<^verbatim>\<open>hw/misc/mcxn_mailbox.c\<close>): an interrupt request
  word per CPU with set and clear aliases, each driving that CPU's line, and a
  mutex that a read takes and any write gives back.
\<close>

datatype mailbox_line = Mbox_out nat

record MCXNMailboxState =
  mbox_irq :: "nat \<Rightarrow> u32"
  mutex :: u32
  mbox_out :: "mailbox_line irq_log"

definition MAILBOX_IRQ0 :: nat where "MAILBOX_IRQ0 = 0x00"
definition MAILBOX_IRQSET0 :: nat where "MAILBOX_IRQSET0 = 0x04"
definition MAILBOX_IRQCLR0 :: nat where "MAILBOX_IRQCLR0 = 0x08"
definition MAILBOX_IRQ1 :: nat where "MAILBOX_IRQ1 = 0x10"
definition MAILBOX_IRQSET1 :: nat where "MAILBOX_IRQSET1 = 0x14"
definition MAILBOX_IRQCLR1 :: nat where "MAILBOX_IRQCLR1 = 0x18"
definition MAILBOX_MUTEX :: nat where "MAILBOX_MUTEX = 0xF8"

abbreviation MAILBOX_MUTEX_EX :: u32 where "MAILBOX_MUTEX_EX \<equiv> flag 0"

lemmas mailbox_consts = MAILBOX_IRQ0_def MAILBOX_IRQSET0_def MAILBOX_IRQCLR0_def MAILBOX_IRQ1_def
  MAILBOX_IRQSET1_def MAILBOX_IRQCLR1_def MAILBOX_MUTEX_def

definition mcxn_mailbox_update_irq :: "MCXNMailboxState \<Rightarrow> MCXNMailboxState" where
  "mcxn_mailbox_update_irq s =
     s\<lparr>mbox_out := qemu_set_irq (Mbox_out 1) (mbox_irq s 1 \<noteq> 0)
                    (qemu_set_irq (Mbox_out 0) (mbox_irq s 0 \<noteq> 0) (mbox_out s))\<rparr>"

definition mcxn_mailbox_read :: "MCXNMailboxState \<Rightarrow> nat \<Rightarrow> u64 \<times> MCXNMailboxState" where
  "mcxn_mailbox_read s offset =
     (if offset = MAILBOX_IRQ0 then (ucast (mbox_irq s 0), s)
      else if offset = MAILBOX_IRQ1 then (ucast (mbox_irq s 1), s)
      else if offset \<in> {MAILBOX_IRQSET0, MAILBOX_IRQCLR0, MAILBOX_IRQSET1, MAILBOX_IRQCLR1} then (0, s)
      else if offset = MAILBOX_MUTEX then
        (ucast (mutex s AND MAILBOX_MUTEX_EX), s\<lparr>mutex := mutex s AND NOT MAILBOX_MUTEX_EX\<rparr>)
      else (0, s))"

definition mcxn_mailbox_write :: "MCXNMailboxState \<Rightarrow> nat \<Rightarrow> u64 \<Rightarrow> MCXNMailboxState" where
  "mcxn_mailbox_write s offset val =
     (let v = ucast val in
      if offset = MAILBOX_IRQ0 then mcxn_mailbox_update_irq (s\<lparr>mbox_irq := (mbox_irq s)(0 := v)\<rparr>)
      else if offset = MAILBOX_IRQ1 then mcxn_mailbox_update_irq (s\<lparr>mbox_irq := (mbox_irq s)(1 := v)\<rparr>)
      else if offset = MAILBOX_IRQSET0 then mcxn_mailbox_update_irq (s\<lparr>mbox_irq := (mbox_irq s)(0 := mbox_irq s 0 OR v)\<rparr>)
      else if offset = MAILBOX_IRQCLR0 then
        mcxn_mailbox_update_irq (s\<lparr>mbox_irq := (mbox_irq s)(0 := mbox_irq s 0 AND NOT v)\<rparr>)
      else if offset = MAILBOX_IRQSET1 then mcxn_mailbox_update_irq (s\<lparr>mbox_irq := (mbox_irq s)(1 := mbox_irq s 1 OR v)\<rparr>)
      else if offset = MAILBOX_IRQCLR1 then
        mcxn_mailbox_update_irq (s\<lparr>mbox_irq := (mbox_irq s)(1 := mbox_irq s 1 AND NOT v)\<rparr>)
      else if offset = MAILBOX_MUTEX then s\<lparr>mutex := mutex s OR MAILBOX_MUTEX_EX\<rparr>
      else s)"

definition mcxn_mailbox_reset :: "MCXNMailboxState \<Rightarrow> MCXNMailboxState" where
  "mcxn_mailbox_reset s = s\<lparr>mbox_irq := (mbox_irq s)(0 := 0, 1 := 0), mutex := MAILBOX_MUTEX_EX\<rparr>"

definition mcxn_mailbox_post_load :: "MCXNMailboxState \<Rightarrow> MCXNMailboxState" where
  "mcxn_mailbox_post_load s = mcxn_mailbox_update_irq s"

section \<open>The mutex handshake\<close>

text \<open>A core takes the mutex by reading 1 from MUTEX and releases it by any write.\<close>

definition mailbox_mutex_free :: "MCXNMailboxState \<Rightarrow> bool" where
  "mailbox_mutex_free s \<longleftrightarrow> tst (mutex s) MAILBOX_MUTEX_EX"

definition mailbox_mutex_held :: "nat \<Rightarrow> MCXNMailboxState \<Rightarrow> bool" where
  "mailbox_mutex_held c s \<longleftrightarrow> \<not> tst (mutex s) MAILBOX_MUTEX_EX"

definition mailbox_mutex_lock :: "nat \<Rightarrow> MCXNMailboxState \<Rightarrow> bool \<times> MCXNMailboxState" where
  "mailbox_mutex_lock c s = (case mcxn_mailbox_read s MAILBOX_MUTEX of (v, s') \<Rightarrow> (v = 1, s'))"

definition mailbox_mutex_unlock :: "nat \<Rightarrow> MCXNMailboxState \<Rightarrow> MCXNMailboxState" where
  "mailbox_mutex_unlock c s = mcxn_mailbox_write s MAILBOX_MUTEX 1"

definition mailbox_elsewhere :: "MCXNMailboxState \<Rightarrow> MCXNMailboxState \<Rightarrow> bool" where
  "mailbox_elsewhere s s' \<longleftrightarrow> (\<exists>off v. off \<noteq> MAILBOX_MUTEX \<and>
     (s' = mcxn_mailbox_write s off v \<or> s' = snd (mcxn_mailbox_read s off)))"

lemma mutex_update_irq [simp]: "mutex (mcxn_mailbox_update_irq s) = mutex s"
  by (simp add: mcxn_mailbox_update_irq_def)

lemma mutex_elsewhere: "mailbox_elsewhere s s' \<Longrightarrow> mutex s' = mutex s"
  by (auto simp: mailbox_elsewhere_def mcxn_mailbox_write_def mcxn_mailbox_read_def Let_def
      split: if_splits)

lemma and_flag_0_eq: "v AND flag 0 = (if bit v 0 then 1 else 0)" for v :: u32
  by (rule bit_word_eqI) (auto simp: bit_simps intro!: gr0I)

lemma lock_result:
  "mailbox_mutex_lock c s = (bit (mutex s) 0, s\<lparr>mutex := mutex s AND NOT MAILBOX_MUTEX_EX\<rparr>)"
  by (simp add: mailbox_mutex_lock_def mcxn_mailbox_read_def mailbox_consts and_flag_0_eq)

interpretation mbox: lock_device "\<lambda>c::nat. c < 2" mailbox_mutex_free mailbox_mutex_held
  mailbox_mutex_lock mailbox_mutex_unlock mailbox_elsewhere
  by unfold_locales
     (auto simp: mailbox_mutex_free_def mailbox_mutex_held_def lock_result mailbox_mutex_unlock_def
        mcxn_mailbox_write_def mailbox_consts dest: mutex_elsewhere)

lemma reset_free: "mailbox_mutex_free (mcxn_mailbox_reset s)"
  by (simp add: mailbox_mutex_free_def mcxn_mailbox_reset_def bit_simps)

section \<open>Interrupt lines\<close>

definition mailbox_lines_ok :: "MCXNMailboxState \<Rightarrow> bool" where
  "mailbox_lines_ok s \<longleftrightarrow> (\<forall>c < 2. line_level (mbox_out s) (Mbox_out c) = (mbox_irq s c \<noteq> 0))"

lemma less_2_cases_nat: "(\<forall>c < 2. P c) \<longleftrightarrow> P 0 \<and> P (1::nat)"
  by (auto simp: numeral_2_eq_2 less_Suc_eq)

text \<open>One register access by either core.\<close>

datatype mailbox_access = Mbox_read nat | Mbox_write nat u64

fun mailbox_step :: "mailbox_access \<Rightarrow> MCXNMailboxState \<Rightarrow> MCXNMailboxState" where
  "mailbox_step (Mbox_read off) s = snd (mcxn_mailbox_read s off)"
| "mailbox_step (Mbox_write off v) s = mcxn_mailbox_write s off v"

lemma update_irq_lines [simp]: "mailbox_lines_ok (mcxn_mailbox_update_irq s)"
  by (simp add: mailbox_lines_ok_def mcxn_mailbox_update_irq_def less_2_cases_nat)

lemma lines_ok_mutex [simp]: "mailbox_lines_ok (s\<lparr>mutex := m\<rparr>) = mailbox_lines_ok s"
  by (simp add: mailbox_lines_ok_def)

lemma mailbox_step_lines: "mailbox_lines_ok s \<Longrightarrow> mailbox_lines_ok (mailbox_step a s)"
  by (cases a) (simp_all add: mcxn_mailbox_read_def mcxn_mailbox_write_def Let_def)

lemma mailbox_run_lines: "mailbox_lines_ok s \<Longrightarrow> mailbox_lines_ok (fold mailbox_step as s)"
  by (induction as arbitrary: s) (simp_all add: mailbox_step_lines)

lemma mailbox_set_pending:
  "mbox_irq (mcxn_mailbox_write s MAILBOX_IRQSET0 v) = (mbox_irq s)(0 := mbox_irq s 0 OR ucast v)"
  "mbox_irq (mcxn_mailbox_write s MAILBOX_IRQSET1 v) = (mbox_irq s)(1 := mbox_irq s 1 OR ucast v)"
  by (simp_all add: mcxn_mailbox_write_def mailbox_consts mcxn_mailbox_update_irq_def Let_def)

section \<open>Properties\<close>

text \<open>
  C17: over any interleaving of mutex reads and releases of the two cores and of accesses to
  the other mailbox registers, starting from reset, at most one core holds the mutex, and a
  mutex nobody holds is granted to the next core that reads it.
\<close>

theorem mailbox_mutual_exclusion:
  assumes "lock_run (\<lambda>c. c < 2) mailbox_mutex_lock mailbox_mutex_unlock mailbox_elsewhere
             (mcxn_mailbox_reset s0) s H"
  shows "(\<forall>a \<in> H. \<forall>b \<in> H. a = b) \<and> (H = {} \<longrightarrow> (\<forall>c < 2. fst (mailbox_mutex_lock c s)))"
  using mbox.mutual_exclusion [OF assms reset_free] mbox.obtainable [OF _ reset_free, of s0 s] assms
  by blast

lemma core_takes_mutex:
  "lock_run (\<lambda>c. c < 2) mailbox_mutex_lock mailbox_mutex_unlock mailbox_elsewhere
     (mcxn_mailbox_reset s) ((mcxn_mailbox_reset s)\<lparr>mutex := 0\<rparr>) {1}"
proof -
  have "mailbox_mutex_lock 1 (mcxn_mailbox_reset s) = (True, (mcxn_mailbox_reset s)\<lparr>mutex := 0\<rparr>)"
    by (simp add: lock_result mcxn_mailbox_reset_def bit_simps)
  with lock_run.attempt [OF lock_run.start [of "\<lambda>c. c < 2" mailbox_mutex_lock mailbox_mutex_unlock
        mailbox_elsewhere "mcxn_mailbox_reset s"], of 1]
  show ?thesis by simp
qed

theorem mailbox_mutual_exclusion_witness:
  "let s0 = \<lparr>mbox_irq = (\<lambda>_. 0), mutex = 0, mbox_out = []\<rparr>;
       s1 = (mcxn_mailbox_reset s0)\<lparr>mutex := 0\<rparr>
   in lock_run (\<lambda>c. c < 2) mailbox_mutex_lock mailbox_mutex_unlock mailbox_elsewhere
        (mcxn_mailbox_reset s0) s1 {1}
      \<and> (\<forall>a \<in> {1::nat}. \<forall>b \<in> {1}. a = b) \<and> \<not> fst (mailbox_mutex_lock 0 s1)"
  using mailbox_mutual_exclusion [OF core_takes_mutex] core_takes_mutex
  by (auto simp: Let_def lock_result)

text \<open>
  After any sequence of register accesses from a state whose lines are published, the
  interrupt line of each core is high exactly when its IRQ word is non-zero, and a set
  request adds the written bits to the word of the addressed core alone.
\<close>

theorem mailbox_lines_track:
  assumes "mailbox_lines_ok s"
  shows "(\<forall>c < 2. line_level (mbox_out (fold mailbox_step as s)) (Mbox_out c)
              = (mbox_irq (fold mailbox_step as s) c \<noteq> 0))
       \<and> mbox_irq (mcxn_mailbox_write s MAILBOX_IRQSET0 v) = (mbox_irq s)(0 := mbox_irq s 0 OR ucast v)
       \<and> mbox_irq (mcxn_mailbox_write s MAILBOX_IRQSET1 v) = (mbox_irq s)(1 := mbox_irq s 1 OR ucast v)"
  using mailbox_run_lines [OF assms, of as] mailbox_set_pending
  by (simp add: mailbox_lines_ok_def)

theorem mailbox_lines_track_witness:
  "let s = mcxn_mailbox_update_irq
             (mcxn_mailbox_reset \<lparr>mbox_irq = (\<lambda>_. 0), mutex = 0, mbox_out = []\<rparr>);
       as = [Mbox_write MAILBOX_IRQSET1 4, Mbox_read MAILBOX_MUTEX]
   in line_level (mbox_out (fold mailbox_step as s)) (Mbox_out 1)
        = (mbox_irq (fold mailbox_step as s) 1 \<noteq> 0)
      \<and> mbox_irq (fold mailbox_step as s) 1 = 4"
  using mailbox_lines_track [of "mcxn_mailbox_update_irq
      (mcxn_mailbox_reset \<lparr>mbox_irq = (\<lambda>_. 0), mutex = 0, mbox_out = []\<rparr>)"
      "[Mbox_write MAILBOX_IRQSET1 4, Mbox_read MAILBOX_MUTEX]"]
  by (simp add: Let_def mcxn_mailbox_read_def mcxn_mailbox_write_def mcxn_mailbox_reset_def
      mcxn_mailbox_update_irq_def mailbox_consts)

end
