(* ===== verification/Mcxn_Crc.thy ===== *)
theory Mcxn_Crc
  imports Mcxn_Prelude
begin

text \<open>
  The CRC engine (\<^verbatim>\<open>hw/misc/mcxn_crc.c\<close>).  The bit-serial update of the C code is
  related to schoolbook polynomial division over GF(2), for both register widths.
\<close>

section \<open>Model\<close>

record MCXNCRCState =
  crc_data :: u32
  gpoly :: u32
  crc_ctrl :: u32

definition CRC_DATA :: nat where "CRC_DATA = 0x0"
definition CRC_GPOLY :: nat where "CRC_GPOLY = 0x4"
definition CRC_CTRL :: nat where "CRC_CTRL = 0x8"

lemmas crc_consts = CRC_DATA_def CRC_GPOLY_def CRC_CTRL_def

abbreviation CRC_CTRL_TCRC :: u32 where "CRC_CTRL_TCRC \<equiv> flag 24"
abbreviation CRC_CTRL_WAS :: u32 where "CRC_CTRL_WAS \<equiv> flag 25"
abbreviation CRC_CTRL_FXOR :: u32 where "CRC_CTRL_FXOR \<equiv> flag 26"

definition crc_totr :: "u32 \<Rightarrow> nat" where "crc_totr ctrl = unat (drop_bit 28 (ctrl AND push_bit 28 3))"
definition crc_tot :: "u32 \<Rightarrow> nat" where "crc_tot ctrl = unat (drop_bit 30 (ctrl AND push_bit 30 3))"

definition CRC_GPOLY_RESET :: u32 where "CRC_GPOLY_RESET = 0x00001021"

definition revbit8 :: "u8 \<Rightarrow> u8" where
  "revbit8 x =
     (let y = drop_bit 4 (x AND 0xf0) OR push_bit 4 (x AND 0x0f)
      in drop_bit 3 (y AND 0x88) OR drop_bit 1 (y AND 0x44)
           OR push_bit 1 (y AND 0x22) OR push_bit 3 (y AND 0x11))"

definition bswap32 :: "u32 \<Rightarrow> u32" where
  "bswap32 v =
     push_bit 24 (v AND 0xff) OR push_bit 8 (v AND 0xff00)
       OR drop_bit 8 (v AND 0xff0000) OR drop_bit 24 (v AND 0xff000000)"

definition transpose_bits_in_bytes :: "u32 \<Rightarrow> u32" where
  "transpose_bits_in_bytes v =
     fold (\<lambda>b r. r OR push_bit (b * 8) (ucast (revbit8 (ucast (drop_bit (b * 8) v AND 0xff)))))
       [0..<4] 0"

definition crc_transpose :: "u32 \<Rightarrow> nat \<Rightarrow> u32" where
  "crc_transpose v type =
     (if type = 0 then v
      else if type = 1 then transpose_bits_in_bytes v
      else if type = 2 then bswap32 (transpose_bits_in_bytes v)
      else if type = 3 then bswap32 v
      else v)"

definition crc32_update_byte :: "u32 \<Rightarrow> u8 \<Rightarrow> u32 \<Rightarrow> u32" where
  "crc32_update_byte crc byte poly =
     fold (\<lambda>i crc. if tst crc 0x80000000 then push_bit 1 crc XOR poly else push_bit 1 crc)
       [0..<8] (crc XOR push_bit 24 (ucast byte))"

definition crc16_update_byte :: "u32 \<Rightarrow> u8 \<Rightarrow> u32 \<Rightarrow> u32" where
  "crc16_update_byte crc byte poly =
     fold (\<lambda>i crc. if tst crc 0x8000 then (push_bit 1 crc XOR poly) AND 0xffff
                   else push_bit 1 crc AND 0xffff)
       [0..<8] (crc XOR push_bit 8 (ucast byte)) AND 0xffff"

definition crc_feed_data :: "MCXNCRCState \<Rightarrow> u32 \<Rightarrow> nat \<Rightarrow> MCXNCRCState" where
  "crc_feed_data s val nbytes =
     (let is32 = tst (crc_ctrl s) CRC_CTRL_TCRC;
          poly = (if is32 then gpoly s else gpoly s AND 0xffff);
          val = crc_transpose val (crc_tot (crc_ctrl s))
      in fold (\<lambda>b s. let byte = ucast (drop_bit ((nbytes - 1 - b) * 8) val AND 0xff)
                 in if is32 then s\<lparr>crc_data := crc32_update_byte (crc_data s) byte poly\<rparr>
                    else s\<lparr>crc_data := crc16_update_byte (crc_data s) byte poly\<rparr>)
           [0..<nbytes] s)"

definition crc_read_result :: "MCXNCRCState \<Rightarrow> u32" where
  "crc_read_result s =
     (let is32 = tst (crc_ctrl s) CRC_CTRL_TCRC;
          v = (if is32 then crc_data s else crc_data s AND 0xffff);
          v = crc_transpose v (crc_totr (crc_ctrl s))
      in if tst (crc_ctrl s) CRC_CTRL_FXOR then (if is32 then NOT v else NOT v AND 0xffff) else v)"

definition mcxn_crc_read :: "MCXNCRCState \<Rightarrow> nat \<Rightarrow> u64" where
  "mcxn_crc_read s offset =
     (if offset = CRC_DATA then ucast (crc_read_result s)
      else if offset = CRC_GPOLY then ucast (gpoly s)
      else if offset = CRC_CTRL then ucast (crc_ctrl s)
      else 0)"

definition mcxn_crc_write :: "MCXNCRCState \<Rightarrow> nat \<Rightarrow> u64 \<Rightarrow> nat \<Rightarrow> MCXNCRCState" where
  "mcxn_crc_write s offset val sz =
     (if offset = CRC_DATA then
        (if tst (crc_ctrl s) CRC_CTRL_WAS then
           s\<lparr>crc_data := (if tst (crc_ctrl s) CRC_CTRL_TCRC then ucast val else ucast val AND 0xffff)\<rparr>
         else crc_feed_data s (ucast val) sz)
      else if offset = CRC_GPOLY then s\<lparr>gpoly := ucast val\<rparr>
      else if offset = CRC_CTRL then s\<lparr>crc_ctrl := ucast val\<rparr>
      else s)"

definition mcxn_crc_reset :: "MCXNCRCState \<Rightarrow> MCXNCRCState" where
  "mcxn_crc_reset s = s\<lparr>crc_data := 0, gpoly := CRC_GPOLY_RESET, crc_ctrl := 0\<rparr>"

section \<open>Polynomial division over GF(2)\<close>

text \<open>
  A polynomial is its list of coefficients, highest power first.  \<open>xor_prefix\<close> adds
  one polynomial onto the leading coefficients of another; \<open>gf2_mod g p\<close> is the
  remainder of \<open>p\<close> modulo \<open>x^n + g\<close> with \<open>n = length g\<close>: while more than \<open>n\<close>
  coefficients are left, the leading one is eliminated.
\<close>

fun xor_prefix :: "bool list \<Rightarrow> bool list \<Rightarrow> bool list" where
  "xor_prefix [] q = q"
| "xor_prefix p [] = []"
| "xor_prefix (a # p) (b # q) = (a \<noteq> b) # xor_prefix p q"

lemma length_xor_prefix [simp]: "length (xor_prefix p q) = length q"
  by (induction p q rule: xor_prefix.induct) auto

function gf2_mod :: "bool list \<Rightarrow> bool list \<Rightarrow> bool list" where
  "gf2_mod g p =
     (if length p \<le> length g then p
      else gf2_mod g (if hd p then xor_prefix g (tl p) else tl p))"
  by pat_completeness auto
termination
  by (relation "measure (\<lambda>(g, p). length p)") (auto simp: not_le dest: less_imp_Suc_add)

declare gf2_mod.simps [simp del]

text \<open>The bits of a word, most significant first, and of a message of bytes.\<close>

definition bits_of :: "'a::len word \<Rightarrow> bool list" where
  "bits_of w = map (bit w) (rev [0..<LENGTH('a)])"

definition message_bits :: "u8 list \<Rightarrow> bool list" where
  "message_bits bs = concat (map bits_of bs)"

text \<open>
  The reference checksum: the message followed by as many zeros as the generator is
  wide, the seed added onto its front, reduced modulo the generator.
\<close>

definition crc_reference :: "bool list \<Rightarrow> bool list \<Rightarrow> u8 list \<Rightarrow> bool list" where
  "crc_reference gen seed bs =
     gf2_mod gen (xor_prefix seed (message_bits bs @ replicate (length gen) False))"

section \<open>The update of the engine is a step of the division\<close>

definition crc_step :: "'a::len word \<Rightarrow> 'a word \<Rightarrow> bool \<Rightarrow> 'a word" where
  "crc_step poly c b =
     (if bit c (LENGTH('a) - 1) \<noteq> b then push_bit 1 c XOR poly else push_bit 1 c)"

lemma bits_of_xor: "bits_of (a XOR b) = xor_prefix (bits_of a) (bits_of b)"
proof -
  have "map (bit (a XOR b)) xs = xor_prefix (map (bit a) xs) (map (bit b) xs)" for xs
    by (induction xs) (auto simp: bit_simps)
  then show ?thesis by (simp add: bits_of_def)
qed

lemma length_bits_of [simp]: "length (bits_of (w :: 'a::len word)) = LENGTH('a)"
  by (simp add: bits_of_def)

lemma xor_prefix_comm: "length p = length q \<Longrightarrow> xor_prefix p q = xor_prefix q p"
  by (induction p q rule: list_induct2) auto

lemma xor_prefix_assoc:
  "xor_prefix p (xor_prefix q r) = xor_prefix (xor_prefix p q) r" if "length p = length q"
  using that by (induction p q arbitrary: r rule: list_induct2) (auto, case_tac r, auto)

lemma bits_of_rev: "bits_of (w::'a::len word) = bit w (LENGTH('a) - 1) # map (bit w) (rev [0..<LENGTH('a) - 1])"
proof -
  obtain n where "LENGTH('a) = Suc n" using len_gt_0 [where ?'a='a] by (metis gr0_implies_Suc)
  then show ?thesis by (simp add: bits_of_def)
qed

lemma bits_of_shift:
  "bits_of (push_bit 1 (w::'a::len word)) = tl (bits_of w) @ [False]"
proof -
  obtain n where n: "LENGTH('a) = Suc n" using len_gt_0 [where ?'a='a] by (metis gr0_implies_Suc)
  have "map (bit (push_bit 1 w)) (rev [0..<Suc n]) = map (bit w) (rev [0..<n]) @ [False]"
  proof -
    have "rev [0..<Suc n] = rev (map Suc [0..<n]) @ [0]"
      by (metis map_Suc_upt rev_append append_Nil rev.simps(2) upt_conv_Cons zero_less_Suc rev_rev_ident)
    moreover have "bit (push_bit 1 w) (Suc k) = bit w k" if "k < n" for k
      using that n by (simp add: bit_push_bit_iff del: push_bit_Suc)
    ultimately show ?thesis by (auto simp: rev_map bit_push_bit_iff simp del: push_bit_Suc One_nat_def)
  qed
  then show ?thesis by (simp add: bits_of_def n)
qed

lemma bits_of_step:
  "bits_of (crc_step poly c b) =
     (if hd (bits_of c) \<noteq> b then xor_prefix (bits_of poly) (tl (bits_of c) @ [False])
      else tl (bits_of c) @ [False])"
  by (auto simp: crc_step_def bits_of_xor bits_of_shift xor_prefix_comm bits_of_rev [of c]
      simp del: push_bit_Suc One_nat_def)

lemma xor_prefix_pad: "length p \<le> length q \<Longrightarrow> xor_prefix (p @ [False]) q = xor_prefix p q"
  by (induction p q rule: xor_prefix.induct) (auto, case_tac q, auto)

lemma gf2_mod_step:
  fixes c poly :: "'a::len word"
  assumes "LENGTH('a) \<le> length r"
  shows "gf2_mod (bits_of poly) (xor_prefix (bits_of c) (b # r))
       = gf2_mod (bits_of poly) (xor_prefix (bits_of (crc_step poly c b)) r)"
proof -
  define h t where "h = hd (bits_of c)" and "t = tl (bits_of c)"
  have ht: "bits_of c = h # t" using length_bits_of [of c] unfolding h_def t_def
    by (metis len_gt_0 length_greater_0_conv list.exhaust_sel)
  have lt: "length t = LENGTH('a) - 1" using length_bits_of [of c] ht by simp
  have "gf2_mod (bits_of poly) (xor_prefix (bits_of c) (b # r))
      = gf2_mod (bits_of poly) (if h \<noteq> b then xor_prefix (bits_of poly) (xor_prefix t r) else xor_prefix t r)"
    using assms by (subst gf2_mod.simps) (simp add: ht)
  also have "\<dots> = gf2_mod (bits_of poly) (xor_prefix (bits_of (crc_step poly c b)) r)"
    using assms lt len_gt_0 [where ?'a='a]
    by (auto simp: bits_of_step ht xor_prefix_pad xor_prefix_assoc [symmetric])
  finally show ?thesis .
qed

lemma gf2_mod_crc:
  fixes c poly :: "'a::len word"
  shows "gf2_mod (bits_of poly) (xor_prefix (bits_of c) (ms @ replicate LENGTH('a) False))
       = bits_of (foldl (crc_step poly) c ms)"
proof (induction ms arbitrary: c)
  case Nil
  have "xor_prefix p (replicate (length p) False) = p" for p by (induction p) auto
  from this [of "bits_of c"] show ?case by (subst gf2_mod.simps) simp
next
  case (Cons m ms)
  then show ?case using gf2_mod_step [of "ms @ replicate LENGTH('a) False" poly c m] by simp
qed

lemma crc_step_xor_shift:
  fixes c poly :: "'a::len word" and byte :: u8
  assumes "8 \<le> LENGTH('a)" and "i < 8"
  shows "crc_step poly (c XOR push_bit (LENGTH('a) - 8 + i) (ucast byte)) False
       = crc_step poly c (bit byte (7 - i)) XOR push_bit (LENGTH('a) - 8 + Suc i) (ucast byte)"
proof -
  have *: "push_bit 1 (c XOR push_bit (LENGTH('a) - 8 + i) (ucast byte))
      = push_bit 1 c XOR push_bit (LENGTH('a) - 8 + Suc i) (ucast byte :: 'a word)"
    by (simp add: push_bit_xor del: push_bit_Suc)
  have "bit (push_bit (LENGTH('a) - 8 + i) (ucast byte :: 'a word)) (LENGTH('a) - 1) = bit byte (7 - i)"
    using assms by (auto simp: bit_simps)
  then have "bit (c XOR push_bit (LENGTH('a) - 8 + i) (ucast byte)) (LENGTH('a) - 1)
      = (bit c (LENGTH('a) - 1) \<noteq> bit byte (7 - i))"
    by (simp add: bit_xor_iff)
  then show ?thesis unfolding crc_step_def * by (auto simp: ac_simps)
qed

lemma crc_byte_steps:
  fixes c poly :: "'a::len word" and byte :: u8
  assumes "8 \<le> LENGTH('a)"
  shows "fold (\<lambda>i c. crc_step poly c False) [0..<8] (c XOR push_bit (LENGTH('a) - 8) (ucast byte))
       = foldl (crc_step poly) c (bits_of byte)"
proof -
  have "fold (\<lambda>i c. crc_step poly c False) [0..<n] (c XOR push_bit (LENGTH('a) - 8) (ucast byte))
      = foldl (crc_step poly) c (map (\<lambda>i. bit byte (7 - i)) [0..<n])
          XOR push_bit (LENGTH('a) - 8 + n) (ucast byte)" if "n \<le> 8" for n
    using that
  proof (induction n)
    case 0
    then show ?case by simp
  next
    case (Suc n)
    then show ?case using crc_step_xor_shift [OF assms, of n poly] by simp
  qed
  from this [of 8] have "fold (\<lambda>i c. crc_step poly c False) [0..<8] (c XOR push_bit (LENGTH('a) - 8) (ucast byte))
      = foldl (crc_step poly) c (map (\<lambda>i. bit byte (7 - i)) [0..<8])
          XOR push_bit LENGTH('a) (ucast byte)" using assms by simp
  moreover have "push_bit LENGTH('a) (w :: 'a word) = 0" for w
    by (rule bit_word_eqI) (simp add: bit_simps)
  moreover have "map (\<lambda>i. bit byte (7 - i)) [0..<8] = bits_of byte"
    by (simp add: bits_of_def upt_rec numeral_eq_Suc)
  ultimately show ?thesis by simp
qed

lemma tst_top32: "tst c 0x80000000 = bit c 31" for c :: u32
proof -
  have "(0x80000000 :: u32) = flag 31" by (simp add: flag_def)
  then show ?thesis by (metis tst_flag)
qed

lemma crc32_update_byte_steps:
  "crc32_update_byte crc byte poly = foldl (crc_step poly) crc (bits_of byte)"
  using crc_byte_steps [of poly crc byte]
  by (simp add: crc32_update_byte_def crc_step_def tst_top32 del: push_bit_Suc)

lemma tst_top16: "tst c 0x8000 = bit c 15" for c :: u32
proof -
  have "(0x8000 :: u32) = flag 15" by (simp add: flag_def)
  then show ?thesis by (metis tst_flag)
qed

lemma mask16: "(0xffff :: u32) = mask 16"
  by (simp add: mask_eq_exp_minus_1)

lemma crc16_step:
  "ucast (if tst c 0x8000 then (push_bit 1 c XOR poly) AND 0xffff else push_bit 1 c AND 0xffff)
     = crc_step (ucast poly :: u16) (ucast c) False" for c poly :: u32
  by (rule bit_word_eqI)
     (auto simp: tst_top16 mask16 crc_step_def bit_simps simp del: push_bit_Suc)

lemma crc16_update_byte_steps:
  "ucast (crc16_update_byte crc byte poly) = foldl (crc_step (ucast poly :: u16)) (ucast crc) (bits_of byte)"
proof -
  have fold_eq: "ucast (fold (\<lambda>i crc. if tst crc 0x8000 then (push_bit 1 crc XOR poly) AND 0xffff
                   else push_bit 1 crc AND 0xffff) xs (c::u32))
      = fold (\<lambda>i c. crc_step (ucast poly :: u16) c False) xs (ucast c)" for xs :: "nat list" and c
    by (induction xs arbitrary: c) (simp_all add: crc16_step)
  have m: "ucast (v AND 0xffff :: u32) = (ucast v :: u16)" for v
    by (rule bit_word_eqI) (simp add: mask16 bit_simps)
  have x: "(ucast (crc XOR push_bit 8 (ucast byte)) :: u16) = ucast crc XOR push_bit 8 (ucast byte)"
    by (rule bit_word_eqI) (auto simp: bit_simps)
  show ?thesis
    using crc_byte_steps [of "ucast poly :: u16" "ucast crc" byte]
    by (simp add: crc16_update_byte_def m fold_eq x)
qed

section \<open>Sequences of accesses to the data register\<close>

definition fed_bytes :: "u32 \<Rightarrow> u32 \<Rightarrow> nat \<Rightarrow> u8 list" where
  "fed_bytes ctrl val nbytes =
     map (\<lambda>b. ucast (drop_bit ((nbytes - 1 - b) * 8) (crc_transpose val (crc_tot ctrl)) AND 0xff))
       [0..<nbytes]"

lemma crc_feed_data_fed_bytes:
  "crc_feed_data s val nbytes =
     s\<lparr>crc_data := foldl (\<lambda>c byte. if tst (crc_ctrl s) CRC_CTRL_TCRC
                               then crc32_update_byte c byte (gpoly s)
                               else crc16_update_byte c byte (gpoly s AND 0xffff))
                    (crc_data s) (fed_bytes (crc_ctrl s) val nbytes)\<rparr>"
proof -
  have *: "fold (\<lambda>b s. s\<lparr>crc_data := f (crc_data s) (g b)\<rparr>) xs t
      = t\<lparr>crc_data := foldl f (crc_data t) (map g xs)\<rparr>"
    for f :: "u32 \<Rightarrow> u8 \<Rightarrow> u32" and g and xs :: "nat list" and t :: MCXNCRCState
    by (induction xs arbitrary: t) simp_all
  show ?thesis
    by (simp add: crc_feed_data_def fed_bytes_def Let_def
        * [of "\<lambda>c byte. crc32_update_byte c byte (gpoly s)"]
        * [of "\<lambda>c byte. crc16_update_byte c byte (gpoly s AND 0xffff)"])
qed

lemma crc_feed_data_fields [simp]:
  "gpoly (crc_feed_data s v n) = gpoly s" "crc_ctrl (crc_feed_data s v n) = crc_ctrl s"
  by (simp_all add: crc_feed_data_fed_bytes)

definition crc_data_writes :: "MCXNCRCState \<Rightarrow> (u64 \<times> nat) list \<Rightarrow> MCXNCRCState" where
  "crc_data_writes s ws = foldl (\<lambda>s (v, sz). mcxn_crc_write s CRC_DATA v sz) s ws"

definition fed_message :: "u32 \<Rightarrow> (u64 \<times> nat) list \<Rightarrow> u8 list" where
  "fed_message ctrl ws = concat (map (\<lambda>(v, sz). fed_bytes ctrl (ucast v) sz) ws)"

lemma crc_data_write:
  "\<not> tst (crc_ctrl s) CRC_CTRL_WAS \<Longrightarrow> mcxn_crc_write s CRC_DATA v sz = crc_feed_data s (ucast v) sz"
  by (simp add: mcxn_crc_write_def)

lemma crc_data_writes_fold:
  assumes "\<not> tst (crc_ctrl s) CRC_CTRL_WAS"
  shows "crc_data_writes s ws =
     s\<lparr>crc_data := foldl (\<lambda>c byte. if tst (crc_ctrl s) CRC_CTRL_TCRC
                               then crc32_update_byte c byte (gpoly s)
                               else crc16_update_byte c byte (gpoly s AND 0xffff))
                    (crc_data s) (fed_message (crc_ctrl s) ws)\<rparr>"
  using assms
proof (induction ws arbitrary: s)
  case Nil
  then show ?case by (simp add: crc_data_writes_def fed_message_def)
next
  case (Cons w ws)
  obtain v sz where w: "w = (v, sz)" by force
  have "crc_data_writes s (w # ws) = crc_data_writes (crc_feed_data s (ucast v) sz) ws"
    using Cons.prems by (simp add: crc_data_writes_def w crc_data_write)
  then show ?case
    using Cons.IH [of "crc_feed_data s (ucast v) sz"] Cons.prems
    by (simp add: crc_feed_data_fed_bytes fed_message_def w cong: if_cong)
qed

lemma foldl_concat_bits:
  "foldl (\<lambda>c byte. foldl f c (bits_of byte)) c bs = foldl f c (message_bits bs)" for bs :: "u8 list"
  by (induction bs arbitrary: c) (simp_all add: message_bits_def)

lemma crc16_fold:
  "ucast (foldl (\<lambda>c byte. crc16_update_byte c byte poly) c bs)
     = foldl (crc_step (ucast poly :: u16)) (ucast c) (message_bits bs)"
  by (induction bs arbitrary: c) (simp_all add: message_bits_def crc16_update_byte_steps)

lemma bit_bswap32:
  "bit (bswap32 v) n \<longleftrightarrow> n < 32 \<and> bit v (8 * (3 - n div 8) + n mod 8)"
proof (cases "n < 32")
  case True
  define k r where "k = n div 8" and "r = n mod 8"
  then have n: "n = 8 * k + r" and r: "r < 8" by simp_all
  then have k: "k = 0 \<or> k = 1 \<or> k = 2 \<or> k = 3" using True by auto
  have m: "(0xff :: u32) = mask 8" "(0xff00 :: u32) = push_bit 8 (mask 8)"
    "(0xff0000 :: u32) = push_bit 16 (mask 8)" "(0xff000000 :: u32) = push_bit 24 (mask 8)"
    by (simp_all add: mask_eq_exp_minus_1)
  have "bit (bswap32 v) (8 * k + r) = bit v (8 * (3 - k) + r)"
    using k r by (elim disjE) (auto simp: bswap32_def m bit_simps add.commute)
  then show ?thesis using True by (simp add: n [symmetric] k_def [symmetric] r_def [symmetric])
next
  case False
  then show ?thesis by (auto dest: bit_imp_le_length)
qed


lemma less_8_cases: "n = 0 \<or> n = 1 \<or> n = 2 \<or> n = 3 \<or> n = 4 \<or> n = 5 \<or> n = 6 \<or> n = 7"
  if "n < 8" for n :: nat
  using that by linarith

lemma bit_revbit8: "bit (revbit8 x) n \<longleftrightarrow> n < 8 \<and> bit x (7 - n)"
proof (cases "n < 8")
  case True
  then show ?thesis
    using less_8_cases [OF True]
    by (elim disjE) (simp_all add: revbit8_def bit_simps bit_numeral_rec
        bit_double_iff [of "_ :: u8", unfolded mult.commute [of 2]])
next
  case False
  then show ?thesis by (auto dest: bit_imp_le_length)
qed

lemma bit_transpose_bits_in_bytes:
  "bit (transpose_bits_in_bytes v) n \<longleftrightarrow> n < 32 \<and> bit v (8 * (n div 8) + (7 - n mod 8))"
proof (cases "n < 32")
  case True
  define k r where "k = n div 8" and "r = n mod 8"
  then have n: "n = 8 * k + r" and r: "r < 8" by simp_all
  then have k: "k = 0 \<or> k = 1 \<or> k = 2 \<or> k = 3" using True by auto
  have m: "(0xff :: u32) = mask 8" by (simp add: mask_eq_exp_minus_1)
  have "bit (transpose_bits_in_bytes v) (8 * k + r) = bit v (8 * k + (7 - r))"
    using k r
    by (elim disjE) (auto simp: transpose_bits_in_bytes_def upt_rec bit_revbit8 m bit_simps add.commute)
  then show ?thesis using True by (simp add: n [symmetric] k_def [symmetric] r_def [symmetric])
next
  case False
  then show ?thesis by (auto dest: bit_imp_le_length)
qed

lemma crc_transpose_low_half:
  assumes "\<And>i. 16 \<le> i \<Longrightarrow> \<not> bit v i" and "type = 2 \<or> type = 3" and "n < 16"
  shows "\<not> bit (crc_transpose v type) n"
proof -
  have "n div 8 \<le> 1" using assms(3) by presburger
  then have "16 \<le> 8 * (3 - n div 8) + k" for k by linarith
  moreover have "16 \<le> 8 * (3 - n div 8) + 7 - n mod 8" using \<open>n div 8 \<le> 1\<close> by linarith
  ultimately show ?thesis
    using assms(1,2)
    by (auto simp: crc_transpose_def bit_bswap32 bit_transpose_bits_in_bytes)
qed

lemma fed_bytes_transposed_out:
  assumes "unat val < 2 ^ (8 * sz)" and "sz = 1 \<or> sz = 2"
    and "crc_tot ctrl = 2 \<or> crc_tot ctrl = 3"
  shows "fed_bytes ctrl val sz = replicate sz 0"
proof -
  have hi: "\<not> bit val i" if "16 \<le> i" for i
    using bit_less_exp [of val "8 * sz" i] assms(1,2) that by auto
  have m: "(0xff :: u32) = mask 8" by (simp add: mask_eq_exp_minus_1)
  have "(ucast (drop_bit ((sz - 1 - b) * 8) (crc_transpose val (crc_tot ctrl)) AND 0xff) :: u8) = 0" for b
    using crc_transpose_low_half [OF hi assms(3)] assms(2)
    by (intro bit_word_eqI) (auto simp: m bit_simps)
  then show ?thesis by (simp add: fed_bytes_def map_replicate_const)
qed

section \<open>Properties\<close>

text \<open>
  C6: in 32-bit mode, the checksum register after any sequence of byte, halfword and word
  writes to the data register is the remainder of the message, as transposed by the TOT
  field, on division by the programmed polynomial, seeded with the previous register value.
\<close>

theorem crc32_polynomial_remainder:
  assumes "tst (crc_ctrl s) CRC_CTRL_TCRC" and "\<not> tst (crc_ctrl s) CRC_CTRL_WAS"
  shows "bits_of (crc_data (crc_data_writes s ws))
       = crc_reference (bits_of (gpoly s)) (bits_of (crc_data s)) (fed_message (crc_ctrl s) ws)"
  using assms gf2_mod_crc [of "gpoly s"]
  by (simp add: crc_data_writes_fold crc32_update_byte_steps foldl_concat_bits crc_reference_def)

theorem crc32_polynomial_remainder_witness:
  "let s = \<lparr>crc_data = 0xffffffff, gpoly = 0x04c11db7, crc_ctrl = 0x01000000\<rparr>;
       ws = [(0x31, 1), (0x32, 1)]
   in bits_of (crc_data (crc_data_writes s ws))
        = crc_reference (bits_of (gpoly s)) (bits_of (crc_data s)) (fed_message (crc_ctrl s) ws)
      \<and> fed_message (crc_ctrl s) ws = [0x31, 0x32]
      \<and> crc_data (crc_data_writes s ws) = 0x3fec5e6a"
  unfolding Let_def
  by (intro conjI crc32_polynomial_remainder) (code_simp, code_simp, code_simp, code_simp)

text \<open>
  In 16-bit mode the low half of the checksum register is the same remainder with the
  low half of the polynomial register as the generator.
\<close>

theorem crc16_polynomial_remainder:
  assumes "\<not> tst (crc_ctrl s) CRC_CTRL_TCRC" and "\<not> tst (crc_ctrl s) CRC_CTRL_WAS"
  shows "bits_of (ucast (crc_data (crc_data_writes s ws)) :: u16)
       = crc_reference (bits_of (ucast (gpoly s) :: u16)) (bits_of (ucast (crc_data s) :: u16))
           (fed_message (crc_ctrl s) ws)"
proof -
  have "(ucast (gpoly s AND 0xffff) :: u16) = ucast (gpoly s)"
    by (rule bit_word_eqI) (simp add: mask16 bit_simps)
  then show ?thesis
    using assms gf2_mod_crc [of "ucast (gpoly s) :: u16"]
    by (simp add: crc_data_writes_fold crc16_fold crc_reference_def)
qed

theorem crc16_polynomial_remainder_witness:
  "let s = \<lparr>crc_data = 0xffff, gpoly = CRC_GPOLY_RESET, crc_ctrl = 0\<rparr>;
       ws = [(0x3132, 2)]
   in bits_of (ucast (crc_data (crc_data_writes s ws)) :: u16)
        = crc_reference (bits_of (ucast (gpoly s) :: u16)) (bits_of (ucast (crc_data s) :: u16))
            (fed_message (crc_ctrl s) ws)
      \<and> crc_data (crc_data_writes s ws) = 0x3dba"
  unfolding Let_def
  by (intro conjI crc16_polynomial_remainder) (simp, simp, code_simp)

text \<open>
  With a byte-swapping TOT setting (2 or 3), a byte or halfword write feeds zeros: the
  swap is done on the whole 32-bit word, which moves the written bytes out of the low bytes
  the engine then consumes.  The register after the write does not depend on the value.
\<close>

lemma crc_narrow_write_ignores_value:
  assumes "unat val < 2 ^ (8 * sz)" and "sz = 1 \<or> sz = 2"
    and "crc_tot (crc_ctrl s) = 2 \<or> crc_tot (crc_ctrl s) = 3"
    and "\<not> tst (crc_ctrl s) CRC_CTRL_WAS"
  shows "mcxn_crc_write s CRC_DATA val sz = mcxn_crc_write s CRC_DATA 0 sz"
proof -
  have "unat (ucast val :: u32) < 2 ^ (8 * sz)"
    using assms(1) by (metis unat_ucast_le order.strict_trans1)
  then show ?thesis
    using assms fed_bytes_transposed_out [of "ucast val" sz "crc_ctrl s"]
      fed_bytes_transposed_out [of 0 sz "crc_ctrl s"]
    by (simp add: crc_data_write crc_feed_data_fed_bytes del: tst_flag)
qed

text \<open>
  In 16-bit mode, a byte-swapping TOTR setting (2 or 3) together with the final
  complement makes every read of the result return 0xFFFF, whatever was fed: the 16-bit
  value is swapped as a 32-bit word into the upper half, which the mask then drops.
\<close>

lemma crc16_swapped_complement_constant:
  assumes "\<not> tst (crc_ctrl s) CRC_CTRL_TCRC" and "tst (crc_ctrl s) CRC_CTRL_FXOR"
    and "crc_totr (crc_ctrl s) = 2 \<or> crc_totr (crc_ctrl s) = 3"
  shows "crc_read_result s = 0xffff"
proof -
  have "\<not> bit (crc_transpose (crc_data s AND 0xffff) (crc_totr (crc_ctrl s))) n" if "n < 16" for n
    by (rule crc_transpose_low_half [OF _ assms(3) that]) (simp add: mask16 bit_simps)
  then have "NOT (crc_transpose (crc_data s AND 0xffff) (crc_totr (crc_ctrl s))) AND 0xffff = 0xffff"
    by (intro bit_word_eqI) (auto simp: mask16 bit_simps)
  then show ?thesis using assms(1,2) by (simp add: crc_read_result_def)
qed

end
