(* ===== verification/Mcxn_Dac.thy ===== *)
theory Mcxn_Dac
  imports Mcxn_Interfaces
begin

text \<open>
  The DAC (\<^verbatim>\<open>hw/misc/mcxn_dac.c\<close>, \<^verbatim>\<open>include/hw/misc/mcxn_dac.h\<close>): the sample FIFO with
  its status flags, the software and hardware triggers, the interrupt line and the
  DMA request line.  \<open>hpdac\<close> selects the 14-bit part with the 32-entry FIFO.
\<close>

section \<open>Model\<close>

datatype dac_line = Dac_irq | Dac_dma_req

record MCXNDACState =
  dac_regs :: "nat \<Rightarrow> u32"
  dma_req_level :: bool
  hpdac :: bool
  dac_fifo :: "nat \<Rightarrow> u16"
  wptr :: nat
  rptr :: nat
  dac_count :: nat
  dac_out :: u32
  warned_ptg :: bool
  warned_swmd :: bool
  dac_lines :: "dac_line irq_log"

definition DAC_VERID :: nat where "DAC_VERID = 0x00"
definition DAC_PARAM :: nat where "DAC_PARAM = 0x04"
definition DAC_DATA :: nat where "DAC_DATA = 0x08"
definition DAC_GCR :: nat where "DAC_GCR = 0x0C"
definition DAC_FCR :: nat where "DAC_FCR = 0x10"
definition DAC_FPR :: nat where "DAC_FPR = 0x14"
definition DAC_FSR :: nat where "DAC_FSR = 0x18"
definition DAC_IER :: nat where "DAC_IER = 0x1C"
definition DAC_DER :: nat where "DAC_DER = 0x20"
definition DAC_RCR :: nat where "DAC_RCR = 0x24"
definition DAC_TCR :: nat where "DAC_TCR = 0x28"

lemmas dac_offsets = DAC_VERID_def DAC_PARAM_def DAC_DATA_def DAC_GCR_def DAC_FCR_def DAC_FPR_def
  DAC_FSR_def DAC_IER_def DAC_DER_def DAC_RCR_def DAC_TCR_def

abbreviation GCR_DACEN :: u32 where "GCR_DACEN \<equiv> flag 0"
abbreviation GCR_FIFOEN :: u32 where "GCR_FIFOEN \<equiv> flag 3"
abbreviation GCR_SWMD :: u32 where "GCR_SWMD \<equiv> flag 4"
abbreviation GCR_TRGSEL :: u32 where "GCR_TRGSEL \<equiv> flag 5"
abbreviation GCR_PTGEN :: u32 where "GCR_PTGEN \<equiv> flag 6"
abbreviation FSR_FULL :: u32 where "FSR_FULL \<equiv> flag 0"
abbreviation FSR_EMPTY :: u32 where "FSR_EMPTY \<equiv> flag 1"
abbreviation FSR_WM :: u32 where "FSR_WM \<equiv> flag 2"
abbreviation FSR_SWBK :: u32 where "FSR_SWBK \<equiv> flag 3"
abbreviation FSR_OF :: u32 where "FSR_OF \<equiv> flag 6"
abbreviation FSR_UF :: u32 where "FSR_UF \<equiv> flag 7"
abbreviation FSR_PTGCOCO :: u32 where "FSR_PTGCOCO \<equiv> flag 8"
abbreviation RCR_SWRST :: u32 where "RCR_SWRST \<equiv> flag 0"
abbreviation RCR_FIFORST :: u32 where "RCR_FIFORST \<equiv> flag 1"
abbreviation TCR_SWTRG :: u32 where "TCR_SWTRG \<equiv> flag 0"
abbreviation DER_EMPTY_DMAEN :: u32 where "DER_EMPTY_DMAEN \<equiv> flag 1"
abbreviation DER_WM_DMAEN :: u32 where "DER_WM_DMAEN \<equiv> flag 2"

definition FSR_W1C_MASK :: u32 where
  "FSR_W1C_MASK = FSR_SWBK OR FSR_OF OR FSR_UF OR FSR_PTGCOCO"

definition DAC_VERID_VALUE :: u32 where "DAC_VERID_VALUE = 0x01000000"

definition dac_depth :: "MCXNDACState \<Rightarrow> nat" where
  "dac_depth s = (if hpdac s then 32 else 16)"

definition dac_data_mask :: "MCXNDACState \<Rightarrow> u32" where
  "dac_data_mask s = (if hpdac s then 0x3FFF else 0x0FFF)"

definition dac_param :: "MCXNDACState \<Rightarrow> u32" where
  "dac_param s = (if hpdac s then 4 else 3)"

definition dac_fsr :: "MCXNDACState \<Rightarrow> u32" where
  "dac_fsr s =
     (let fsr = dac_regs s (DAC_FSR div 4) AND FSR_W1C_MASK;
          wml = unat (dac_regs s (DAC_FCR div 4) AND (if hpdac s then 0x1F else 0x0F));
          fsr = (if dac_count s = 0 then fsr OR FSR_EMPTY else fsr);
          fsr = (if dac_count s \<ge> dac_depth s then fsr OR FSR_FULL else fsr)
      in if dac_count s \<le> wml then fsr OR FSR_WM else fsr)"

text \<open>The request condition computed inside \<^verbatim>\<open>dac_update_irq\<close>.\<close>

definition dac_req :: "MCXNDACState \<Rightarrow> bool" where
  "dac_req s =
     (let fsr = dac_fsr s; der = dac_regs s (DAC_DER div 4)
      in tst fsr FSR_WM \<and> tst der DER_WM_DMAEN \<or> tst fsr FSR_EMPTY \<and> tst der DER_EMPTY_DMAEN)"

definition dac_update_irq :: "MCXNDACState \<Rightarrow> MCXNDACState" where
  "dac_update_irq s =
     (let s1 = s\<lparr>dac_lines := qemu_set_irq Dac_irq (tst (dac_fsr s) (dac_regs s (DAC_IER div 4))) (dac_lines s)\<rparr>;
          req = dac_req s
      in if req \<noteq> dma_req_level s
         then s1\<lparr>dma_req_level := req, dac_lines := qemu_set_irq Dac_dma_req req (dac_lines s1)\<rparr>
         else s1)"

definition dac_fifo_reset :: "MCXNDACState \<Rightarrow> MCXNDACState" where
  "dac_fifo_reset s =
     s\<lparr>wptr := 0, rptr := 0, dac_count := 0,
       dac_regs := (dac_regs s)(DAC_FSR div 4 := dac_regs s (DAC_FSR div 4) AND NOT FSR_W1C_MASK)\<rparr>"

definition dac_push :: "MCXNDACState \<Rightarrow> u32 \<Rightarrow> MCXNDACState" where
  "dac_push s value =
     (let v = value AND dac_data_mask s
      in if \<not> tst (dac_regs s (DAC_GCR div 4)) GCR_FIFOEN then s\<lparr>dac_out := v\<rparr>
         else if dac_count s \<ge> dac_depth s then
           dac_update_irq (s\<lparr>dac_regs := (dac_regs s)(DAC_FSR div 4 := dac_regs s (DAC_FSR div 4) OR FSR_OF)\<rparr>)
         else dac_update_irq (s\<lparr>dac_fifo := (dac_fifo s)(wptr s := ucast v),
                                wptr := (wptr s + 1) mod dac_depth s,
                                dac_count := dac_count s + 1\<rparr>))"

definition dac_trigger :: "MCXNDACState \<Rightarrow> MCXNDACState" where
  "dac_trigger s =
     (if \<not> tst (dac_regs s (DAC_GCR div 4)) GCR_DACEN then s
      else if \<not> tst (dac_regs s (DAC_GCR div 4)) GCR_FIFOEN then s
      else if dac_count s = 0 then
        dac_update_irq (s\<lparr>dac_regs := (dac_regs s)(DAC_FSR div 4 := dac_regs s (DAC_FSR div 4) OR FSR_UF)\<rparr>)
      else dac_update_irq (s\<lparr>dac_out := ucast (dac_fifo s (rptr s)),
                             rptr := (rptr s + 1) mod dac_depth s,
                             dac_count := dac_count s - 1\<rparr>))"

definition dac_hw_trigger :: "MCXNDACState \<Rightarrow> bool \<Rightarrow> MCXNDACState" where
  "dac_hw_trigger s level =
     (if \<not> level then s
      else if tst (dac_regs s (DAC_GCR div 4)) GCR_TRGSEL then s
      else dac_trigger s)"

definition mcxn_dac_read :: "MCXNDACState \<Rightarrow> nat \<Rightarrow> u64" where
  "mcxn_dac_read s offset =
     (if offset = DAC_VERID then ucast DAC_VERID_VALUE
      else if offset = DAC_PARAM then ucast (dac_param s)
      else if offset = DAC_DATA \<or> offset = DAC_TCR then 0
      else if offset = DAC_FPR then push_bit 16 (of_nat (wptr s)) OR of_nat (rptr s)
      else if offset = DAC_FSR then ucast (dac_fsr s)
      else ucast (dac_regs s (offset div 4)))"

definition mcxn_dac_write :: "MCXNDACState \<Rightarrow> nat \<Rightarrow> u64 \<Rightarrow> nat \<Rightarrow> MCXNDACState" where
  "mcxn_dac_write s offset value sz =
     (let v = ucast value :: u32
      in if offset = DAC_VERID \<or> offset = DAC_PARAM \<or> offset = DAC_FPR then s
         else if offset = DAC_DATA then dac_push s v
         else if offset = DAC_TCR then (if tst v TCR_SWTRG then dac_trigger s else s)
         else if offset = DAC_FSR then
           dac_update_irq (s\<lparr>dac_regs := (dac_regs s)
             (DAC_FSR div 4 := dac_regs s (DAC_FSR div 4) AND NOT (v AND FSR_W1C_MASK))\<rparr>)
         else if offset = DAC_IER then
           dac_update_irq (s\<lparr>dac_regs := (dac_regs s)(DAC_IER div 4 := v)\<rparr>)
         else if offset = DAC_DER \<or> offset = DAC_FCR then
           dac_update_irq (s\<lparr>dac_regs := (dac_regs s)(offset div 4 := v)\<rparr>)
         else if offset = DAC_RCR then
           (let s = (if tst v RCR_SWRST then (dac_fifo_reset (s\<lparr>dac_regs := (\<lambda>_. 0)\<rparr>))\<lparr>dac_out := 0\<rparr>
                     else if tst v RCR_FIFORST then dac_fifo_reset s else s)
            in dac_update_irq (s\<lparr>dac_regs := (dac_regs s)(DAC_RCR div 4 := 0)\<rparr>))
         else if offset = DAC_GCR then
           dac_update_irq (s\<lparr>dac_regs := (dac_regs s)(DAC_GCR div 4 := v),
                             warned_ptg := warned_ptg s \<or> tst v GCR_PTGEN,
                             warned_swmd := warned_swmd s \<or> tst v GCR_SWMD\<rparr>)
         else dac_update_irq (s\<lparr>dac_regs := (dac_regs s)
                (offset div 4 := subword_merge (dac_regs s (offset div 4)) offset sz v)\<rparr>))"

definition mcxn_dac_reset :: "MCXNDACState \<Rightarrow> MCXNDACState" where
  "mcxn_dac_reset s =
     (let s = dac_fifo_reset (s\<lparr>dac_regs := (\<lambda>_. 0), dac_fifo := (\<lambda>_. 0)\<rparr>)
      in s\<lparr>dac_out := 0, warned_ptg := False, warned_swmd := False,
           dac_lines := qemu_set_irq Dac_irq False (dac_lines s)\<rparr>)"

definition mcxn_dac_post_load :: "MCXNDACState \<Rightarrow> MCXNDACState" where
  "mcxn_dac_post_load s = dac_update_irq s"

section \<open>The FIFO\<close>

text \<open>The samples waiting for conversion, next one first, and the shape of the ring.\<close>

definition dac_contents :: "MCXNDACState \<Rightarrow> u16 list" where
  "dac_contents s = map (\<lambda>i. dac_fifo s ((rptr s + i) mod dac_depth s)) [0..<dac_count s]"

definition dac_ring_ok :: "MCXNDACState \<Rightarrow> bool" where
  "dac_ring_ok s \<longleftrightarrow>
     rptr s < dac_depth s \<and> dac_count s \<le> dac_depth s \<and> wptr s = (rptr s + dac_count s) mod dac_depth s"

lemma dac_depth_pos [simp]: "0 < dac_depth s"
  by (simp add: dac_depth_def)

lemma dac_update_irq_fields [simp]:
  "dac_regs (dac_update_irq s) = dac_regs s" "hpdac (dac_update_irq s) = hpdac s"
  "dac_fifo (dac_update_irq s) = dac_fifo s" "wptr (dac_update_irq s) = wptr s"
  "rptr (dac_update_irq s) = rptr s" "dac_count (dac_update_irq s) = dac_count s"
  "dac_out (dac_update_irq s) = dac_out s"
  by (simp_all add: dac_update_irq_def Let_def)

lemma dac_view_cong:
  assumes "hpdac s = hpdac t" and "dac_fifo s = dac_fifo t" and "wptr s = wptr t"
    and "rptr s = rptr t" and "dac_count s = dac_count t"
  shows "dac_contents s = dac_contents t" and "dac_ring_ok s = dac_ring_ok t"
  using assms by (simp_all add: dac_contents_def dac_ring_ok_def dac_depth_def)

lemma dac_view_update [simp]:
  "dac_contents (dac_update_irq s) = dac_contents s" "dac_ring_ok (dac_update_irq s) = dac_ring_ok s"
  by (rule dac_view_cong; simp)+

lemma dac_view_regs [simp]:
  "dac_contents (s\<lparr>dac_regs := r\<rparr>) = dac_contents s" "dac_ring_ok (s\<lparr>dac_regs := r\<rparr>) = dac_ring_ok s"
  by (rule dac_view_cong; simp)+

lemma ring_slot_distinct:
  assumes "i < n" and "n < d"
  shows "(r + i) mod d \<noteq> (r + n) mod (d :: nat)"
proof
  assume "(r + i) mod d = (r + n) mod d"
  then have "d dvd (r + n) - (r + i)" using assms(1) by (metis mod_eq_dvd_iff_nat add_le_cancel_left less_imp_le)
  then have "d dvd n - i" by simp
  then show False using assms by (auto dest: dvd_imp_le)
qed

lemma ring_push:
  fixes x :: u16
  assumes "dac_ring_ok s" and "dac_count s < dac_depth s"
  defines "t \<equiv> s\<lparr>dac_fifo := (dac_fifo s)(wptr s := x), wptr := (wptr s + 1) mod dac_depth s,
                 dac_count := dac_count s + 1\<rparr>"
  shows "dac_ring_ok t" and "dac_contents t = dac_contents s @ [x]"
proof -
  have d: "dac_depth t = dac_depth s" by (simp add: t_def dac_depth_def)
  show "dac_ring_ok t" using assms(1,2)
    by (simp add: dac_ring_ok_def d) (simp add: t_def mod_Suc_eq)
  have "(rptr s + i) mod dac_depth s \<noteq> wptr s" if "i < dac_count s" for i
    using assms(1,2) that ring_slot_distinct by (simp add: dac_ring_ok_def)
  then show "dac_contents t = dac_contents s @ [x]"
    using assms(1) unfolding dac_contents_def d by (simp add: t_def dac_ring_ok_def)
qed

lemma ring_pop:
  assumes "dac_ring_ok s" and "0 < dac_count s"
  defines "t \<equiv> s\<lparr>dac_out := ucast (dac_fifo s (rptr s)), rptr := (rptr s + 1) mod dac_depth s,
                 dac_count := dac_count s - 1\<rparr>"
  shows "dac_ring_ok t" and "dac_contents s = dac_fifo s (rptr s) # dac_contents t"
proof -
  obtain n where n: "dac_count s = Suc n" using assms(2) gr0_implies_Suc by blast
  have d: "dac_depth t = dac_depth s" by (simp add: t_def dac_depth_def)
  show "dac_ring_ok t" using assms(1)
    by (simp add: dac_ring_ok_def d) (simp add: t_def n mod_simps)
  have "[0..<Suc n] = 0 # map Suc [0..<n]" by (metis map_Suc_upt upt_conv_Cons zero_less_Suc)
  moreover have "rptr s mod dac_depth s = rptr s" using assms(1) by (simp add: dac_ring_ok_def)
  ultimately show "dac_contents s = dac_fifo s (rptr s) # dac_contents t"
    unfolding dac_contents_def d by (simp add: t_def n mod_simps comp_def)
qed

text \<open>The FIFO in use: converter and FIFO enabled on a part of the given kind.\<close>

definition dac_streaming :: "bool \<Rightarrow> MCXNDACState \<Rightarrow> bool" where
  "dac_streaming hp s \<longleftrightarrow> dac_ring_ok s \<and> hpdac s = hp
     \<and> tst (dac_regs s (DAC_GCR div 4)) GCR_FIFOEN \<and> tst (dac_regs s (DAC_GCR div 4)) GCR_DACEN"

definition dac_write_sample :: "u64 \<Rightarrow> MCXNDACState \<Rightarrow> MCXNDACState" where
  "dac_write_sample x s = mcxn_dac_write s DAC_DATA x 4"

definition dac_software_trigger :: "MCXNDACState \<Rightarrow> MCXNDACState" where
  "dac_software_trigger s = mcxn_dac_write s DAC_TCR 1 4"

definition dac_sample_value :: "bool \<Rightarrow> u64 \<Rightarrow> u16" where
  "dac_sample_value hp x = ucast x AND (if hp then 0x3FFF else 0x0FFF)"

lemma dac_sample_masked:
  "(ucast (ucast x AND dac_data_mask s) :: u16) = dac_sample_value (hpdac s) x"
proof -
  have "(0x3FFF :: u32) = mask 14" "(0x3FFF :: u16) = mask 14"
    "(0x0FFF :: u32) = mask 12" "(0x0FFF :: u16) = mask 12"
    by (simp_all add: mask_eq_exp_minus_1)
  then show ?thesis
    by (intro bit_word_eqI) (auto simp: dac_sample_value_def dac_data_mask_def bit_simps)
qed

lemma dac_write_sample_push [simp]: "dac_write_sample x s = dac_push s (ucast x)"
  by (simp add: dac_write_sample_def mcxn_dac_write_def dac_offsets)

lemma dac_software_trigger_pop [simp]: "dac_software_trigger s = dac_trigger s"
  by (simp add: dac_software_trigger_def mcxn_dac_write_def dac_offsets)

lemma length_dac_contents [simp]: "length (dac_contents s) = dac_count s"
  by (simp add: dac_contents_def)

lemma dac_push_contents:
  assumes "dac_streaming hp s"
  shows "dac_streaming hp (dac_push s (ucast x))"
    and "dac_contents (dac_push s (ucast x)) =
           (if dac_count s < dac_depth s then dac_contents s @ [dac_sample_value hp x] else dac_contents s)"
  using assms ring_push [of s "dac_sample_value hp x"]
  by (auto simp: dac_streaming_def dac_push_def Let_def dac_sample_masked dac_offsets)

lemma dac_trigger_contents:
  assumes "dac_streaming hp s"
  shows "dac_streaming hp (dac_trigger s)"
    and "dac_contents s = [] \<Longrightarrow> dac_contents (dac_trigger s) = [] \<and> dac_out (dac_trigger s) = dac_out s"
    and "dac_contents s = y # ys \<Longrightarrow> dac_contents (dac_trigger s) = ys \<and> dac_out (dac_trigger s) = ucast y"
  using assms ring_pop [of s] length_dac_contents [of s]
  by (auto simp: dac_streaming_def dac_trigger_def dac_offsets)

lemma dac_bounded_fifo:
  "bounded_fifo dac_write_sample dac_software_trigger (\<lambda>s. ucast (dac_out s)) (dac_sample_value hp)
     dac_contents (if hp then 32 else 16) (dac_streaming hp)"
proof
  fix s assume s: "dac_streaming hp s"
  then have d: "dac_depth s = (if hp then 32 else 16)" by (auto simp: dac_streaming_def dac_depth_def)
  from s d show "length (dac_contents s) \<le> (if hp then 32 else 16)"
    by (auto simp: dac_streaming_def dac_ring_ok_def)
  from s show "dac_streaming hp (dac_write_sample x s)" for x by (simp add: dac_push_contents)
  from s show "dac_streaming hp (dac_software_trigger s)" by (simp add: dac_trigger_contents)
  from s d show "dac_contents (dac_write_sample x s) = dac_contents s @ [dac_sample_value hp x]"
    if "length (dac_contents s) < (if hp then 32 else 16)" for x
    using that by (simp add: dac_push_contents)
  from s d show "dac_contents (dac_write_sample x s) = dac_contents s"
    if "length (dac_contents s) = (if hp then 32 else 16)" for x
    using that by (simp add: dac_push_contents)
  from s show "dac_contents (dac_software_trigger s) = ys \<and> ucast (dac_out (dac_software_trigger s)) = y"
    if "dac_contents s = y # ys" for y ys
    using that dac_trigger_contents(3) [OF s that] by (simp add: ucast_up_ucast_id is_up)
  from s show "dac_contents (dac_software_trigger s) = []" if "dac_contents s = []"
    using that by (simp add: dac_trigger_contents)
qed

interpretation lp_dac: bounded_fifo dac_write_sample dac_software_trigger "\<lambda>s. ucast (dac_out s)"
  "dac_sample_value False" dac_contents 16 "dac_streaming False"
  using dac_bounded_fifo [of False] by simp

interpretation hp_dac: bounded_fifo dac_write_sample dac_software_trigger "\<lambda>s. ucast (dac_out s)"
  "dac_sample_value True" dac_contents 32 "dac_streaming True"
  using dac_bounded_fifo [of True] by simp

section \<open>The lines\<close>

lemma dac_fsr_cong:
  "dac_regs s = dac_regs t \<Longrightarrow> dac_count s = dac_count t \<Longrightarrow> hpdac s = hpdac t \<Longrightarrow> dac_fsr s = dac_fsr t"
  by (simp add: dac_fsr_def dac_depth_def)

lemma dac_fsr_update_irq [simp]: "dac_fsr (dac_update_irq s) = dac_fsr s"
  by (rule dac_fsr_cong) simp_all

lemma dac_req_update_irq [simp]: "dac_req (dac_update_irq s) = dac_req s"
  by (simp add: dac_req_def)

lemma dac_dma_line_update:
  "dma_req_level (dac_update_irq s) = dac_req s"
  "line_level (dac_lines (dac_update_irq s)) Dac_dma_req =
     (if dac_req s = dma_req_level s then line_level (dac_lines s) Dac_dma_req else dac_req s)"
  by (auto simp: dac_update_irq_def Let_def)

interpretation dac_dma: request_line dac_req dma_req_level
  "\<lambda>s. line_level (dac_lines s) Dac_dma_req" dac_update_irq
  by unfold_locales (simp_all add: dac_dma_line_update)

text \<open>
  The lines are published: the DMA request line shows the remembered level, which is
  the request condition, and the interrupt line shows the enabled status flags.
\<close>

definition dac_lines_ok :: "MCXNDACState \<Rightarrow> bool" where
  "dac_lines_ok s \<longleftrightarrow> line_level (dac_lines s) Dac_dma_req = dma_req_level s
     \<and> dma_req_level s = dac_req s
     \<and> line_level (dac_lines s) Dac_irq = tst (dac_fsr s) (dac_regs s (DAC_IER div 4))"

lemma dac_update_irq_line [simp]:
  "line_level (dac_lines (dac_update_irq s)) Dac_irq = tst (dac_fsr s) (dac_regs s (DAC_IER div 4))"
  by (simp add: dac_update_irq_def Let_def)

lemma dac_update_irq_lines:
  assumes "line_level (dac_lines s) Dac_dma_req = dma_req_level s"
  shows "dac_lines_ok (dac_update_irq s)"
  using dac_dma.update_tracks [OF assms]
  by (auto simp: dac_lines_ok_def)

lemma dac_update_irq_ok:
  assumes "dac_lines_ok s" and "dac_ring_ok t"
    and "dac_lines t = dac_lines s" and "dma_req_level t = dma_req_level s"
  shows "dac_ring_ok (dac_update_irq t) \<and> dac_lines_ok (dac_update_irq t)"
  using assms dac_update_irq_lines [of t] by (simp add: dac_lines_ok_def [of s])

lemma dac_lines_ok_out [simp]: "dac_lines_ok (s\<lparr>dac_out := v\<rparr>) = dac_lines_ok s"
  by (simp add: dac_lines_ok_def dac_req_def dac_fsr_cong [of "s\<lparr>dac_out := v\<rparr>" s])

text \<open>What reaches the device: register writes of the guest and routed hardware triggers.\<close>

datatype dac_event = Dac_write nat u64 nat | Dac_hw_trigger bool

fun dac_step :: "dac_event \<Rightarrow> MCXNDACState \<Rightarrow> MCXNDACState" where
  "dac_step (Dac_write off v sz) s = mcxn_dac_write s off v sz"
| "dac_step (Dac_hw_trigger level) s = dac_hw_trigger s level"

lemma dac_ring_reset [simp]: "dac_ring_ok (dac_fifo_reset s)"
  by (simp add: dac_ring_ok_def dac_fifo_reset_def dac_depth_def)

lemma dac_ring_out [simp]:
  "dac_ring_ok (s\<lparr>dac_out := v\<rparr>) = dac_ring_ok s"
  "dac_ring_ok (s\<lparr>warned_ptg := a\<rparr>) = dac_ring_ok s"
  "dac_ring_ok (s\<lparr>warned_swmd := a\<rparr>) = dac_ring_ok s"
  by (rule dac_view_cong; simp)+

lemma dac_push_ok:
  assumes "dac_ring_ok s" and "dac_lines_ok s"
  shows "dac_ring_ok (dac_push s v) \<and> dac_lines_ok (dac_push s v)"
  using assms ring_push(1) [OF assms(1)]
  by (simp add: dac_push_def Let_def dac_update_irq_ok [OF assms(2)])

lemma dac_trigger_ok:
  assumes "dac_ring_ok s" and "dac_lines_ok s"
  shows "dac_ring_ok (dac_trigger s) \<and> dac_lines_ok (dac_trigger s)"
  using assms ring_pop(1) [OF assms(1)]
  by (simp add: dac_trigger_def dac_update_irq_ok [OF assms(2)])

lemma dac_fifo_reset_lines [simp]:
  "dac_lines (dac_fifo_reset s) = dac_lines s" "dma_req_level (dac_fifo_reset s) = dma_req_level s"
  by (simp_all add: dac_fifo_reset_def)

lemma dac_step_ok:
  assumes "dac_ring_ok s" and "dac_lines_ok s"
  shows "dac_ring_ok (dac_step e s) \<and> dac_lines_ok (dac_step e s)"
proof (cases e)
  case (Dac_write off v sz)
  show ?thesis
    using assms dac_push_ok [OF assms] dac_trigger_ok [OF assms]
    by (simp add: Dac_write mcxn_dac_write_def Let_def dac_update_irq_ok [OF assms(2)])
next
  case (Dac_hw_trigger level)
  then show ?thesis using assms by (simp add: dac_hw_trigger_def dac_trigger_ok)
qed

lemma dac_run_ok:
  "dac_ring_ok s \<Longrightarrow> dac_lines_ok s \<Longrightarrow> dac_ring_ok (fold dac_step es s) \<and> dac_lines_ok (fold dac_step es s)"
  by (induction es arbitrary: s) (simp_all add: dac_step_ok)

section \<open>Overflow\<close>

lemma dac_overflow_flag: "tst (dac_fsr s) FSR_OF \<longleftrightarrow> bit (dac_regs s (DAC_FSR div 4)) 6"
  by (simp add: dac_fsr_def Let_def FSR_W1C_MASK_def bit_simps)

lemma dac_push_overflow:
  assumes "dac_streaming hp s"
  shows "tst (dac_fsr (dac_push s x)) FSR_OF \<longleftrightarrow> tst (dac_fsr s) FSR_OF \<or> dac_depth s \<le> dac_count s"
  using assms
  by (auto simp: dac_overflow_flag dac_push_def Let_def dac_streaming_def simp del: tst_flag)

lemma dac_pushes_overflow:
  assumes "dac_streaming hp s"
  shows "tst (dac_fsr (fold dac_write_sample xs s)) FSR_OF \<longleftrightarrow>
           tst (dac_fsr s) FSR_OF \<or> xs \<noteq> [] \<and> dac_depth s < dac_count s + length xs"
  using assms
proof (induction xs arbitrary: s)
  case Nil
  then show ?case by simp
next
  case (Cons x xs)
  let ?t = "dac_push s (ucast x)"
  have t: "dac_streaming hp ?t" using Cons.prems by (rule dac_push_contents)
  then have "dac_depth ?t = dac_depth s" using Cons.prems by (simp add: dac_streaming_def dac_depth_def)
  moreover have "dac_count ?t = (if dac_count s < dac_depth s then dac_count s + 1 else dac_count s)"
    using arg_cong [OF dac_push_contents(2) [OF Cons.prems], of length x] by simp
  moreover have "dac_count s \<le> dac_depth s" using Cons.prems by (simp add: dac_streaming_def dac_ring_ok_def)
  ultimately show ?case
    using Cons.IH [OF t] dac_push_overflow [OF Cons.prems] by (cases "xs = []") auto
qed

section \<open>Properties\<close>

text \<open>
  C9: with the FIFO enabled and empty, a burst of DATA writes followed by triggers converts
  exactly the first \<open>depth\<close> samples (16 or 32), masked to the width of the part, in the order
  written; later ones are dropped, and FSR[OF] is set exactly when some were.
\<close>

theorem dac_fifo_delivers:
  assumes "dac_streaming (hpdac s) s" and "dac_count s = 0" and "\<not> tst (dac_fsr s) FSR_OF"
  shows "fifo_outs dac_software_trigger (\<lambda>s. ucast (dac_out s)) (min (dac_depth s) (length xs))
           (fold dac_write_sample xs s)
         = map (dac_sample_value (hpdac s)) (take (dac_depth s) xs)
       \<and> (tst (dac_fsr (fold dac_write_sample xs s)) FSR_OF \<longleftrightarrow> dac_depth s < length xs)"
proof -
  have "dac_contents s = []" using assms(2) by (simp add: dac_contents_def)
  then show ?thesis
    using assms lp_dac.burst [of s xs] hp_dac.burst [of s xs] dac_pushes_overflow [OF assms(1), of xs]
    by (cases "hpdac s") (auto simp: dac_depth_def simp del: tst_flag)
qed

theorem dac_fifo_delivers_witness:
  "let s = \<lparr>dac_regs = (\<lambda>_. 0)(DAC_GCR div 4 := 9), dma_req_level = False, hpdac = False,
             dac_fifo = (\<lambda>_. 0), wptr = 15, rptr = 15, dac_count = 0, dac_out = 7,
             warned_ptg = False, warned_swmd = False, dac_lines = []\<rparr>
   in fifo_outs dac_software_trigger (\<lambda>s. ucast (dac_out s)) 2
        (fold dac_write_sample [0x5123, 0x456] s) = [0x123, 0x456 :: u16]"
proof -
  define s where "s = \<lparr>dac_regs = (\<lambda>_. 0)(DAC_GCR div 4 := 9), dma_req_level = False, hpdac = False,
             dac_fifo = (\<lambda>_. 0), wptr = 15, rptr = 15, dac_count = 0, dac_out = 7,
             warned_ptg = False, warned_swmd = False, dac_lines = []\<rparr>"
  have "dac_streaming (hpdac s) s" "dac_count s = 0" "\<not> tst (dac_fsr s) FSR_OF" "dac_depth s = 16"
    "hpdac s = False"
    by (simp_all add: s_def dac_streaming_def dac_ring_ok_def dac_depth_def dac_fsr_def Let_def dac_offsets
        FSR_W1C_MASK_def bit_simps)
  moreover from this have "min (dac_depth s) (length [0x5123, 0x456 :: u64]) = 2"
    and "map (dac_sample_value (hpdac s)) (take (dac_depth s) [0x5123, 0x456]) = [0x123, 0x456]"
    by (simp_all add: dac_sample_value_def)
  ultimately show ?thesis
    using dac_fifo_delivers [of s "[0x5123, 0x456]"] unfolding s_def [symmetric] Let_def
    by (simp only: simp_thms)
qed

text \<open>
  C23: after any sequence of register writes and hardware triggers, the ring indices stay
  consistent and within the FIFO, the DMA request line is high exactly when an enabled
  watermark or empty condition holds, and the interrupt line is high exactly when an
  enabled status flag is set.
\<close>

theorem dac_lines_track:
  assumes "dac_ring_ok s" and "dac_lines_ok s"
  shows "let t = fold dac_step es s
         in wptr t < dac_depth t \<and> rptr t < dac_depth t \<and> dac_count t \<le> dac_depth t
            \<and> wptr t = (rptr t + dac_count t) mod dac_depth t
            \<and> line_level (dac_lines t) Dac_dma_req = dac_req t
            \<and> line_level (dac_lines t) Dac_irq = tst (dac_fsr t) (dac_regs t (DAC_IER div 4))"
  using dac_run_ok [OF assms, of es] by (auto simp: Let_def dac_ring_ok_def dac_lines_ok_def)

theorem dac_lines_track_witness:
  "let s = \<lparr>dac_regs = (\<lambda>_. 0), dma_req_level = False, hpdac = True, dac_fifo = (\<lambda>_. 0), wptr = 0,
             rptr = 0, dac_count = 0, dac_out = 0, warned_ptg = False, warned_swmd = False,
             dac_lines = []\<rparr>;
       t = fold dac_step [Dac_write DAC_GCR 9 4, Dac_write DAC_DER 4 4] s
   in line_level (dac_lines t) Dac_dma_req \<and> dac_req t"
proof -
  define s where "s = \<lparr>dac_regs = (\<lambda>_. 0), dma_req_level = False, hpdac = True, dac_fifo = (\<lambda>_. 0),
             wptr = 0, rptr = 0, dac_count = 0, dac_out = 0, warned_ptg = False, warned_swmd = False,
             dac_lines = []\<rparr>"
  let ?es = "[Dac_write DAC_GCR 9 4, Dac_write DAC_DER 4 4]"
  have "dac_ring_ok s" "dac_lines_ok s"
    by (simp_all add: s_def dac_ring_ok_def dac_depth_def dac_lines_ok_def dac_req_def Let_def)
  from dac_lines_track [OF this, of ?es]
  have "line_level (dac_lines (fold dac_step ?es s)) Dac_dma_req = dac_req (fold dac_step ?es s)"
    by (simp add: Let_def)
  moreover have "dac_req (fold dac_step ?es s)"
    by (simp add: s_def mcxn_dac_write_def dac_offsets Let_def)
       (simp add: dac_req_def dac_fsr_def dac_offsets Let_def)
  ultimately show ?thesis by (simp add: s_def Let_def)
qed

text \<open>
  A device reset neither lowers the DMA request line nor clears the remembered level, so
  when a request was standing, arming the watermark request as the first access after the
  reset makes the request condition true without any call on the line; from a low line the
  same access raises it.
\<close>

lemma dac_reset_keeps_request_level:
  "let t = mcxn_dac_write (mcxn_dac_reset s) DAC_DER 4 4
   in dac_req t \<and> filter (\<lambda>(l, _). l = Dac_dma_req) (dac_lines t) =
        filter (\<lambda>(l, _). l = Dac_dma_req) (dac_lines s)
          @ (if dma_req_level s then [] else [(Dac_dma_req, True)])"
proof -
  define r where "r = (mcxn_dac_reset s)\<lparr>dac_regs := (dac_regs (mcxn_dac_reset s))(DAC_DER div 4 := 4)\<rparr>"
  have t: "mcxn_dac_write (mcxn_dac_reset s) DAC_DER 4 4 = dac_update_irq r"
    by (simp add: mcxn_dac_write_def dac_offsets r_def)
  have "dac_req r"
    by (simp add: r_def dac_req_def dac_fsr_def mcxn_dac_reset_def dac_fifo_reset_def dac_offsets Let_def)
  moreover have "dma_req_level r = dma_req_level s" "dac_lines r = qemu_set_irq Dac_irq False (dac_lines s)"
    by (simp_all add: r_def mcxn_dac_reset_def Let_def)
  ultimately show ?thesis
    unfolding t by (simp add: Let_def) (simp add: dac_update_irq_def Let_def qemu_set_irq_def)
qed

end
