(* ===== verification/Mcxn_Sai.thy ===== *)
theory Mcxn_Sai
  imports Mcxn_Interfaces
begin

text \<open>
  The serial audio interface (\<^verbatim>\<open>hw/misc/mcxn_sai.c\<close>): two eight-word FIFOs, the word
  clock that drains the transmit FIFO at the programmed rate, the board-level loopback
  and the interrupt and DMA request lines.  The time of a register write is a parameter;
  the word timer is its armed deadline, if any.
\<close>

section \<open>Model\<close>

datatype sai_line = Sai_dma_req_tx | Sai_dma_req_rx | Sai_irq

record MCXNSAIState =
  sai_clk :: "u32 option"
  tx_dma_req :: bool
  rx_dma_req :: bool
  sai_regs :: "nat \<Rightarrow> u32"
  sai_loopback :: bool
  tx_fifo :: "nat \<Rightarrow> u32"
  tx_count :: nat
  rx_fifo :: "nat \<Rightarrow> u32"
  rx_count :: nat
  word_timer :: "int option"
  next_word_ns :: int
  sai_lines :: "sai_line irq_log"

definition MCXN_SAI_SIZE :: nat where "MCXN_SAI_SIZE = 0x1000"
definition MCXN_SAI_FIFO_DEPTH :: nat where "MCXN_SAI_FIFO_DEPTH = 8"

definition SAI_VERID :: nat where "SAI_VERID = 0x00"
definition SAI_PARAM :: nat where "SAI_PARAM = 0x04"
definition SAI_TCSR :: nat where "SAI_TCSR = 0x08"
definition SAI_TCR1 :: nat where "SAI_TCR1 = 0x0C"
definition SAI_TCR2 :: nat where "SAI_TCR2 = 0x10"
definition SAI_TCR5 :: nat where "SAI_TCR5 = 0x1C"
definition SAI_TDR0 :: nat where "SAI_TDR0 = 0x20"
definition SAI_TFR0 :: nat where "SAI_TFR0 = 0x40"
definition SAI_RCSR :: nat where "SAI_RCSR = 0x88"
definition SAI_RCR1 :: nat where "SAI_RCR1 = 0x8C"
definition SAI_RDR0 :: nat where "SAI_RDR0 = 0xA0"
definition SAI_RFR0 :: nat where "SAI_RFR0 = 0xC0"

lemmas sai_offsets = SAI_VERID_def SAI_PARAM_def SAI_TCSR_def SAI_TCR1_def SAI_TCR2_def
  SAI_TCR5_def SAI_TDR0_def SAI_TFR0_def SAI_RCSR_def SAI_RCR1_def SAI_RDR0_def SAI_RFR0_def
  MCXN_SAI_SIZE_def

abbreviation CSR_FRDE :: u32 where "CSR_FRDE \<equiv> flag 0"
abbreviation CSR_FRF :: u32 where "CSR_FRF \<equiv> flag 16"
abbreviation CSR_FWF :: u32 where "CSR_FWF \<equiv> flag 17"
abbreviation CSR_FEF :: u32 where "CSR_FEF \<equiv> flag 18"
abbreviation CSR_SEF :: u32 where "CSR_SEF \<equiv> flag 19"
abbreviation CSR_WSF :: u32 where "CSR_WSF \<equiv> flag 20"
abbreviation CSR_SR :: u32 where "CSR_SR \<equiv> flag 24"
abbreviation CSR_FR :: u32 where "CSR_FR \<equiv> flag 25"
abbreviation CSR_EN :: u32 where "CSR_EN \<equiv> flag 31"
abbreviation TCR2_BCD :: u32 where "TCR2_BCD \<equiv> flag 24"
abbreviation TCR2_BYP :: u32 where "TCR2_BYP \<equiv> flag 23"

definition CSR_FLAGS_W1C :: u32 where "CSR_FLAGS_W1C = CSR_FEF OR CSR_SEF OR CSR_WSF"
definition CSR_STICKY_FLAGS :: u32 where "CSR_STICKY_FLAGS = CSR_FEF OR CSR_SEF OR CSR_WSF"
definition SAI_FIFO_EXP :: u32 where "SAI_FIFO_EXP = 3"
definition SAI_VERID_VALUE :: u32 where "SAI_VERID_VALUE = 0x03010000"
definition SAI_PARAM_VALUE :: u32 where
  "SAI_PARAM_VALUE = push_bit 16 5 OR push_bit 8 SAI_FIFO_EXP OR 2"

definition sai_word_period_ns :: "MCXNSAIState \<Rightarrow> int" where
  "sai_word_period_ns s =
     (let tcr2 = sai_regs s (SAI_TCR2 div 4);
          bits = (drop_bit 16 (sai_regs s (SAI_TCR5 div 4)) AND 0x1F) + 1;
          mclk = (case sai_clk s of Some hz \<Rightarrow> hz | None \<Rightarrow> 0);
          bclk = (if tst tcr2 TCR2_BYP then ucast mclk
                  else ucast (mclk div (2 * ((tcr2 AND 0xFF) + 1)))) :: u64
      in if \<not> tst tcr2 TCR2_BCD then 0
         else if bclk = 0 then 0
         else sint (ucast bits * 1000000000 div bclk))"

definition sai_tcsr_flags :: "MCXNSAIState \<Rightarrow> u32" where
  "sai_tcsr_flags s =
     (let wm = unat (sai_regs s (SAI_TCR1 div 4) AND 0x7);
          f = sai_regs s (SAI_TCSR div 4) AND CSR_STICKY_FLAGS
      in if tx_count s \<le> wm then f OR (CSR_FRF OR CSR_FWF) else f)"

definition sai_rcsr_flags :: "MCXNSAIState \<Rightarrow> u32" where
  "sai_rcsr_flags s =
     (let wm = unat (sai_regs s (SAI_RCR1 div 4) AND 0x7);
          f = sai_regs s (SAI_RCSR div 4) AND CSR_STICKY_FLAGS
      in if rx_count s > wm then f OR (CSR_FRF OR CSR_FWF) else f)"

text \<open>The two request conditions and the interrupt condition of \<^verbatim>\<open>mcxn_sai_update_irq\<close>.\<close>

definition sai_tdma :: "MCXNSAIState \<Rightarrow> bool" where
  "sai_tdma s \<longleftrightarrow> tst (sai_tcsr_flags s) CSR_FRF \<and> tst (sai_regs s (SAI_TCSR div 4)) CSR_FRDE"

definition sai_rdma :: "MCXNSAIState \<Rightarrow> bool" where
  "sai_rdma s \<longleftrightarrow> tst (sai_rcsr_flags s) CSR_FRF \<and> tst (sai_regs s (SAI_RCSR div 4)) CSR_FRDE"

definition sai_irq_cond :: "MCXNSAIState \<Rightarrow> bool" where
  "sai_irq_cond s \<longleftrightarrow>
     tst (drop_bit 16 (sai_tcsr_flags s) AND 0x1F) (drop_bit 8 (sai_regs s (SAI_TCSR div 4)) AND 0x1F)
   \<or> tst (drop_bit 16 (sai_rcsr_flags s) AND 0x1F) (drop_bit 8 (sai_regs s (SAI_RCSR div 4)) AND 0x1F)"

definition mcxn_sai_update_irq :: "MCXNSAIState \<Rightarrow> MCXNSAIState" where
  "mcxn_sai_update_irq s =
     (let tdma = sai_tdma s; rdma = sai_rdma s; irq = sai_irq_cond s;
          s = (if tdma \<noteq> tx_dma_req s
               then s\<lparr>tx_dma_req := tdma, sai_lines := qemu_set_irq Sai_dma_req_tx tdma (sai_lines s)\<rparr> else s);
          s = (if rdma \<noteq> rx_dma_req s
               then s\<lparr>rx_dma_req := rdma, sai_lines := qemu_set_irq Sai_dma_req_rx rdma (sai_lines s)\<rparr> else s)
      in s\<lparr>sai_lines := qemu_set_irq Sai_irq irq (sai_lines s)\<rparr>)"

text \<open>\<^verbatim>\<open>memmove(&fifo[0], &fifo[1], (--count) * sizeof(fifo[0]))\<close> with the new count.\<close>

definition sai_shift_down :: "(nat \<Rightarrow> u32) \<Rightarrow> nat \<Rightarrow> nat \<Rightarrow> u32" where
  "sai_shift_down f n = (\<lambda>i. if i < n then f (i + 1) else f i)"

definition sai_or_reg :: "MCXNSAIState \<Rightarrow> nat \<Rightarrow> u32 \<Rightarrow> MCXNSAIState" where
  "sai_or_reg s off v = s\<lparr>sai_regs := (sai_regs s)(off div 4 := sai_regs s (off div 4) OR v)\<rparr>"

definition sai_send_word :: "MCXNSAIState \<Rightarrow> MCXNSAIState" where
  "sai_send_word s =
     (if tx_count s = 0 then sai_or_reg s SAI_TCSR CSR_FEF
      else
        let word = tx_fifo s 0;
            rcsr = sai_regs s (SAI_RCSR div 4);
            s = s\<lparr>tx_count := tx_count s - 1, tx_fifo := sai_shift_down (tx_fifo s) (tx_count s - 1)\<rparr>
        in if sai_loopback s \<and> tst rcsr CSR_EN then
             (if rx_count s < MCXN_SAI_FIFO_DEPTH
              then s\<lparr>rx_fifo := (rx_fifo s)(rx_count s := word), rx_count := rx_count s + 1\<rparr>
              else sai_or_reg s SAI_RCSR CSR_FEF)
           else s)"

definition mcxn_sai_word_tick :: "MCXNSAIState \<Rightarrow> MCXNSAIState" where
  "mcxn_sai_word_tick s =
     (if \<not> tst (sai_regs s (SAI_TCSR div 4)) CSR_EN then s
      else
        let s = sai_send_word s;
            period = sai_word_period_ns s;
            s = (if period > 0
                 then s\<lparr>next_word_ns := next_word_ns s + period, word_timer := Some (next_word_ns s + period)\<rparr>
                 else s\<lparr>word_timer := None\<rparr>)
        in mcxn_sai_update_irq s)"

definition sai_fifo_reset :: "MCXNSAIState \<Rightarrow> bool \<Rightarrow> bool \<Rightarrow> MCXNSAIState" where
  "sai_fifo_reset s tx rx =
     (let s = (if tx then s\<lparr>tx_count := 0, sai_regs := (sai_regs s)
                 (SAI_TCSR div 4 := sai_regs s (SAI_TCSR div 4) AND NOT CSR_FEF)\<rparr> else s)
      in if rx then s\<lparr>rx_count := 0, sai_regs := (sai_regs s)
                 (SAI_RCSR div 4 := sai_regs s (SAI_RCSR div 4) AND NOT CSR_FEF)\<rparr> else s)"

definition sai_csr_read :: "u32 \<Rightarrow> u32 \<Rightarrow> u32" where
  "sai_csr_read v flags =
     (v AND NOT (CSR_SR OR CSR_FR) AND NOT (CSR_FRF OR CSR_FWF OR CSR_FEF OR CSR_SEF OR CSR_WSF)) OR flags"

definition mcxn_sai_read :: "MCXNSAIState \<Rightarrow> nat \<Rightarrow> u64 \<times> MCXNSAIState" where
  "mcxn_sai_read s off =
     (let v = (if off < MCXN_SAI_SIZE then sai_regs s (off div 4) else 0)
      in if off = SAI_VERID then (ucast SAI_VERID_VALUE, s)
         else if off = SAI_PARAM then (ucast SAI_PARAM_VALUE, s)
         else if off = SAI_TCSR then (ucast (sai_csr_read v (sai_tcsr_flags s)), s)
         else if off = SAI_RCSR then (ucast (sai_csr_read v (sai_rcsr_flags s)), s)
         else if off = SAI_TFR0 \<or> off = SAI_TFR0 + 4 then (push_bit 16 (of_nat (tx_count s) AND 0xF), s)
         else if off = SAI_RFR0 \<or> off = SAI_RFR0 + 4 then (push_bit 16 (of_nat (rx_count s) AND 0xF), s)
         else if off = SAI_RDR0 \<or> off = SAI_RDR0 + 4 then
           (if rx_count s = 0 then (0, mcxn_sai_update_irq (sai_or_reg s SAI_RCSR CSR_FEF))
            else (ucast (rx_fifo s 0),
                  mcxn_sai_update_irq (s\<lparr>rx_count := rx_count s - 1,
                                         rx_fifo := sai_shift_down (rx_fifo s) (rx_count s - 1)\<rparr>)))
         else (ucast v, s))"

text \<open>The write of TCSR or RCSR at virtual time \<open>now\<close>.\<close>

definition sai_csr_write :: "MCXNSAIState \<Rightarrow> int \<Rightarrow> nat \<Rightarrow> u32 \<Rightarrow> MCXNSAIState" where
  "sai_csr_write s now off val =
     (let was_te = tst (sai_regs s (SAI_TCSR div 4)) CSR_EN;
          is_tx = (off = SAI_TCSR);
          cur = sai_regs s (off div 4) AND NOT (val AND CSR_FLAGS_W1C);
          cur = (cur AND CSR_FLAGS_W1C) OR (val AND NOT CSR_FLAGS_W1C);
          s = (if tst val (CSR_SR OR CSR_FR) then sai_fifo_reset s is_tx (\<not> is_tx) else s);
          cur = cur AND NOT (CSR_SR OR CSR_FR);
          s = s\<lparr>sai_regs := (sai_regs s)(off div 4 := cur)\<rparr>;
          te = tst cur CSR_EN;
          s = (if is_tx then
                 (if te \<and> \<not> was_te then
                    (let period = sai_word_period_ns s
                     in if period > 0 then s\<lparr>next_word_ns := now + period, word_timer := Some (now + period)\<rparr>
                        else s\<lparr>word_timer := None\<rparr>)
                  else if \<not> te \<and> was_te then s\<lparr>word_timer := None\<rparr>
                  else s)
               else s)
      in mcxn_sai_update_irq s)"

definition mcxn_sai_write :: "MCXNSAIState \<Rightarrow> int \<Rightarrow> nat \<Rightarrow> u64 \<Rightarrow> MCXNSAIState" where
  "mcxn_sai_write s now off value =
     (let val = ucast value :: u32
      in if off \<ge> MCXN_SAI_SIZE then s
         else if off = SAI_VERID \<or> off = SAI_PARAM then s
         else if off = SAI_TFR0 \<or> off = SAI_TFR0 + 4 \<or> off = SAI_RFR0 \<or> off = SAI_RFR0 + 4
              \<or> off = SAI_RDR0 \<or> off = SAI_RDR0 + 4 then s
         else if off = SAI_TCSR \<or> off = SAI_RCSR then sai_csr_write s now off val
         else if off = SAI_TDR0 \<or> off = SAI_TDR0 + 4 then
           mcxn_sai_update_irq
             (if tx_count s \<ge> MCXN_SAI_FIFO_DEPTH then sai_or_reg s SAI_TCSR CSR_FEF
              else s\<lparr>tx_fifo := (tx_fifo s)(tx_count s := val), tx_count := tx_count s + 1\<rparr>)
         else s\<lparr>sai_regs := (sai_regs s)(off div 4 := val)\<rparr>)"

definition mcxn_sai_reset :: "MCXNSAIState \<Rightarrow> MCXNSAIState" where
  "mcxn_sai_reset s =
     s\<lparr>sai_regs := (\<lambda>_. 0), tx_count := 0, rx_count := 0, word_timer := None,
       sai_lines := qemu_set_irq Sai_irq False (sai_lines s)\<rparr>"

definition mcxn_sai_post_load :: "MCXNSAIState \<Rightarrow> MCXNSAIState" where
  "mcxn_sai_post_load s = mcxn_sai_update_irq s"

section \<open>The request lines\<close>

lemma sai_update_irq_fields [simp]:
  "sai_clk (mcxn_sai_update_irq s) = sai_clk s" "sai_regs (mcxn_sai_update_irq s) = sai_regs s"
  "sai_loopback (mcxn_sai_update_irq s) = sai_loopback s"
  "tx_fifo (mcxn_sai_update_irq s) = tx_fifo s" "tx_count (mcxn_sai_update_irq s) = tx_count s"
  "rx_fifo (mcxn_sai_update_irq s) = rx_fifo s" "rx_count (mcxn_sai_update_irq s) = rx_count s"
  "word_timer (mcxn_sai_update_irq s) = word_timer s"
  "next_word_ns (mcxn_sai_update_irq s) = next_word_ns s"
  by (simp_all add: mcxn_sai_update_irq_def Let_def)

lemma sai_conds_update_irq [simp]:
  "sai_tdma (mcxn_sai_update_irq s) = sai_tdma s" "sai_rdma (mcxn_sai_update_irq s) = sai_rdma s"
  "sai_irq_cond (mcxn_sai_update_irq s) = sai_irq_cond s"
  by (simp_all add: sai_tdma_def sai_rdma_def sai_irq_cond_def sai_tcsr_flags_def sai_rcsr_flags_def)

lemma sai_lines_update_irq:
  "tx_dma_req (mcxn_sai_update_irq s) = sai_tdma s"
  "rx_dma_req (mcxn_sai_update_irq s) = sai_rdma s"
  "line_level (sai_lines (mcxn_sai_update_irq s)) Sai_dma_req_tx =
     (if sai_tdma s = tx_dma_req s then line_level (sai_lines s) Sai_dma_req_tx else sai_tdma s)"
  "line_level (sai_lines (mcxn_sai_update_irq s)) Sai_dma_req_rx =
     (if sai_rdma s = rx_dma_req s then line_level (sai_lines s) Sai_dma_req_rx else sai_rdma s)"
  "line_level (sai_lines (mcxn_sai_update_irq s)) Sai_irq = sai_irq_cond s"
  by (auto simp: mcxn_sai_update_irq_def Let_def)

interpretation sai_tx: request_line sai_tdma tx_dma_req
  "\<lambda>s. line_level (sai_lines s) Sai_dma_req_tx" mcxn_sai_update_irq
  by unfold_locales (simp_all add: sai_lines_update_irq)

interpretation sai_rx: request_line sai_rdma rx_dma_req
  "\<lambda>s. line_level (sai_lines s) Sai_dma_req_rx" mcxn_sai_update_irq
  by unfold_locales (simp_all add: sai_lines_update_irq)

section \<open>The FIFOs\<close>

definition tx_contents :: "MCXNSAIState \<Rightarrow> u32 list" where
  "tx_contents s = map (tx_fifo s) [0..<tx_count s]"

definition rx_contents :: "MCXNSAIState \<Rightarrow> u32 list" where
  "rx_contents s = map (rx_fifo s) [0..<rx_count s]"

lemma contents_update_irq [simp]:
  "tx_contents (mcxn_sai_update_irq s) = tx_contents s" "rx_contents (mcxn_sai_update_irq s) = rx_contents s"
  by (simp_all add: tx_contents_def rx_contents_def)

lemma contents_length [simp]:
  "length (tx_contents s) = tx_count s" "length (rx_contents s) = rx_count s"
  by (simp_all add: tx_contents_def rx_contents_def)

lemma shift_down_contents: "0 < n \<Longrightarrow> map f [0..<n] = f 0 # map (sai_shift_down f (n - 1)) [0..<n - 1]"
proof -
  assume "0 < n"
  then obtain m where n: "n = Suc m" using gr0_implies_Suc by blast
  have "[0..<Suc m] = 0 # map Suc [0..<m]" by (metis map_Suc_upt upt_conv_Cons zero_less_Suc)
  then show ?thesis by (simp add: n sai_shift_down_def)
qed

definition sai_write_word :: "int \<Rightarrow> u32 \<Rightarrow> MCXNSAIState \<Rightarrow> MCXNSAIState" where
  "sai_write_word now w s = mcxn_sai_write s now SAI_TDR0 (ucast w)"

lemma sai_write_word_eq:
  "sai_write_word now w s = mcxn_sai_update_irq
     (if tx_count s \<ge> MCXN_SAI_FIFO_DEPTH then sai_or_reg s SAI_TCSR CSR_FEF
      else s\<lparr>tx_fifo := (tx_fifo s)(tx_count s := w), tx_count := tx_count s + 1\<rparr>)"
  by (simp add: sai_write_word_def mcxn_sai_write_def sai_offsets Let_def ucast_up_ucast_id is_up)

text \<open>What a run with the loopback fitted and both directions enabled relies on.\<close>

definition sai_looped :: "MCXNSAIState \<Rightarrow> bool" where
  "sai_looped s \<longleftrightarrow> sai_loopback s \<and> tst (sai_regs s (SAI_TCSR div 4)) CSR_EN
     \<and> tst (sai_regs s (SAI_RCSR div 4)) CSR_EN"

lemma sai_or_reg_fields [simp]:
  "tx_contents (sai_or_reg s off v) = tx_contents s" "rx_contents (sai_or_reg s off v) = rx_contents s"
  "sai_looped s \<Longrightarrow> sai_looped (sai_or_reg s off v)"
  by (auto simp: sai_or_reg_def tx_contents_def rx_contents_def sai_looped_def bit_simps)

lemma sai_looped_update_irq [simp]: "sai_looped (mcxn_sai_update_irq s) = sai_looped s"
  by (simp add: sai_looped_def)

lemma write_word_contents:
  assumes "sai_looped s"
  shows "sai_looped (sai_write_word now w s)"
    and "rx_contents (sai_write_word now w s) = rx_contents s"
    and "tx_contents (sai_write_word now w s) =
           (if tx_count s < MCXN_SAI_FIFO_DEPTH then tx_contents s @ [w] else tx_contents s)"
  using assms by (simp_all add: sai_write_word_eq) (auto simp: sai_looped_def rx_contents_def tx_contents_def)

lemma send_word_looped:
  assumes "sai_looped s" and "tx_contents s = w # ws" and "rx_count s < MCXN_SAI_FIFO_DEPTH"
  shows "sai_looped (sai_send_word s) \<and> tx_contents (sai_send_word s) = ws
       \<and> rx_contents (sai_send_word s) = rx_contents s @ [w]"
proof -
  have pos: "0 < tx_count s" using assms(2) by (cases "tx_count s") (auto simp: tx_contents_def)
  then have "tx_fifo s 0 = w" "map (sai_shift_down (tx_fifo s) (tx_count s - 1)) [0..<tx_count s - 1] = ws"
    using assms(2) shift_down_contents [OF pos, of "tx_fifo s"] by (simp_all add: tx_contents_def)
  then show ?thesis using assms pos
    by (simp add: sai_send_word_def Let_def sai_looped_def tx_contents_def rx_contents_def)
qed

lemma word_tick_looped:
  assumes "sai_looped s" and "tx_contents s = w # ws" and "rx_count s < MCXN_SAI_FIFO_DEPTH"
  shows "sai_looped (mcxn_sai_word_tick s) \<and> tx_contents (mcxn_sai_word_tick s) = ws
       \<and> rx_contents (mcxn_sai_word_tick s) = rx_contents s @ [w]"
  using send_word_looped [OF assms] assms(1)
  by (simp add: mcxn_sai_word_tick_def Let_def sai_looped_def tx_contents_def rx_contents_def)

fun sai_read_words :: "nat \<Rightarrow> MCXNSAIState \<Rightarrow> u64 list" where
  "sai_read_words 0 s = []"
| "sai_read_words (Suc n) s = (case mcxn_sai_read s SAI_RDR0 of (v, s') \<Rightarrow> v # sai_read_words n s')"

lemma read_word_contents:
  assumes "rx_contents s = w # ws"
  shows "\<exists>s'. mcxn_sai_read s SAI_RDR0 = (ucast w, s') \<and> rx_contents s' = ws"
proof -
  have pos: "0 < rx_count s" using assms by (cases "rx_count s") (auto simp: rx_contents_def)
  then have "rx_fifo s 0 = w" "map (sai_shift_down (rx_fifo s) (rx_count s - 1)) [0..<rx_count s - 1] = ws"
    using assms shift_down_contents [OF pos, of "rx_fifo s"] by (simp_all add: rx_contents_def)
  then show ?thesis using pos
    by (simp add: mcxn_sai_read_def sai_offsets Let_def) (simp add: rx_contents_def)
qed

lemma read_words_contents:
  "rx_contents s = ws \<Longrightarrow> sai_read_words (length ws) s = map ucast ws"
proof (induction ws arbitrary: s)
  case Nil
  then show ?case by simp
next
  case (Cons w ws)
  then show ?case using read_word_contents [OF Cons.prems] by auto
qed

lemma write_words_contents:
  assumes "sai_looped s" and "tx_count s + length ws \<le> MCXN_SAI_FIFO_DEPTH"
  shows "sai_looped (fold (sai_write_word now) ws s)
       \<and> tx_contents (fold (sai_write_word now) ws s) = tx_contents s @ ws
       \<and> rx_contents (fold (sai_write_word now) ws s) = rx_contents s"
  using assms
proof (induction ws arbitrary: s)
  case Nil
  then show ?case by simp
next
  case (Cons w ws)
  let ?t = "sai_write_word now w s"
  have "tx_contents ?t = tx_contents s @ [w]" "rx_contents ?t = rx_contents s" "sai_looped ?t"
    using Cons.prems write_word_contents [of s now w] by simp_all
  moreover from this have "tx_count ?t = tx_count s + 1" by (metis contents_length(1) length_append_singleton Suc_eq_plus1)
  ultimately show ?case using Cons.IH [of ?t] Cons.prems(2) by simp
qed

lemma ticks_contents:
  assumes "sai_looped s" and "tx_contents s = ws" and "rx_count s + length ws \<le> MCXN_SAI_FIFO_DEPTH"
  shows "tx_contents ((mcxn_sai_word_tick ^^ length ws) s) = []
       \<and> rx_contents ((mcxn_sai_word_tick ^^ length ws) s) = rx_contents s @ ws"
  using assms
proof (induction ws arbitrary: s)
  case Nil
  then show ?case by simp
next
  case (Cons w ws)
  let ?t = "mcxn_sai_word_tick s"
  have t: "sai_looped ?t" "tx_contents ?t = ws" "rx_contents ?t = rx_contents s @ [w]"
    using word_tick_looped [OF Cons.prems(1,2)] Cons.prems(3) by simp_all
  moreover from this have "rx_count ?t = rx_count s + 1" by (metis contents_length(2) length_append_singleton Suc_eq_plus1)
  ultimately show ?case using Cons.IH [of ?t] Cons.prems(3) by (simp add: funpow_swap1)
qed

section \<open>The word clock\<close>

lemma sai_or_reg_other:
  "off div 4 \<noteq> i \<Longrightarrow> sai_regs (sai_or_reg s off v) i = sai_regs s i" "sai_clk (sai_or_reg s off v) = sai_clk s"
  "next_word_ns (sai_or_reg s off v) = next_word_ns s"
  "bit (sai_regs s i) k \<Longrightarrow> bit (sai_regs (sai_or_reg s off v) i) k"
  by (auto simp: sai_or_reg_def bit_simps)

lemma sai_send_word_keeps [simp]:
  "sai_word_period_ns (sai_send_word s) = sai_word_period_ns s"
  "next_word_ns (sai_send_word s) = next_word_ns s"
  "bit (sai_regs s i) k \<Longrightarrow> bit (sai_regs (sai_send_word s) i) k"
  by (simp_all add: sai_send_word_def sai_word_period_ns_def sai_or_reg_other sai_offsets Let_def)

lemma sai_tick_keeps:
  assumes "tst (sai_regs s (SAI_TCSR div 4)) CSR_EN"
  shows "tst (sai_regs (mcxn_sai_word_tick s) (SAI_TCSR div 4)) CSR_EN"
    and "sai_word_period_ns (mcxn_sai_word_tick s) = sai_word_period_ns s"
    and "word_timer (mcxn_sai_word_tick s) =
           (if 0 < sai_word_period_ns s then Some (next_word_ns s + sai_word_period_ns s) else None)"
    and "0 < sai_word_period_ns s \<Longrightarrow>
           next_word_ns (mcxn_sai_word_tick s) = next_word_ns s + sai_word_period_ns s"
proof -
  have [simp]: "sai_word_period_ns (mcxn_sai_update_irq t) = sai_word_period_ns t"
    "sai_word_period_ns (t\<lparr>next_word_ns := n\<rparr>) = sai_word_period_ns t"
    "sai_word_period_ns (t\<lparr>word_timer := w\<rparr>) = sai_word_period_ns t" for t n w
    by (simp_all add: sai_word_period_ns_def)
  show "tst (sai_regs (mcxn_sai_word_tick s) (SAI_TCSR div 4)) CSR_EN"
    and "sai_word_period_ns (mcxn_sai_word_tick s) = sai_word_period_ns s"
    and "word_timer (mcxn_sai_word_tick s) =
           (if 0 < sai_word_period_ns s then Some (next_word_ns s + sai_word_period_ns s) else None)"
    and "0 < sai_word_period_ns s \<Longrightarrow>
           next_word_ns (mcxn_sai_word_tick s) = next_word_ns s + sai_word_period_ns s"
    using assms by (simp_all add: mcxn_sai_word_tick_def Let_def)
qed

lemma sai_ticks:
  assumes "tst (sai_regs s (SAI_TCSR div 4)) CSR_EN" and "0 < sai_word_period_ns s"
  shows "tst (sai_regs ((mcxn_sai_word_tick ^^ n) s) (SAI_TCSR div 4)) CSR_EN
       \<and> sai_word_period_ns ((mcxn_sai_word_tick ^^ n) s) = sai_word_period_ns s
       \<and> next_word_ns ((mcxn_sai_word_tick ^^ n) s) = next_word_ns s + int n * sai_word_period_ns s"
  using assms by (induction n) (simp_all add: sai_tick_keeps algebra_simps del: tst_flag)

section \<open>Properties\<close>



text \<open>
  While the transmitter runs, the deadline after \<open>n\<close> word ticks is the first deadline plus
  exactly \<open>n\<close> word periods, so the word clock does not drift; with no bit clock a tick
  disarms the timer instead of re-arming it in the past.
\<close>

theorem sai_word_clock_no_drift:
  assumes "tst (sai_regs s (SAI_TCSR div 4)) CSR_EN"
  shows "(0 < sai_word_period_ns s \<longrightarrow>
            word_timer ((mcxn_sai_word_tick ^^ Suc n) s)
              = Some (next_word_ns s + int (Suc n) * sai_word_period_ns s))
       \<and> (\<not> 0 < sai_word_period_ns s \<longrightarrow> word_timer (mcxn_sai_word_tick s) = None)"
  using sai_ticks [OF assms, of n] sai_tick_keeps(3) [of "(mcxn_sai_word_tick ^^ n) s"]
    sai_tick_keeps(3) [OF assms]
  by (auto simp: algebra_simps)

theorem sai_word_clock_no_drift_witness:
  "let s = \<lparr>sai_clk = Some 48000000, tx_dma_req = False, rx_dma_req = False,
             sai_regs = (\<lambda>_. 0)(2 := 0x80000000, 4 := 0x01000005, 7 := 0x000f0000),
             sai_loopback = False, tx_fifo = (\<lambda>_. 0), tx_count = 0, rx_fifo = (\<lambda>_. 0), rx_count = 0,
             word_timer = None, next_word_ns = 100, sai_lines = []\<rparr>
   in word_timer ((mcxn_sai_word_tick ^^ 3) s) = Some (100 + 3 * 4000)"
proof -
  define s where "s = \<lparr>sai_clk = Some 48000000, tx_dma_req = False, rx_dma_req = False,
             sai_regs = (\<lambda>_. 0)(2 := 0x80000000, 4 := 0x01000005, 7 := 0x000f0000),
             sai_loopback = False, tx_fifo = (\<lambda>_. 0), tx_count = 0, rx_fifo = (\<lambda>_. 0), rx_count = 0,
             word_timer = None, next_word_ns = 100, sai_lines = []\<rparr>"
  have "tst (sai_regs s (SAI_TCSR div 4)) CSR_EN" by (simp add: s_def sai_offsets bit_numeral_rec)
  moreover have "sai_word_period_ns s = 4000"
    by (simp add: s_def sai_word_period_ns_def sai_offsets bit_numeral_rec)
  ultimately show ?thesis
    using sai_word_clock_no_drift [of s 2] unfolding s_def [symmetric] Let_def
    by (simp add: numeral_3_eq_3 s_def del: funpow.simps)
qed

text \<open>
  A FIFO reset through TCSR or RCSR does not clear the FIFO error flag: the register value
  computed before the reset is stored after it, so FEF survives unless the same write also
  clears it by writing one.
\<close>

lemma sai_fifo_reset_keeps_error_flag:
  assumes "off = SAI_TCSR \<or> off = SAI_RCSR" and "tst (ucast v :: u32) CSR_FR"
  shows "tst (sai_regs (mcxn_sai_write s now off v) (off div 4)) CSR_FEF
       \<longleftrightarrow> tst (sai_regs s (off div 4)) CSR_FEF \<and> \<not> tst (ucast v :: u32) CSR_FEF"
  using assms
  by (elim disjE)
     (auto simp: mcxn_sai_write_def sai_csr_write_def Let_def sai_offsets CSR_FLAGS_W1C_def
        bit_simps simp del: div_mult_self1_is_m)

text \<open>
  Moving the transmit watermark does not re-evaluate the FIFO request: no line is driven,
  although the request condition can become true by that write.
\<close>

lemma sai_watermark_write_not_published:
  "sai_lines (mcxn_sai_write s now SAI_TCR1 v) = sai_lines s
   \<and> tx_dma_req (mcxn_sai_write s now SAI_TCR1 v) = tx_dma_req s
   \<and> (tst (sai_regs s (SAI_TCSR div 4)) CSR_FRDE \<longrightarrow> tx_count s \<le> unat (ucast v AND (0x7 :: u32)) \<longrightarrow>
        sai_tdma (mcxn_sai_write s now SAI_TCR1 v))"
  by (simp add: mcxn_sai_write_def sai_offsets sai_tdma_def sai_tcsr_flags_def Let_def bit_simps)

end
