(* ===== verification/Mcxn_Clock.thy ===== *)
theory Mcxn_Clock
  imports Mcxn_Prelude
begin

unbundle bit_operations_syntax

text \<open>
  The clock objects of QEMU (\<^verbatim>\<open>hw/core/clock.c\<close>, \<^verbatim>\<open>include/hw/core/clock.h\<close>) as far as the MCX N
  clock tree uses them: a period in units of \<open>2\<^sup>-\<^sup>3\<^sup>2\<close> nanoseconds, the conversions between period and
  frequency, and an update that reaches the connected clocks only when the period changes.  A device
  that owns output clocks records the updates it propagates, oldest first; the interface
  \<open>clock_source\<close> says what the clocks connected to such a device see.
\<close>

section \<open>Model\<close>

abbreviation (input) CLOCK_PERIOD_1SEC :: u64 where "CLOCK_PERIOD_1SEC \<equiv> push_bit 32 1000000000"

definition CLOCK_PERIOD_FROM_HZ :: "u32 \<Rightarrow> u64" where
  "CLOCK_PERIOD_FROM_HZ hz = (if hz \<noteq> 0 then CLOCK_PERIOD_1SEC div ucast hz else 0)"

definition CLOCK_PERIOD_TO_HZ :: "u64 \<Rightarrow> u64" where
  "CLOCK_PERIOD_TO_HZ per = (if per \<noteq> 0 then CLOCK_PERIOD_1SEC div per else 0)"

definition clock_get_hz :: "u64 \<Rightarrow> u32" where
  "clock_get_hz per = ucast (CLOCK_PERIOD_TO_HZ per)"

text \<open>The output clocks of a device: their periods, and the periods propagated to the clocks behind them.\<close>

record 'c clock_outs =
  period :: "'c \<Rightarrow> u64"
  propagated :: "('c \<times> u64) list"

definition clock_update :: "'c \<Rightarrow> u64 \<Rightarrow> 'c clock_outs \<Rightarrow> 'c clock_outs" where
  "clock_update c p k =
     (if period k c = p then k
      else k\<lparr>period := (period k)(c := p), propagated := propagated k @ [(c, p)]\<rparr>)"

definition clock_update_hz :: "'c \<Rightarrow> u32 \<Rightarrow> 'c clock_outs \<Rightarrow> 'c clock_outs" where
  "clock_update_hz c hz = clock_update c (CLOCK_PERIOD_FROM_HZ hz)"

text \<open>
  One step of \<^verbatim>\<open>clock_propagate_period\<close> on a connected clock: a clock that already has the period is
  left alone; otherwise it takes the period and its owner's callback runs.
\<close>

definition clock_propagate_to :: "('s \<Rightarrow> u64) \<Rightarrow> (u64 \<Rightarrow> 's \<Rightarrow> 's) \<Rightarrow> ('s \<Rightarrow> 's) \<Rightarrow> u64 \<Rightarrow> 's \<Rightarrow> 's" where
  "clock_propagate_to get put callback p s = (if get s \<noteq> p then callback (put p s) else s)"

section \<open>Periods and frequencies\<close>

lemma unat_1sec: "unat CLOCK_PERIOD_1SEC = 4294967296000000000"
  by simp

lemma unat_period_from_hz:
  "unat (CLOCK_PERIOD_FROM_HZ hz) = (if hz = 0 then 0 else 4294967296000000000 div unat hz)"
  by (simp add: CLOCK_PERIOD_FROM_HZ_def unat_div_distrib unat_up)

text \<open>
  The period is rounded down, so the frequency read back is the frequency set exactly as long as the
  period has more units than the frequency has hertz.
\<close>

lemma div_div_exact:
  fixes a h :: nat
  assumes "0 < h" and "h * h \<le> a"
  shows "a div (a div h) = h"
proof -
  let ?q = "a div h"
  have q: "h \<le> ?q" using assms by (simp add: less_eq_div_iff_mult_less_eq)
  have "a = ?q * h + a mod h" by simp
  moreover have "a mod h < ?q" using q assms(1) mod_less_divisor [of h a] by linarith
  ultimately have "?q * h \<le> a" and "a < ?q * Suc h" by (simp, metis add.commute add_less_mono1 mult_Suc_right)
  then show ?thesis by (rule div_nat_eqI)
qed

lemma clock_get_hz_from_hz:
  assumes "unat hz \<le> 2000000000"
  shows "clock_get_hz (CLOCK_PERIOD_FROM_HZ hz) = hz"
proof (cases "hz = 0")
  case True
  then show ?thesis by (simp add: clock_get_hz_def CLOCK_PERIOD_TO_HZ_def CLOCK_PERIOD_FROM_HZ_def)
next
  case False
  let ?p = "CLOCK_PERIOD_FROM_HZ hz"
  have pos: "0 < unat hz" using False by (simp add: unat_gt_0)
  have "unat hz * unat hz \<le> 2000000000 * 2000000000" using assms by (intro mult_le_mono)
  then have sq: "unat hz * unat hz \<le> 4294967296000000000" by simp
  have up: "unat ?p = 4294967296000000000 div unat hz" using False by (simp add: unat_period_from_hz)
  have "4294967296000000000 div unat ?p = unat hz" unfolding up by (rule div_div_exact [OF pos sq])
  moreover from this have "?p \<noteq> 0" using pos by (auto simp: unat_eq_zero)
  ultimately have "unat (CLOCK_PERIOD_TO_HZ ?p) = unat hz"
    by (simp add: CLOCK_PERIOD_TO_HZ_def unat_div_distrib)
  then have "unat (CLOCK_PERIOD_TO_HZ ?p) = unat (ucast hz :: u64)" by (simp add: unat_up)
  then have "CLOCK_PERIOD_TO_HZ ?p = ucast hz" by (simp only: word_unat_eq_iff)
  then show ?thesis by (simp add: clock_get_hz_def ucast_up_ucast_id is_up)
qed

section \<open>What the connected clocks see\<close>

definition clock_deliver :: "('c \<times> u64) list \<Rightarrow> ('c \<Rightarrow> u64) \<Rightarrow> 'c \<Rightarrow> u64" where
  "clock_deliver = fold (\<lambda>(c, p) f. f(c := p))"

lemma clock_deliver_simps [simp]:
  "clock_deliver [] f = f"
  "clock_deliver ((c, p) # ls) f = clock_deliver ls (f(c := p))"
  "clock_deliver (xs @ ys) f = clock_deliver ys (clock_deliver xs f)"
  by (simp_all add: clock_deliver_def)

lemma clock_deliver_cong: "f c = g c \<Longrightarrow> clock_deliver ls f c = clock_deliver ls g c"
proof (induction ls arbitrary: f g)
  case (Cons l ls)
  obtain d p where l: "l = (d, p)" by (cases l)
  from Cons.prems have "(f(d := p)) c = (g(d := p)) c" by simp
  then show ?case unfolding l clock_deliver_simps by (rule Cons.IH)
qed simp

definition clock_extends :: "'c clock_outs \<Rightarrow> 'c clock_outs \<Rightarrow> bool" where
  "clock_extends k k' \<longleftrightarrow>
     (\<exists>ls. propagated k' = propagated k @ ls \<and> period k' = clock_deliver ls (period k))"

lemma clock_extends_refl [intro!, simp]: "clock_extends k k"
  unfolding clock_extends_def by (rule exI [of _ "[]"]) simp

lemma clock_extends_trans [trans]:
  "clock_extends k k' \<Longrightarrow> clock_extends k' k'' \<Longrightarrow> clock_extends k k''"
  unfolding clock_extends_def by (metis append.assoc clock_deliver_simps(3))

lemma clock_update_extends: "clock_extends k k' \<Longrightarrow> clock_extends k (clock_update_hz c hz k')"
proof (erule clock_extends_trans)
  show "clock_extends k' (clock_update_hz c hz k')"
    unfolding clock_extends_def clock_update_hz_def clock_update_def
    by (cases "period k' c = CLOCK_PERIOD_FROM_HZ hz")
       (auto intro: exI [of _ "[]"] exI [of _ "[(c, CLOCK_PERIOD_FROM_HZ hz)]"])
qed

lemma period_clock_update [simp]:
  "period (clock_update_hz c hz k) = (period k)(c := CLOCK_PERIOD_FROM_HZ hz)"
  by (auto simp: clock_update_hz_def clock_update_def)

text \<open>Whoever starts from the period of a clock and applies what was propagated has its period again.\<close>

lemma clock_extends_follow:
  assumes "clock_extends k k'" and "f c = period k c"
  shows "clock_deliver (new_calls (propagated k) (propagated k')) f c = period k' c"
proof -
  from assms(1) obtain ls where
    ls: "propagated k' = propagated k @ ls" "period k' = clock_deliver ls (period k)"
    by (auto simp: clock_extends_def)
  show ?thesis unfolding ls new_calls_append using assms(2) by (rule clock_deliver_cong)
qed

text \<open>
  A device that owns output clocks: an update gives every clock of \<open>clocks\<close> the frequency its registers
  and inputs derive, and propagates exactly what changed.  The device is settled when its clocks have
  these frequencies.
\<close>

locale clock_source =
  fixes outs :: "'s \<Rightarrow> 'c clock_outs"
    and update :: "'s \<Rightarrow> 's"
    and rate :: "'s \<Rightarrow> 'c \<Rightarrow> u32"
    and clocks :: "'c set"
  assumes update_extends: "clock_extends (outs s) (outs (update s))"
    and update_period: "c \<in> clocks \<Longrightarrow> period (outs (update s)) c = CLOCK_PERIOD_FROM_HZ (rate s c)"
    and update_rate: "rate (update s) = rate s"
begin

definition settled :: "'s \<Rightarrow> bool" where
  "settled s \<longleftrightarrow> (\<forall>c \<in> clocks. period (outs s) c = CLOCK_PERIOD_FROM_HZ (rate s c))"

lemma update_settled: "settled (update s)"
  by (simp add: settled_def update_period update_rate)

lemma settled_cong:
  assumes "settled s" and "outs s' = outs s" and "\<And>c. c \<in> clocks \<Longrightarrow> rate s' c = rate s c"
  shows "settled s'"
  using assms by (simp add: settled_def)

lemma update_extends_from: "outs s' = outs s \<Longrightarrow> clock_extends (outs s) (outs (update s'))"
  using update_extends [of s'] by simp

lemma follower_gets_rate:
  assumes "settled s'" and "clock_extends (outs s) (outs s')" and "f c = period (outs s) c" and "c \<in> clocks"
  shows "clock_deliver (new_calls (propagated (outs s)) (propagated (outs s'))) f c
           = CLOCK_PERIOD_FROM_HZ (rate s' c)"
  using clock_extends_follow [OF assms(2), of f c] assms(1,3,4) by (simp add: settled_def)

end

end
