(* ===== verification/Mcxn_Scg.thy ===== *)
theory Mcxn_Scg
  imports Mcxn_Clock
begin

unbundle bit_operations_syntax

text \<open>
  The system clock generator (\<^verbatim>\<open>hw/misc/mcxn_scg.c\<close>): its register file, the two free-running oscillators, the
  two PLLs, the main clock selected by RCCR, and the five output clocks derived from them.  The
  reference is the frequency arithmetic of the vendor's driver, written over natural numbers.
\<close>

section \<open>Model\<close>

datatype scg_clock = Fro12m | Frohf | Apll | Spll | Mainclk

record MCXNSCGState =
  scg_regs :: "nat \<Rightarrow> u32"
  scg_outs :: "scg_clock clock_outs"

abbreviation (input) MCXN_SCG_SIZE :: nat where "MCXN_SCG_SIZE \<equiv> 0x1000"
abbreviation (input) SCG_VERID :: nat where "SCG_VERID \<equiv> 0x000"
abbreviation (input) SCG_PARAM :: nat where "SCG_PARAM \<equiv> 0x004"
abbreviation (input) SCG_CSR :: nat where "SCG_CSR \<equiv> 0x010"
abbreviation (input) SCG_RCCR :: nat where "SCG_RCCR \<equiv> 0x014"
abbreviation (input) SCG_SOSCCSR :: nat where "SCG_SOSCCSR \<equiv> 0x100"
abbreviation (input) SCG_SIRCCSR :: nat where "SCG_SIRCCSR \<equiv> 0x200"
abbreviation (input) SCG_FIRCCSR :: nat where "SCG_FIRCCSR \<equiv> 0x300"
abbreviation (input) SCG_FIRCCFG :: nat where "SCG_FIRCCFG \<equiv> 0x308"
abbreviation (input) SCG_ROSCCSR :: nat where "SCG_ROSCCSR \<equiv> 0x400"
abbreviation (input) SCG_APLLCSR :: nat where "SCG_APLLCSR \<equiv> 0x500"
abbreviation (input) SCG_APLLCTRL :: nat where "SCG_APLLCTRL \<equiv> 0x504"
abbreviation (input) SCG_APLLNDIV :: nat where "SCG_APLLNDIV \<equiv> 0x50C"
abbreviation (input) SCG_APLLMDIV :: nat where "SCG_APLLMDIV \<equiv> 0x510"
abbreviation (input) SCG_APLLPDIV :: nat where "SCG_APLLPDIV \<equiv> 0x514"
abbreviation (input) SCG_APLLLOCK_CNFG :: nat where "SCG_APLLLOCK_CNFG \<equiv> 0x518"
abbreviation (input) SCG_APLLSSCG1 :: nat where "SCG_APLLSSCG1 \<equiv> 0x528"
abbreviation (input) SCG_SPLLCSR :: nat where "SCG_SPLLCSR \<equiv> 0x600"
abbreviation (input) SCG_SPLLCTRL :: nat where "SCG_SPLLCTRL \<equiv> 0x604"
abbreviation (input) SCG_SPLLNDIV :: nat where "SCG_SPLLNDIV \<equiv> 0x60C"
abbreviation (input) SCG_SPLLMDIV :: nat where "SCG_SPLLMDIV \<equiv> 0x610"
abbreviation (input) SCG_SPLLPDIV :: nat where "SCG_SPLLPDIV \<equiv> 0x614"
abbreviation (input) SCG_SPLLLOCK_CNFG :: nat where "SCG_SPLLLOCK_CNFG \<equiv> 0x618"
abbreviation (input) SCG_SPLLSSCG1 :: nat where "SCG_SPLLSSCG1 \<equiv> 0x628"
abbreviation (input) SCG_LDOCSR :: nat where "SCG_LDOCSR \<equiv> 0x800"

abbreviation (input) SCG_READY :: u32 where "SCG_READY \<equiv> flag 24"
abbreviation (input) SOSCCSR_SOSCEN :: u32 where "SOSCCSR_SOSCEN \<equiv> flag 0"
abbreviation (input) ROSCCSR_ROSCCM :: u32 where "ROSCCSR_ROSCCM \<equiv> flag 16"
abbreviation (input) APLLCSR_PWR_CLK :: u32 where "APLLCSR_PWR_CLK \<equiv> flag 0 OR flag 1"
abbreviation (input) SPLLCSR_PWR_CLK :: u32 where "SPLLCSR_PWR_CLK \<equiv> flag 0 OR flag 1"
abbreviation (input) SIRCCSR_PERIPH_EN :: u32 where "SIRCCSR_PERIPH_EN \<equiv> flag 5"
abbreviation (input) FIRCCSR_FIRCEN :: u32 where "FIRCCSR_FIRCEN \<equiv> flag 0"
abbreviation (input) FIRCCFG_RANGE :: u32 where "FIRCCFG_RANGE \<equiv> flag 0"
abbreviation (input) PLLCTRL_BYPASSPOSTDIV2 :: u32 where "PLLCTRL_BYPASSPOSTDIV2 \<equiv> flag 16"
abbreviation (input) PLLCTRL_BYPASSPREDIV :: u32 where "PLLCTRL_BYPASSPREDIV \<equiv> flag 19"
abbreviation (input) PLLCTRL_BYPASSPOSTDIV :: u32 where "PLLCTRL_BYPASSPOSTDIV \<equiv> flag 20"

definition scg_clk48m_hz :: "MCXNSCGState \<Rightarrow> u32" where
  "scg_clk48m_hz s = (if tst (scg_regs s (SCG_FIRCCSR div 4)) FIRCCSR_FIRCEN then 48000000 else 0)"

definition scg_pll_out :: "MCXNSCGState \<Rightarrow> nat \<Rightarrow> nat \<Rightarrow> nat \<Rightarrow> nat \<Rightarrow> nat \<Rightarrow> nat \<Rightarrow> u32" where
  "scg_pll_out s ctrl ndiv mdiv pdiv sscg1 csr =
     (let c = scg_regs s (ctrl div 4) in
      if \<not> tst (scg_regs s (csr div 4)) APLLCSR_PWR_CLK then 0
      else
        let src = drop_bit 25 (c AND 0x6000000);
            fin = (if src = 0
                   then (if tst (scg_regs s (SCG_SOSCCSR div 4)) SOSCCSR_SOSCEN then 16000000 else 0)
                   else if src = 1 then scg_clk48m_hz s
                   else if src = 2
                   then (if tst (scg_regs s (SCG_ROSCCSR div 4)) ROSCCSR_ROSCCM then 32768 else 0)
                   else 0)
        in if fin = 0 then 0
           else
             let n = (if tst c PLLCTRL_BYPASSPREDIV then 1 else scg_regs s (ndiv div 4) AND 0xFF);
                 n = (if n = 0 then 1 else n);
                 postdiv = (if tst c PLLCTRL_BYPASSPOSTDIV then 1
                            else if tst c PLLCTRL_BYPASSPOSTDIV2 then scg_regs s (pdiv div 4) AND 0x1F
                            else 2 * (scg_regs s (pdiv div 4) AND 0x1F));
                 postdiv = (if postdiv = 0 then 2 else postdiv);
                 m = scg_regs s (mdiv div 4) AND 0xFFFF
             in ucast ((ucast (fin div n) :: u64) * ucast m div ucast postdiv))"

definition scg_apll_out :: "MCXNSCGState \<Rightarrow> u32" where
  "scg_apll_out s = scg_pll_out s SCG_APLLCTRL SCG_APLLNDIV SCG_APLLMDIV SCG_APLLPDIV SCG_APLLSSCG1 SCG_APLLCSR"

definition scg_spll_out :: "MCXNSCGState \<Rightarrow> u32" where
  "scg_spll_out s = scg_pll_out s SCG_SPLLCTRL SCG_SPLLNDIV SCG_SPLLMDIV SCG_SPLLPDIV SCG_SPLLSSCG1 SCG_SPLLCSR"

definition scg_main_clk_hz :: "MCXNSCGState \<Rightarrow> u32" where
  "scg_main_clk_hz s =
     (let scs = drop_bit 24 (scg_regs s (SCG_RCCR div 4) AND 0x0F000000) in
      if scs = 1 then (if tst (scg_regs s (SCG_SOSCCSR div 4)) SOSCCSR_SOSCEN then 16000000 else 0)
      else if scs = 2 then clock_get_hz (period (scg_outs s) Fro12m)
      else if scs = 3 then clock_get_hz (period (scg_outs s) Frohf)
      else if scs = 4 then (if tst (scg_regs s (SCG_ROSCCSR div 4)) ROSCCSR_ROSCCM then 32768 else 0)
      else if scs = 5 then scg_apll_out s
      else if scs = 6 then scg_spll_out s
      else 0)"

definition scg_clock_update_hz :: "scg_clock \<Rightarrow> u32 \<Rightarrow> MCXNSCGState \<Rightarrow> MCXNSCGState" where
  "scg_clock_update_hz c hz s = s\<lparr>scg_outs := clock_update_hz c hz (scg_outs s)\<rparr>"

definition mcxn_scg_update_clocks :: "MCXNSCGState \<Rightarrow> MCXNSCGState" where
  "mcxn_scg_update_clocks s =
     (let sirccsr = scg_regs s (SCG_SIRCCSR div 4);
          firccsr = scg_regs s (SCG_FIRCCSR div 4);
          firccfg = scg_regs s (SCG_FIRCCFG div 4);
          s = scg_clock_update_hz Fro12m (if tst sirccsr SIRCCSR_PERIPH_EN then 12000000 else 0) s;
          hf = (if \<not> tst firccsr FIRCCSR_FIRCEN then 0
                else if tst firccfg FIRCCFG_RANGE then 144000000 else 48000000);
          s = scg_clock_update_hz Frohf hf s;
          s = scg_clock_update_hz Apll (scg_apll_out s) s;
          s = scg_clock_update_hz Spll (scg_spll_out s) s
      in scg_clock_update_hz Mainclk (scg_main_clk_hz s) s)"

definition mcxn_scg_read :: "MCXNSCGState \<Rightarrow> nat \<Rightarrow> u32" where
  "mcxn_scg_read s off =
     (let v = (if off < MCXN_SCG_SIZE then scg_regs s (off div 4) else 0) in
      if off = SCG_VERID then 0x06010000
      else if off = SCG_PARAM then 0
      else if off = SCG_CSR then scg_regs s (SCG_RCCR div 4)
      else if off = SCG_SOSCCSR then (if tst v SOSCCSR_SOSCEN then v OR SCG_READY else v)
      else if off = SCG_ROSCCSR then (if tst v ROSCCSR_ROSCCM then v OR SCG_READY else v)
      else if off = SCG_APLLCSR then (if tst v APLLCSR_PWR_CLK then v OR SCG_READY else v)
      else if off = SCG_SPLLCSR then (if tst v SPLLCSR_PWR_CLK then v OR SCG_READY else v)
      else if off = SCG_SIRCCSR then v OR SCG_READY
      else if off = SCG_FIRCCSR then (if tst v FIRCCSR_FIRCEN then v OR SCG_READY else v)
      else v)"

definition scg_derives_clocks :: "nat \<Rightarrow> bool" where
  "scg_derives_clocks off \<longleftrightarrow>
     off \<in> {SCG_SIRCCSR, SCG_FIRCCSR, SCG_FIRCCFG, SCG_SOSCCSR, SCG_ROSCCSR, SCG_RCCR,
            SCG_APLLCSR, SCG_APLLCTRL, SCG_APLLNDIV, SCG_APLLMDIV, SCG_APLLPDIV, SCG_APLLSSCG1,
            SCG_SPLLCSR, SCG_SPLLCTRL, SCG_SPLLNDIV, SCG_SPLLMDIV, SCG_SPLLPDIV, SCG_SPLLSSCG1}"

definition mcxn_scg_write :: "MCXNSCGState \<Rightarrow> nat \<Rightarrow> u32 \<Rightarrow> MCXNSCGState" where
  "mcxn_scg_write s off v =
     (if off \<ge> MCXN_SCG_SIZE then s
      else if off = SCG_VERID \<or> off = SCG_PARAM \<or> off = SCG_CSR then s
      else let s = s\<lparr>scg_regs := (scg_regs s)(off div 4 := v)\<rparr> in
           if scg_derives_clocks off then mcxn_scg_update_clocks s else s)"

definition mcxn_scg_reset :: "MCXNSCGState \<Rightarrow> MCXNSCGState" where
  "mcxn_scg_reset s =
     mcxn_scg_update_clocks (s\<lparr>scg_regs := (\<lambda>_. 0)
       (SCG_RCCR div 4 := 0x03000000,
        SCG_SIRCCSR div 4 := 0x01000020,
        SCG_FIRCCSR div 4 := FIRCCSR_FIRCEN OR SCG_READY,
        SCG_APLLNDIV div 4 := 1, SCG_APLLMDIV div 4 := 1, SCG_APLLPDIV div 4 := 1,
        SCG_APLLLOCK_CNFG div 4 := 0x4F4C, SCG_APLLSSCG1 div 4 := 0x80000000,
        SCG_SPLLNDIV div 4 := 1, SCG_SPLLMDIV div 4 := 1, SCG_SPLLPDIV div 4 := 1,
        SCG_SPLLLOCK_CNFG div 4 := 0x4F4C, SCG_SPLLSSCG1 div 4 := 0x80000000,
        SCG_LDOCSR div 4 := 8)\<rparr>)"

section \<open>The driver's arithmetic\<close>

text \<open>
  The frequencies the vendor's driver computes from the same registers, over natural numbers: the
  oscillators, a PLL from its block of registers at \<open>b\<close>, and the main clock.
\<close>

definition reg_field :: "u32 \<Rightarrow> nat \<Rightarrow> nat \<Rightarrow> nat" where
  "reg_field v lo w = unat v div 2 ^ lo mod 2 ^ w"

definition sdk_ext_hz :: "(nat \<Rightarrow> u32) \<Rightarrow> nat" where
  "sdk_ext_hz r = (if bit (r (SCG_SOSCCSR div 4)) 0 then 16000000 else 0)"

definition sdk_osc32k_hz :: "(nat \<Rightarrow> u32) \<Rightarrow> nat" where
  "sdk_osc32k_hz r = (if bit (r (SCG_ROSCCSR div 4)) 16 then 32768 else 0)"

definition sdk_fro12m_hz :: "(nat \<Rightarrow> u32) \<Rightarrow> nat" where
  "sdk_fro12m_hz r = (if bit (r (SCG_SIRCCSR div 4)) 5 then 12000000 else 0)"

definition sdk_frohf_hz :: "(nat \<Rightarrow> u32) \<Rightarrow> nat" where
  "sdk_frohf_hz r =
     (if \<not> bit (r (SCG_FIRCCSR div 4)) 0 then 0
      else if bit (r (SCG_FIRCCFG div 4)) 0 then 144000000 else 48000000)"

definition sdk_pll_hz :: "(nat \<Rightarrow> u32) \<Rightarrow> nat \<Rightarrow> nat" where
  "sdk_pll_hz r b =
     (let csr = r (b div 4); ctrl = r ((b + 4) div 4);
          src = reg_field ctrl 25 2;
          fin = (if src = 0 then sdk_ext_hz r
                 else if src = 1 then (if bit (r (SCG_FIRCCSR div 4)) 0 then 48000000 else 0)
                 else if src = 2 then sdk_osc32k_hz r else 0);
          n = (if bit ctrl 19 then 1 else max 1 (reg_field (r ((b + 0xC) div 4)) 0 8));
          m = reg_field (r ((b + 0x10) div 4)) 0 16;
          d = reg_field (r ((b + 0x14) div 4)) 0 5;
          postdiv = (if bit ctrl 20 then 1 else if d = 0 then 2 else if bit ctrl 16 then d else 2 * d)
      in if bit csr 0 \<or> bit csr 1 then fin div n * m div postdiv else 0)"

definition sdk_main_hz :: "(nat \<Rightarrow> u32) \<Rightarrow> nat" where
  "sdk_main_hz r =
     (let scs = reg_field (r (SCG_RCCR div 4)) 24 4 in
      if scs = 1 then sdk_ext_hz r
      else if scs = 2 then sdk_fro12m_hz r
      else if scs = 3 then sdk_frohf_hz r
      else if scs = 4 then sdk_osc32k_hz r
      else if scs = 5 then sdk_pll_hz r SCG_APLLCSR
      else if scs = 6 then sdk_pll_hz r SCG_SPLLCSR
      else 0)"

fun sdk_scg_hz :: "(nat \<Rightarrow> u32) \<Rightarrow> scg_clock \<Rightarrow> nat" where
  "sdk_scg_hz r Fro12m = sdk_fro12m_hz r"
| "sdk_scg_hz r Frohf = sdk_frohf_hz r"
| "sdk_scg_hz r Apll = sdk_pll_hz r SCG_APLLCSR"
| "sdk_scg_hz r Spll = sdk_pll_hz r SCG_SPLLCSR"
| "sdk_scg_hz r Mainclk = sdk_main_hz r"

section \<open>Register fields\<close>

lemma unat_and_mask: "unat (v AND mask n) = unat v mod 2 ^ n" for v :: u32
  unfolding take_bit_eq_mask [symmetric] unsigned_take_bit_eq by (rule take_bit_eq_mod)

lemma unat_field:
  fixes v m :: u32
  assumes "drop_bit lo m = mask w"
  shows "unat (drop_bit lo (v AND m)) = reg_field v lo w"
proof -
  have "drop_bit lo (v AND m) = drop_bit lo v AND mask w" by (simp add: drop_bit_and assms)
  then show ?thesis
    by (simp only: unat_and_mask unat_drop_bit_eq) (simp add: reg_field_def drop_bit_eq_div)
qed

lemma unat_field_0:
  fixes v m :: u32
  assumes "m = mask w"
  shows "unat (v AND m) = reg_field v 0 w"
  by (simp add: assms unat_and_mask reg_field_def)

lemma pll_source_field: "unat (drop_bit 25 (v AND (0x6000000 :: u32))) = reg_field v 25 2"
  by (rule unat_field) (simp add: mask_eq_exp_minus_1)

lemma scs_field: "unat (drop_bit 24 (v AND (0x0F000000 :: u32))) = reg_field v 24 4"
  by (rule unat_field) (simp add: mask_eq_exp_minus_1)

lemma low_fields:
  "unat (v AND (0xFFFF :: u32)) = reg_field v 0 16"
  "unat (v AND (0xFF :: u32)) = reg_field v 0 8"
  "unat (v AND (0x1F :: u32)) = reg_field v 0 5"
  "unat (v AND (0xF :: u32)) = reg_field v 0 4"
  "unat (v AND (7 :: u32)) = reg_field v 0 3"
  by (rule unat_field_0; simp add: mask_eq_exp_minus_1)+

lemma reg_field_less: "reg_field v lo w < 2 ^ w"
  by (simp add: reg_field_def)

lemma word_eq_unat: "(v = w) \<longleftrightarrow> unat v = unat w" for v w :: u32
  by (rule word_unat_eq_iff)

section \<open>The output clocks follow the registers\<close>

lemma ucast_of_unat: "(ucast v :: u32) = of_nat (unat v)" for v :: u64
  by (simp add: of_nat_unat)

lemma pll_arith:
  fixes fin n m p :: u32
  assumes "unat m < 2 ^ 16"
  shows "(ucast ((ucast (fin div n) :: u64) * ucast m div ucast p) :: u32)
           = of_nat (unat fin div unat n * unat m div unat p)"
proof -
  have "unat (fin div n) * unat m < 2 ^ 32 * 2 ^ 16"
    using unsigned_less [where ?'a = nat, of "fin div n"] assms by (intro mult_strict_mono) simp_all
  then have "unat (fin div n) * unat m < 2 ^ LENGTH(64)" by simp
  then have "unat ((ucast (fin div n) :: u64) * ucast m) = unat (fin div n) * unat m"
    using unat_mult_lem [of "ucast (fin div n) :: u64" "ucast m"] by (simp add: unat_up)
  then have "unat ((ucast (fin div n) :: u64) * ucast m div ucast p)
               = unat fin div unat n * unat m div unat p"
    by (simp add: unat_div_distrib unat_up)
  then show ?thesis by (simp only: ucast_of_unat)
qed

lemma at_least_one: "unat (if n = 0 then 1 else n) = max 1 (unat n)" for n :: u32
  by (auto simp: max_def unat_eq_zero not_le)

lemma double_small: "unat v < 2 ^ 5 \<Longrightarrow> unat (2 * v) = 2 * unat v" for v :: u32
  by (simp add: unat_word_ariths)

lemma pll_postdiv:
  fixes d :: u32
  assumes "unat d < 2 ^ 5"
  shows "unat (let p = (if a then 1 else if b then d else 2 * d) in if p = 0 then 2 else p)
           = (if a then 1 else if unat d = 0 then 2 else if b then unat d else 2 * unat d)"
proof -
  note dbl = double_small [OF assms]
  have "2 * d = 0 \<longleftrightarrow> d = 0" using dbl unat_eq_zero [of "2 * d"] unat_eq_zero [of d] by simp
  then show ?thesis using dbl by (simp add: Let_def unat_eq_zero)
qed

lemma sdk_pll_eq:
  "sdk_pll_hz r b = (if bit (r (b div 4)) 0 \<or> bit (r (b div 4)) 1 then fin div n * m div p else 0)"
  if "fin = (let src = reg_field (r ((b + 4) div 4)) 25 2 in
             if src = 0 then sdk_ext_hz r
             else if src = 1 then (if bit (r (SCG_FIRCCSR div 4)) 0 then 48000000 else 0)
             else if src = 2 then sdk_osc32k_hz r else 0)"
    and "n = (if bit (r ((b + 4) div 4)) 19 then 1 else max 1 (reg_field (r ((b + 0xC) div 4)) 0 8))"
    and "m = reg_field (r ((b + 0x10) div 4)) 0 16"
    and "p = (let d = reg_field (r ((b + 0x14) div 4)) 0 5 in
              if bit (r ((b + 4) div 4)) 20 then 1 else if d = 0 then 2
              else if bit (r ((b + 4) div 4)) 16 then d else 2 * d)"
  unfolding that sdk_pll_hz_def Let_def by (rule refl)

lemma scg_pll_out_sdk:
  "scg_pll_out s (b + 4) (b + 0xC) (b + 0x10) (b + 0x14) x b = of_nat (sdk_pll_hz (scg_regs s) b)"
proof -
  let ?r = "scg_regs s"
  let ?c = "?r ((b + 4) div 4)"
  let ?src = "drop_bit 25 (?c AND (0x6000000 :: u32))"
  define fin :: u32 where "fin =
    (if ?src = 0 then (if bit (?r (SCG_SOSCCSR div 4)) 0 then 16000000 else 0)
     else if ?src = 1 then scg_clk48m_hz s
     else if ?src = 2 then (if bit (?r (SCG_ROSCCSR div 4)) 16 then 32768 else 0) else 0)"
  define n :: u32 where "n = (let n = (if bit ?c 19 then 1 else ?r ((b + 0xC) div 4) AND 0xFF) in
    if n = 0 then 1 else n)"
  define p :: u32 where "p = (let p = (if bit ?c 20 then 1 else if bit ?c 16 then ?r ((b + 0x14) div 4) AND 0x1F
    else 2 * (?r ((b + 0x14) div 4) AND 0x1F)) in if p = 0 then 2 else p)"
  define m where "m = ?r ((b + 0x10) div 4) AND 0xFFFF"
  have out: "scg_pll_out s (b + 4) (b + 0xC) (b + 0x10) (b + 0x14) x b =
      (if \<not> tst (?r (b div 4)) APLLCSR_PWR_CLK then 0 else if fin = 0 then 0
       else ucast ((ucast (fin div n) :: u64) * ucast m div ucast p))"
    unfolding scg_pll_out_def fin_def n_def p_def m_def Let_def tst_flag by (rule refl)
  have m: "unat m = reg_field (?r ((b + 0x10) div 4)) 0 16" unfolding m_def by (rule low_fields)
  then have "unat m < 2 ^ 16" using reg_field_less [of _ 0 16] by metis
  note arith = pll_arith [OF this]
  have fin: "unat fin = (let src = reg_field ?c 25 2 in
      if src = 0 then sdk_ext_hz ?r
      else if src = 1 then (if bit (?r (SCG_FIRCCSR div 4)) 0 then 48000000 else 0)
      else if src = 2 then sdk_osc32k_hz ?r else 0)"
    unfolding fin_def sdk_ext_hz_def sdk_osc32k_hz_def scg_clk48m_hz_def word_eq_unat [of ?src] pll_source_field
    by (simp add: Let_def)
  have n: "unat n = (if bit ?c 19 then 1 else max 1 (reg_field (?r ((b + 0xC) div 4)) 0 8))"
    unfolding n_def Let_def at_least_one by (simp add: low_fields)
  have "unat (?r ((b + 0x14) div 4) AND 0x1F) < 2 ^ 5"
    unfolding low_fields by (rule reg_field_less)
  then have p: "unat p = (let d = reg_field (?r ((b + 0x14) div 4)) 0 5 in
      if bit ?c 20 then 1 else if d = 0 then 2 else if bit ?c 16 then d else 2 * d)"
    unfolding p_def by (subst pll_postdiv) (simp_all only: low_fields Let_def)
  show ?thesis unfolding out sdk_pll_eq [OF fin n m p]
    by (simp add: arith tst_or unat_eq_zero)
qed

lemma scg_apll_sdk: "scg_apll_out s = of_nat (sdk_pll_hz (scg_regs s) SCG_APLLCSR)"
  using scg_pll_out_sdk [of s SCG_APLLCSR SCG_APLLSSCG1] by (simp add: scg_apll_out_def)

lemma scg_spll_sdk: "scg_spll_out s = of_nat (sdk_pll_hz (scg_regs s) SCG_SPLLCSR)"
  using scg_pll_out_sdk [of s SCG_SPLLCSR SCG_SPLLSSCG1] by (simp add: scg_spll_out_def)

lemma scg_main_clk_sdk:
  assumes "period (scg_outs s) Fro12m = CLOCK_PERIOD_FROM_HZ (of_nat (sdk_fro12m_hz (scg_regs s)))"
    and "period (scg_outs s) Frohf = CLOCK_PERIOD_FROM_HZ (of_nat (sdk_frohf_hz (scg_regs s)))"
  shows "scg_main_clk_hz s = of_nat (sdk_main_hz (scg_regs s))"
proof -
  have "clock_get_hz (period (scg_outs s) Fro12m) = of_nat (sdk_fro12m_hz (scg_regs s))"
    unfolding assms by (rule clock_get_hz_from_hz) (simp add: sdk_fro12m_hz_def)
  moreover have "clock_get_hz (period (scg_outs s) Frohf) = of_nat (sdk_frohf_hz (scg_regs s))"
    unfolding assms by (rule clock_get_hz_from_hz) (simp add: sdk_frohf_hz_def)
  ultimately show ?thesis
    unfolding scg_main_clk_hz_def sdk_main_hz_def Let_def scg_apll_sdk scg_spll_sdk
      word_eq_unat [of "drop_bit _ _"] scs_field
    by (simp add: sdk_ext_hz_def sdk_osc32k_hz_def)
qed

lemma scg_clock_update_simps [simp]:
  "scg_regs (scg_clock_update_hz c hz s) = scg_regs s"
  "scg_outs (scg_clock_update_hz c hz s) = clock_update_hz c hz (scg_outs s)"
  by (simp_all add: scg_clock_update_hz_def)

lemma scg_update_regs [simp]: "scg_regs (mcxn_scg_update_clocks s) = scg_regs s"
  by (simp add: mcxn_scg_update_clocks_def Let_def)

lemma scg_update_extends: "clock_extends (scg_outs s) (scg_outs (mcxn_scg_update_clocks s))"
  unfolding mcxn_scg_update_clocks_def Let_def scg_clock_update_simps
  by (intro clock_update_extends clock_extends_refl)

lemma scg_update_period:
  "period (scg_outs (mcxn_scg_update_clocks s)) c = CLOCK_PERIOD_FROM_HZ (of_nat (sdk_scg_hz (scg_regs s) c))"
proof -
  have hf: "(if \<not> tst (scg_regs s (SCG_FIRCCSR div 4)) FIRCCSR_FIRCEN then 0
        else if tst (scg_regs s (SCG_FIRCCFG div 4)) FIRCCFG_RANGE then 144000000 else 48000000 :: u32)
      = of_nat (sdk_frohf_hz (scg_regs s))" by (simp add: sdk_frohf_hz_def)
  have lf: "(if tst (scg_regs s (SCG_SIRCCSR div 4)) SIRCCSR_PERIPH_EN then 12000000 else 0 :: u32)
      = of_nat (sdk_fro12m_hz (scg_regs s))" by (simp add: sdk_fro12m_hz_def)
  show ?thesis unfolding mcxn_scg_update_clocks_def Let_def hf lf
    by (cases c; subst scg_main_clk_sdk) (simp_all add: scg_apll_sdk scg_spll_sdk)
qed

text \<open>The SCG as a source of clocks: its outputs are the driver's frequencies.\<close>

interpretation scg: clock_source scg_outs mcxn_scg_update_clocks
    "\<lambda>s c. of_nat (sdk_scg_hz (scg_regs s) c)" UNIV
  by unfold_locales (simp_all add: scg_update_extends scg_update_period)

text \<open>
  Every register the frequencies depend on is one whose write re-derives the clocks, so an aligned
  write of any other register leaves them true.
\<close>

lemma sdk_scg_other_register:
  assumes "4 dvd off" and "\<not> scg_derives_clocks off"
  shows "sdk_scg_hz (r(off div 4 := v)) c = sdk_scg_hz r c"
proof -
  from assms(1) obtain k where k: "off = 4 * k" by (rule dvdE)
  with assms(2) have "k \<notin> {0x80, 0xC0, 0xC2, 0x40, 0x100, 5, 0x140, 0x141, 0x143, 0x144, 0x145,
      0x180, 0x181, 0x183, 0x184, 0x185}"
    unfolding scg_derives_clocks_def by auto
  then have same: "(r(off div 4 := v)) (a div 4) = r (a div 4)"
    if "a div 4 \<in> {0x80, 0xC0, 0xC2, 0x40, 0x100, 5, 0x140, 0x141, 0x143, 0x144, 0x145,
      0x180, 0x181, 0x183, 0x184, 0x185}" for a
    using that unfolding k by auto
  have regs: "(r(off div 4 := v)) (SCG_SOSCCSR div 4) = r (SCG_SOSCCSR div 4)"
    "(r(off div 4 := v)) (SCG_SIRCCSR div 4) = r (SCG_SIRCCSR div 4)"
    "(r(off div 4 := v)) (SCG_FIRCCSR div 4) = r (SCG_FIRCCSR div 4)"
    "(r(off div 4 := v)) (SCG_FIRCCFG div 4) = r (SCG_FIRCCFG div 4)"
    "(r(off div 4 := v)) (SCG_ROSCCSR div 4) = r (SCG_ROSCCSR div 4)"
    "(r(off div 4 := v)) (SCG_RCCR div 4) = r (SCG_RCCR div 4)"
    by (rule same; simp)+
  have osc: "sdk_ext_hz (r(off div 4 := v)) = sdk_ext_hz r"
    "sdk_osc32k_hz (r(off div 4 := v)) = sdk_osc32k_hz r"
    "sdk_fro12m_hz (r(off div 4 := v)) = sdk_fro12m_hz r"
    "sdk_frohf_hz (r(off div 4 := v)) = sdk_frohf_hz r"
    unfolding sdk_ext_hz_def sdk_osc32k_hz_def sdk_fro12m_hz_def sdk_frohf_hz_def regs
    by (rule refl)+
  have pll: "sdk_pll_hz (r(off div 4 := v)) b = sdk_pll_hz r b" if "b \<in> {SCG_APLLCSR, SCG_SPLLCSR}" for b
  proof -
    have "(r(off div 4 := v)) (b div 4) = r (b div 4)"
      "(r(off div 4 := v)) ((b + 4) div 4) = r ((b + 4) div 4)"
      "(r(off div 4 := v)) ((b + 0xC) div 4) = r ((b + 0xC) div 4)"
      "(r(off div 4 := v)) ((b + 0x10) div 4) = r ((b + 0x10) div 4)"
      "(r(off div 4 := v)) ((b + 0x14) div 4) = r ((b + 0x14) div 4)"
      using that by (intro same; auto)+
    then show ?thesis unfolding sdk_pll_hz_def osc regs by (simp only:)
  qed
  have main: "sdk_main_hz (r(off div 4 := v)) = sdk_main_hz r"
    unfolding sdk_main_hz_def osc regs by (simp only: pll insert_iff simp_thms)
  show ?thesis by (cases c) (simp_all only: sdk_scg_hz.simps osc pll main insert_iff simp_thms)
qed

lemma scg_reset_settled: "scg.settled (mcxn_scg_reset s)"
  unfolding mcxn_scg_reset_def by (rule scg.update_settled)

lemma scg_write_settled:
  assumes "scg.settled s" and "4 dvd off"
  shows "scg.settled (mcxn_scg_write s off v)"
proof -
  have "scg.settled (s\<lparr>scg_regs := (scg_regs s)(off div 4 := v)\<rparr>)" if "\<not> scg_derives_clocks off"
    using sdk_scg_other_register [OF assms(2) that] by (intro scg.settled_cong [OF assms(1)]) simp_all
  then show ?thesis by (simp add: mcxn_scg_write_def Let_def scg.update_settled assms(1))
qed

lemma scg_op_extends:
  "clock_extends (scg_outs s) (scg_outs (mcxn_scg_write s off v))"
  "clock_extends (scg_outs s) (scg_outs (mcxn_scg_reset s))"
  by (simp_all add: mcxn_scg_write_def mcxn_scg_reset_def Let_def scg.update_extends_from)

lemma scg_reset_rates:
  "sdk_scg_hz (scg_regs (mcxn_scg_reset s)) c =
     (case c of Fro12m \<Rightarrow> 12000000 | Frohf \<Rightarrow> 48000000 | Apll \<Rightarrow> 0 | Spll \<Rightarrow> 0 | Mainclk \<Rightarrow> 48000000)"
  by (cases c) (simp_all add: mcxn_scg_reset_def sdk_fro12m_hz_def sdk_frohf_hz_def sdk_pll_hz_def
      sdk_main_hz_def reg_field_def bit_simps flag_def)

end
