(* ===== verification/Mcxn_Syscon.thy ===== *)
theory Mcxn_Syscon
  imports Mcxn_Scg
begin

unbundle bit_operations_syntax

text \<open>
  The system controller (\<^verbatim>\<open>hw/misc/mcxn_syscon.c\<close>): the clock selectors and dividers that turn the source
  clocks of the SCG into the clocks of the peripherals, the SET and CLR aliases of the reset and
  clock gates, and the release of the second core through CPUCTRL and CPBOOT, which a store
  schedules as a bottom half.
\<close>

section \<open>Model\<close>

datatype sys_clock = Ostimer_clk | Ctimer_clk nat | Sct_clk | Sai_clk nat | Busclk

datatype psci_state = PSCI_ON | PSCI_OFF

datatype halt_reason = NOT_HALTED | HALT_PSCI

text \<open>The second core as far as SYSCON handles it: a reset is recorded with the vector base it loads.\<close>

datatype cpu_call = Cpu_reset u32 | Cpu_resume

record ARMCPU =
  cpu_init_svtor :: u32
  cpu_halted :: bool
  cpu_power_state :: psci_state
  cpu_halt_reason :: halt_reason
  cpu_calls :: "cpu_call list"

record MCXNSysconState =
  sc_regs :: "nat \<Rightarrow> u32"
  sc_outs :: "sys_clock clock_outs"
  sc_in :: "scg_clock \<Rightarrow> u64"
  sc_cpuctrl :: u32
  sc_cpboot :: u32
  sc_cpu1_running :: bool
  sc_cpu1 :: "ARMCPU option"
  sc_bh :: nat

abbreviation (input) SYSCON_OSTIMERCLKSEL :: nat where "SYSCON_OSTIMERCLKSEL \<equiv> 0x5E0"
abbreviation (input) SYSCON_SCTCLKSEL :: nat where "SYSCON_SCTCLKSEL \<equiv> 0x2F0"
abbreviation (input) SYSCON_SCTCLKDIV :: nat where "SYSCON_SCTCLKDIV \<equiv> 0x3B4"
abbreviation (input) SYSCON_CTIMERCLKSEL0 :: nat where "SYSCON_CTIMERCLKSEL0 \<equiv> 0x26C"
abbreviation (input) SYSCON_CTIMERCLKDIV0 :: nat where "SYSCON_CTIMERCLKDIV0 \<equiv> 0x3D0"
abbreviation (input) SYSCON_PLL1CLK0DIV :: nat where "SYSCON_PLL1CLK0DIV \<equiv> 0x3E4"
abbreviation (input) SYSCON_AHBCLKDIV :: nat where "SYSCON_AHBCLKDIV \<equiv> 0x380"
abbreviation (input) SYSCON_SAI0CLKSEL :: nat where "SYSCON_SAI0CLKSEL \<equiv> 0x880"
abbreviation (input) SYSCON_SAI1CLKSEL :: nat where "SYSCON_SAI1CLKSEL \<equiv> 0x884"
abbreviation (input) SYSCON_SAI0CLKDIV :: nat where "SYSCON_SAI0CLKDIV \<equiv> 0x888"
abbreviation (input) SYSCON_SAI1CLKDIV :: nat where "SYSCON_SAI1CLKDIV \<equiv> 0x88C"
abbreviation (input) SAI_COUNT :: nat where "SAI_COUNT \<equiv> 2"
abbreviation (input) CTIMER_COUNT :: nat where "CTIMER_COUNT \<equiv> 5"
abbreviation (input) CLKDIV_DIV_MASK :: u32 where "CLKDIV_DIV_MASK \<equiv> 0xFF"
abbreviation (input) CLKDIV_HALT :: u32 where "CLKDIV_HALT \<equiv> flag 30"
abbreviation (input) SYSCON_CPUCTRL :: nat where "SYSCON_CPUCTRL \<equiv> 0x800"
abbreviation (input) SYSCON_CPBOOT :: nat where "SYSCON_CPBOOT \<equiv> 0x804"
abbreviation (input) SYSCON_CPSTAT :: nat where "SYSCON_CPSTAT \<equiv> 0x808"
abbreviation (input) SYSCON_PRESETCTRL0 :: nat where "SYSCON_PRESETCTRL0 \<equiv> 0x100"
abbreviation (input) SYSCON_PRESETCTRLSET :: nat where "SYSCON_PRESETCTRLSET \<equiv> 0x120"
abbreviation (input) SYSCON_PRESETCTRLCLR :: nat where "SYSCON_PRESETCTRLCLR \<equiv> 0x140"
abbreviation (input) SYSCON_AHBCLKCTRL0 :: nat where "SYSCON_AHBCLKCTRL0 \<equiv> 0x200"
abbreviation (input) SYSCON_AHBCLKCTRLSET :: nat where "SYSCON_AHBCLKCTRLSET \<equiv> 0x220"
abbreviation (input) SYSCON_AHBCLKCTRLCLR :: nat where "SYSCON_AHBCLKCTRLCLR \<equiv> 0x240"
abbreviation (input) SYSCON_CTRL_COUNT :: nat where "SYSCON_CTRL_COUNT \<equiv> 4"
abbreviation (input) CPUCTRL_CPU1CLKEN :: u32 where "CPUCTRL_CPU1CLKEN \<equiv> flag 3"
abbreviation (input) CPUCTRL_CPU1RSTEN :: u32 where "CPUCTRL_CPU1RSTEN \<equiv> flag 5"
abbreviation (input) CPBOOT_ADDR_MASK :: u32 where "CPBOOT_ADDR_MASK \<equiv> 0xFFFFFF80"
abbreviation (input) CPSTAT_CPU1SLEEPING :: u32 where "CPSTAT_CPU1SLEEPING \<equiv> flag 1"

subsection \<open>Clocks\<close>

definition mcxn_syscon_pll1_div :: "MCXNSysconState \<Rightarrow> u32" where
  "mcxn_syscon_pll1_div s =
     (let d = (sc_regs s (SYSCON_PLL1CLK0DIV div 4) AND CLKDIV_DIV_MASK) + 1
      in clock_get_hz (sc_in s Spll) div d)"

definition mcxn_syscon_ctimer_src :: "MCXNSysconState \<Rightarrow> nat \<Rightarrow> u32" where
  "mcxn_syscon_ctimer_src s n =
     (let sel = sc_regs s (SYSCON_CTIMERCLKSEL0 div 4 + n) AND 0xF in
      if sel = 0 then 1000000
      else if sel = 1 then clock_get_hz (sc_in s Apll)
      else if sel = 2 then mcxn_syscon_pll1_div s
      else if sel = 3 then clock_get_hz (sc_in s Frohf)
      else if sel = 4 then clock_get_hz (sc_in s Fro12m)
      else 0)"

definition mcxn_syscon_sct_src :: "MCXNSysconState \<Rightarrow> u32" where
  "mcxn_syscon_sct_src s =
     (let sel = sc_regs s (SYSCON_SCTCLKSEL div 4) AND 7 in
      if sel = 1 then clock_get_hz (sc_in s Apll)
      else if sel = 3 then clock_get_hz (sc_in s Frohf)
      else if sel = 4 then mcxn_syscon_pll1_div s
      else 0)"

definition mcxn_syscon_sai_src :: "MCXNSysconState \<Rightarrow> nat \<Rightarrow> u32" where
  "mcxn_syscon_sai_src s n =
     (let off = (if n \<noteq> 0 then SYSCON_SAI1CLKSEL else SYSCON_SAI0CLKSEL);
          sel = sc_regs s (off div 4) AND 7 in
      if sel = 1 then clock_get_hz (sc_in s Apll)
      else if sel = 3 then clock_get_hz (sc_in s Frohf)
      else if sel = 4 then mcxn_syscon_pll1_div s
      else 0)"

text \<open>The divider behind a selector, which the CTIMER, SCT and SAI branches share.\<close>

definition syscon_divide :: "u32 \<Rightarrow> u32 \<Rightarrow> u32" where
  "syscon_divide d src = (if tst d CLKDIV_HALT then 0 else src div ((d AND CLKDIV_DIV_MASK) + 1))"

definition syscon_clock_update_hz :: "sys_clock \<Rightarrow> u32 \<Rightarrow> MCXNSysconState \<Rightarrow> MCXNSysconState" where
  "syscon_clock_update_hz c hz s = s\<lparr>sc_outs := clock_update_hz c hz (sc_outs s)\<rparr>"

definition mcxn_syscon_update_clocks :: "MCXNSysconState \<Rightarrow> MCXNSysconState" where
  "mcxn_syscon_update_clocks s =
     (let sel = sc_regs s (SYSCON_OSTIMERCLKSEL div 4) AND 7;
          hz = (if sel = 0 then 16000 else if sel = 1 then 32768 else if sel = 2 then 1000000 else 0);
          s = syscon_clock_update_hz Ostimer_clk hz s;
          s = fold (\<lambda>n s. syscon_clock_update_hz (Ctimer_clk n)
                (syscon_divide (sc_regs s (SYSCON_CTIMERCLKDIV0 div 4 + n)) (mcxn_syscon_ctimer_src s n)) s)
                [0..<CTIMER_COUNT] s;
          s = syscon_clock_update_hz Sct_clk
                (syscon_divide (sc_regs s (SYSCON_SCTCLKDIV div 4)) (mcxn_syscon_sct_src s)) s;
          s = fold (\<lambda>n s. syscon_clock_update_hz (Sai_clk n)
                (syscon_divide (sc_regs s ((if n \<noteq> 0 then SYSCON_SAI1CLKDIV else SYSCON_SAI0CLKDIV) div 4))
                  (mcxn_syscon_sai_src s n)) s) [0..<SAI_COUNT] s;
          ahbdiv = (sc_regs s (SYSCON_AHBCLKDIV div 4) AND CLKDIV_DIV_MASK) + 1
      in syscon_clock_update_hz Busclk (clock_get_hz (sc_in s Mainclk) div ahbdiv) s)"

text \<open>An input clock takes the period of its source; its callback re-derives every output.\<close>

definition mcxn_syscon_src_changed :: "MCXNSysconState \<Rightarrow> MCXNSysconState" where
  "mcxn_syscon_src_changed s = mcxn_syscon_update_clocks s"

definition syscon_clock_in :: "scg_clock \<Rightarrow> u64 \<Rightarrow> MCXNSysconState \<Rightarrow> MCXNSysconState" where
  "syscon_clock_in c =
     clock_propagate_to (\<lambda>s. sc_in s c) (\<lambda>p s. s\<lparr>sc_in := (sc_in s)(c := p)\<rparr>) mcxn_syscon_src_changed"

subsection \<open>The second core\<close>

definition mcxn_syscon_set_cpu1_run :: "ARMCPU \<Rightarrow> bool \<Rightarrow> ARMCPU" where
  "mcxn_syscon_set_cpu1_run cpu run =
     cpu\<lparr>cpu_halted := \<not> run,
         cpu_power_state := (if run then PSCI_ON else PSCI_OFF),
         cpu_halt_reason := (if run then NOT_HALTED else HALT_PSCI)\<rparr>"

definition cpu_record :: "cpu_call \<Rightarrow> ARMCPU \<Rightarrow> ARMCPU" where
  "cpu_record c cpu = cpu\<lparr>cpu_calls := cpu_calls cpu @ [c]\<rparr>"

definition mcxn_syscon_start_cpu1_bh :: "MCXNSysconState \<Rightarrow> MCXNSysconState" where
  "mcxn_syscon_start_cpu1_bh s =
     (case sc_cpu1 s of
        None \<Rightarrow> s
      | Some cpu \<Rightarrow>
          let cpu = cpu\<lparr>cpu_init_svtor := sc_cpboot s AND CPBOOT_ADDR_MASK\<rparr>;
              cpu = cpu_record (Cpu_reset (cpu_init_svtor cpu)) cpu;
              cpu = mcxn_syscon_set_cpu1_run cpu True;
              cpu = cpu_record Cpu_resume cpu
          in s\<lparr>sc_cpu1 := Some cpu, sc_cpu1_running := True\<rparr>)"

text \<open>The main loop runs the bottom halves that are due, each once.\<close>

definition syscon_main_loop :: "MCXNSysconState \<Rightarrow> MCXNSysconState" where
  "syscon_main_loop s = (mcxn_syscon_start_cpu1_bh ^^ sc_bh s) (s\<lparr>sc_bh := 0\<rparr>)"

definition syscon_want_run :: "u32 \<Rightarrow> bool" where
  "syscon_want_run cpuctrl \<longleftrightarrow> tst cpuctrl CPUCTRL_CPU1CLKEN \<and> \<not> tst cpuctrl CPUCTRL_CPU1RSTEN"

definition mcxn_syscon_update_cpu1 :: "MCXNSysconState \<Rightarrow> MCXNSysconState" where
  "mcxn_syscon_update_cpu1 s =
     (let want_run = syscon_want_run (sc_cpuctrl s) in
      case sc_cpu1 s of
        None \<Rightarrow> s
      | Some cpu \<Rightarrow>
          if want_run \<and> \<not> sc_cpu1_running s then s\<lparr>sc_bh := sc_bh s + 1\<rparr>
          else if \<not> want_run \<and> sc_cpu1_running s
          then s\<lparr>sc_cpu1 := Some (mcxn_syscon_set_cpu1_run cpu False), sc_cpu1_running := False\<rparr>
          else s)"

subsection \<open>Registers\<close>

definition in_range :: "nat \<Rightarrow> nat \<Rightarrow> nat \<Rightarrow> bool" where
  "in_range off base count \<longleftrightarrow> off \<ge> base \<and> off < base + 4 * count"

definition mcxn_syscon_read :: "MCXNSysconState \<Rightarrow> nat \<Rightarrow> u32" where
  "mcxn_syscon_read s offset =
     (if offset = SYSCON_CPUCTRL then sc_cpuctrl s
      else if offset = SYSCON_CPBOOT then sc_cpboot s
      else if offset = SYSCON_CPSTAT then (if sc_cpu1_running s then 0 else CPSTAT_CPU1SLEEPING)
      else sc_regs s (offset div 4))"

definition syscon_derives_clocks :: "nat \<Rightarrow> bool" where
  "syscon_derives_clocks offset \<longleftrightarrow>
     offset \<in> {SYSCON_OSTIMERCLKSEL, SYSCON_SCTCLKSEL, SYSCON_SCTCLKDIV, SYSCON_PLL1CLK0DIV,
               SYSCON_SAI0CLKSEL, SYSCON_SAI1CLKSEL, SYSCON_SAI0CLKDIV, SYSCON_SAI1CLKDIV,
               SYSCON_AHBCLKDIV}
     \<or> in_range offset SYSCON_CTIMERCLKSEL0 CTIMER_COUNT
     \<or> in_range offset SYSCON_CTIMERCLKDIV0 CTIMER_COUNT"

text \<open>An alias register changes the instance of its value register that stands at the same distance.\<close>

definition syscon_alias :: "nat \<Rightarrow> nat \<Rightarrow> nat \<Rightarrow> (u32 \<Rightarrow> u32) \<Rightarrow> MCXNSysconState \<Rightarrow> MCXNSysconState" where
  "syscon_alias base alias offset f s =
     (let i = base div 4 + (offset - alias) div 4
      in s\<lparr>sc_regs := (sc_regs s)(i := f (sc_regs s i))\<rparr>)"

definition mcxn_syscon_write :: "MCXNSysconState \<Rightarrow> nat \<Rightarrow> u32 \<Rightarrow> MCXNSysconState" where
  "mcxn_syscon_write s offset v =
     (if in_range offset SYSCON_PRESETCTRLSET SYSCON_CTRL_COUNT
      then syscon_alias SYSCON_PRESETCTRL0 SYSCON_PRESETCTRLSET offset (\<lambda>r. r OR v) s
      else if in_range offset SYSCON_PRESETCTRLCLR SYSCON_CTRL_COUNT
      then syscon_alias SYSCON_PRESETCTRL0 SYSCON_PRESETCTRLCLR offset (\<lambda>r. r AND NOT v) s
      else if in_range offset SYSCON_AHBCLKCTRLSET SYSCON_CTRL_COUNT
      then syscon_alias SYSCON_AHBCLKCTRL0 SYSCON_AHBCLKCTRLSET offset (\<lambda>r. r OR v) s
      else if in_range offset SYSCON_AHBCLKCTRLCLR SYSCON_CTRL_COUNT
      then syscon_alias SYSCON_AHBCLKCTRL0 SYSCON_AHBCLKCTRLCLR offset (\<lambda>r. r AND NOT v) s
      else if offset = SYSCON_CPUCTRL then mcxn_syscon_update_cpu1 (s\<lparr>sc_cpuctrl := v\<rparr>)
      else if offset = SYSCON_CPBOOT then s\<lparr>sc_cpboot := v\<rparr>
      else let s = s\<lparr>sc_regs := (sc_regs s)(offset div 4 := v)\<rparr> in
           if syscon_derives_clocks offset then mcxn_syscon_update_clocks s else s)"

definition syscon_reset :: "(nat \<times> u32) list" where
  "syscon_reset =
    [(0x200, 0x603), (0x260, 0x7), (0x300, 0x40000000), (0x304, 0x40000000), (0x308, 0x40000000),
     (0x37C, 0x40000000), (0x384, 0x40000000), (0x388, 0x40000000), (0x398, 0x40000000),
     (0x3B4, 0x40000000), (0x3C4, 0x40000000), (0x3E4, 0x40000000), (0x3E8, 0x40000000),
     (0x400, 0x20410), (0x490, 0x7), (0x494, 0x40000000), (0x498, 0x7), (0x49C, 0x40000000),
     (0x4A0, 0x7), (0x4A4, 0x40000000), (0x52C, 0x7), (0x530, 0x7), (0x534, 0x7), (0x538, 0x40000000),
     (0x53C, 0x40000000), (0x540, 0x40000000), (0x548, 0xF), (0x54C, 0x40000000), (0x560, 0x7),
     (0x564, 0x40000000), (0x5A0, 0x7), (0x5A8, 0x7), (0x5AC, 0x40000000), (0x5B0, 0x7),
     (0x5B4, 0x40000000), (0x5B8, 0x7), (0x5BC, 0x40000000), (0x5D4, 0x1), (0x5D8, 0x3),
     (0x5DC, 0x40000000), (0x5E0, 0x3), (0x5F0, 0x7), (0x5F4, 0x40000000), (0x5F8, 0x7),
     (0x5FC, 0x40000000), (0x600, 0x7), (0x604, 0x40000000), (0x608, 0x7), (0x60C, 0x40000000),
     (0x610, 0x7), (0x614, 0x40000000), (0x618, 0x7), (0x61C, 0x40000000), (0x800, 0x28),
     (0x824, 0x31), (0x880, 0x7), (0x884, 0x7), (0x888, 0x40000000), (0x88C, 0x40000000), (0x890, 0x7),
     (0x894, 0x7), (0x898, 0x40000000), (0x89C, 0x40000000), (0xB30, 0x7), (0xB34, 0x7),
     (0xB38, 0x40000000), (0xB3C, 0x40000000), (0xB40, 0x40000000), (0xE04, 0xFFFF), (0xE44, 0x3)]"

definition mcxn_syscon_reset :: "MCXNSysconState \<Rightarrow> MCXNSysconState" where
  "mcxn_syscon_reset s =
     (let s = s\<lparr>sc_regs := \<lambda>_. 0\<rparr>;
          s = s\<lparr>sc_regs := fold (\<lambda>(off, val) r. r(off div 4 := val)) syscon_reset (sc_regs s)\<rparr>;
          s = s\<lparr>sc_regs := fold (\<lambda>i r. r(SYSCON_CTIMERCLKSEL0 div 4 + i := 7)) [0..<CTIMER_COUNT] (sc_regs s)\<rparr>;
          s = mcxn_syscon_update_clocks s
      in s\<lparr>sc_cpuctrl := 0x28, sc_cpboot := 0, sc_cpu1_running := False\<rparr>)"

section \<open>The driver's arithmetic\<close>

text \<open>
  The frequency of every peripheral clock as the driver computes it from the selectors and dividers,
  given the frequencies of the sources.
\<close>

definition sdk_pll1_div_hz :: "(nat \<Rightarrow> u32) \<Rightarrow> (scg_clock \<Rightarrow> nat) \<Rightarrow> nat" where
  "sdk_pll1_div_hz r hz = hz Spll div (reg_field (r (SYSCON_PLL1CLK0DIV div 4)) 0 8 + 1)"

definition sdk_divided_hz :: "u32 \<Rightarrow> nat \<Rightarrow> nat" where
  "sdk_divided_hz d hz = (if bit d 30 then 0 else hz div (reg_field d 0 8 + 1))"

definition sdk_audio_hz :: "(nat \<Rightarrow> u32) \<Rightarrow> (scg_clock \<Rightarrow> nat) \<Rightarrow> nat \<Rightarrow> nat" where
  "sdk_audio_hz r hz sel =
     (if sel = 1 then hz Apll else if sel = 3 then hz Frohf else if sel = 4 then sdk_pll1_div_hz r hz else 0)"

fun sdk_sys_hz :: "(nat \<Rightarrow> u32) \<Rightarrow> (scg_clock \<Rightarrow> nat) \<Rightarrow> sys_clock \<Rightarrow> nat" where
  "sdk_sys_hz r hz Ostimer_clk =
     (let sel = reg_field (r (SYSCON_OSTIMERCLKSEL div 4)) 0 3 in
      if sel = 0 then 16000 else if sel = 1 then 32768 else if sel = 2 then 1000000 else 0)"
| "sdk_sys_hz r hz (Ctimer_clk n) =
     sdk_divided_hz (r (SYSCON_CTIMERCLKDIV0 div 4 + n))
       (let sel = reg_field (r (SYSCON_CTIMERCLKSEL0 div 4 + n)) 0 4 in
        if sel = 0 then 1000000 else if sel = 1 then hz Apll else if sel = 2 then sdk_pll1_div_hz r hz
        else if sel = 3 then hz Frohf else if sel = 4 then hz Fro12m else 0)"
| "sdk_sys_hz r hz Sct_clk =
     sdk_divided_hz (r (SYSCON_SCTCLKDIV div 4))
       (sdk_audio_hz r hz (reg_field (r (SYSCON_SCTCLKSEL div 4)) 0 3))"
| "sdk_sys_hz r hz (Sai_clk n) =
     sdk_divided_hz (r ((if n \<noteq> 0 then SYSCON_SAI1CLKDIV else SYSCON_SAI0CLKDIV) div 4))
       (sdk_audio_hz r hz (reg_field (r ((if n \<noteq> 0 then SYSCON_SAI1CLKSEL else SYSCON_SAI0CLKSEL) div 4)) 0 3))"
| "sdk_sys_hz r hz Busclk = hz Mainclk div (reg_field (r (SYSCON_AHBCLKDIV div 4)) 0 8 + 1)"

definition sys_clocks :: "sys_clock set" where
  "sys_clocks = {Ostimer_clk, Sct_clk, Busclk} \<union> Ctimer_clk ` {..<CTIMER_COUNT} \<union> Sai_clk ` {..<SAI_COUNT}"

abbreviation (input) syscon_source_hz :: "MCXNSysconState \<Rightarrow> scg_clock \<Rightarrow> nat" where
  "syscon_source_hz s \<equiv> \<lambda>c. unat (clock_get_hz (sc_in s c))"

section \<open>The peripheral clocks follow the registers and the sources\<close>

lemma unat_divisor: "unat ((d AND (0xFF :: u32)) + 1) = reg_field d 0 8 + 1"
proof -
  have "unat (d AND (0xFF :: u32)) < 2 ^ 8" unfolding low_fields by (rule reg_field_less)
  then show ?thesis by (simp add: unat_word_ariths low_fields)
qed

lemma unat_pll1_div: "unat (mcxn_syscon_pll1_div s) = sdk_pll1_div_hz (sc_regs s) (syscon_source_hz s)"
  by (simp only: mcxn_syscon_pll1_div_def sdk_pll1_div_hz_def Let_def unat_div_distrib unat_divisor)

lemma unat_syscon_divide: "unat (syscon_divide d src) = sdk_divided_hz d (unat src)"
  unfolding syscon_divide_def sdk_divided_hz_def tst_flag
  by (simp only: unat_div_distrib unat_divisor if_distrib [of unat] unsigned_0)

lemma unat_ctimer_src:
  "unat (mcxn_syscon_ctimer_src s n) =
     (let r = sc_regs s; hz = syscon_source_hz s; sel = reg_field (r (SYSCON_CTIMERCLKSEL0 div 4 + n)) 0 4 in
      if sel = 0 then 1000000 else if sel = 1 then hz Apll else if sel = 2 then sdk_pll1_div_hz r hz
      else if sel = 3 then hz Frohf else if sel = 4 then hz Fro12m else 0)"
  unfolding mcxn_syscon_ctimer_src_def Let_def word_eq_unat [of "_ AND _"] low_fields
  by (simp add: unat_pll1_div)

lemma unat_sct_src:
  "unat (mcxn_syscon_sct_src s) =
     sdk_audio_hz (sc_regs s) (syscon_source_hz s) (reg_field (sc_regs s (SYSCON_SCTCLKSEL div 4)) 0 3)"
  unfolding mcxn_syscon_sct_src_def sdk_audio_hz_def Let_def word_eq_unat [of "_ AND _"] low_fields
  by (simp add: unat_pll1_div)

lemma unat_sai_src:
  "unat (mcxn_syscon_sai_src s n) =
     sdk_audio_hz (sc_regs s) (syscon_source_hz s)
       (reg_field (sc_regs s ((if n \<noteq> 0 then SYSCON_SAI1CLKSEL else SYSCON_SAI0CLKSEL) div 4)) 0 3)"
  unfolding mcxn_syscon_sai_src_def sdk_audio_hz_def Let_def word_eq_unat [of "_ AND _"] low_fields
  by (simp add: unat_pll1_div)

lemma syscon_clock_update_simps [simp]:
  "sc_regs (syscon_clock_update_hz c hz s) = sc_regs s"
  "sc_in (syscon_clock_update_hz c hz s) = sc_in s"
  "sc_outs (syscon_clock_update_hz c hz s) = clock_update_hz c hz (sc_outs s)"
  by (simp_all add: syscon_clock_update_hz_def)

text \<open>What is written to each clock depends on the registers and inputs only, which the update keeps.\<close>

lemma syscon_srcs_update [simp]:
  "mcxn_syscon_ctimer_src (syscon_clock_update_hz c hz s) n = mcxn_syscon_ctimer_src s n"
  "mcxn_syscon_sct_src (syscon_clock_update_hz c hz s) = mcxn_syscon_sct_src s"
  "mcxn_syscon_sai_src (syscon_clock_update_hz c hz s) n = mcxn_syscon_sai_src s n"
  unfolding mcxn_syscon_ctimer_src_def mcxn_syscon_sct_src_def mcxn_syscon_sai_src_def
      mcxn_syscon_pll1_div_def syscon_clock_update_simps by (rule refl)+

lemma upt_syscon: "[0..<5] = [0, 1, 2, 3, 4 :: nat]" "[0..<2] = [0, 1 :: nat]"
  by (simp_all add: upt_conv_Cons)

lemma syscon_hz_words:
  fixes s defines "hz \<equiv> \<lambda>c. of_nat (sdk_sys_hz (sc_regs s) (syscon_source_hz s) c) :: u32"
  shows "(let sel = sc_regs s (SYSCON_OSTIMERCLKSEL div 4) AND 7 in
          if sel = 0 then 16000 else if sel = 1 then 32768 else if sel = 2 then 1000000 else 0)
            = hz Ostimer_clk"
    and "syscon_divide (sc_regs s (SYSCON_CTIMERCLKDIV0 div 4 + n)) (mcxn_syscon_ctimer_src s n)
            = hz (Ctimer_clk n)"
    and "syscon_divide (sc_regs s (SYSCON_SCTCLKDIV div 4)) (mcxn_syscon_sct_src s) = hz Sct_clk"
    and "syscon_divide (sc_regs s ((if n \<noteq> 0 then SYSCON_SAI1CLKDIV else SYSCON_SAI0CLKDIV) div 4))
            (mcxn_syscon_sai_src s n) = hz (Sai_clk n)"
    and "clock_get_hz (sc_in s Mainclk) div ((sc_regs s (SYSCON_AHBCLKDIV div 4) AND CLKDIV_DIV_MASK) + 1)
            = hz Busclk"
proof -
  have word: "unat x = k \<Longrightarrow> x = of_nat k" for x :: u32 and k by auto
  note sel = word_eq_unat [of "_ AND _"] low_fields
  show "(let sel = sc_regs s (SYSCON_OSTIMERCLKSEL div 4) AND 7 in
          if sel = 0 then 16000 else if sel = 1 then 32768 else if sel = 2 then 1000000 else 0)
            = hz Ostimer_clk"
    unfolding hz_def sdk_sys_hz.simps Let_def sel by simp
  show "syscon_divide (sc_regs s (SYSCON_CTIMERCLKDIV0 div 4 + n)) (mcxn_syscon_ctimer_src s n)
            = hz (Ctimer_clk n)"
    unfolding hz_def by (rule word) (simp only: sdk_sys_hz.simps unat_syscon_divide unat_ctimer_src Let_def)
  show "syscon_divide (sc_regs s (SYSCON_SCTCLKDIV div 4)) (mcxn_syscon_sct_src s) = hz Sct_clk"
    unfolding hz_def by (rule word) (simp only: sdk_sys_hz.simps unat_syscon_divide unat_sct_src)
  show "syscon_divide (sc_regs s ((if n \<noteq> 0 then SYSCON_SAI1CLKDIV else SYSCON_SAI0CLKDIV) div 4))
            (mcxn_syscon_sai_src s n) = hz (Sai_clk n)"
    unfolding hz_def by (rule word) (simp only: sdk_sys_hz.simps unat_syscon_divide unat_sai_src)
  show "clock_get_hz (sc_in s Mainclk) div ((sc_regs s (SYSCON_AHBCLKDIV div 4) AND CLKDIV_DIV_MASK) + 1)
            = hz Busclk"
    unfolding hz_def by (rule word) (simp only: sdk_sys_hz.simps unat_div_distrib unat_divisor)
qed

lemma syscon_update_unfold:
  fixes s
  defines "hz \<equiv> \<lambda>c. of_nat (sdk_sys_hz (sc_regs s) (syscon_source_hz s) c) :: u32"
  shows "mcxn_syscon_update_clocks s =
    fold (\<lambda>c. syscon_clock_update_hz c (hz c))
      ([Ostimer_clk] @ map Ctimer_clk [0..<CTIMER_COUNT] @ [Sct_clk] @ map Sai_clk [0..<SAI_COUNT] @ [Busclk]) s"
  unfolding mcxn_syscon_update_clocks_def Let_def upt_syscon fold_simps list.map append.simps
    syscon_clock_update_simps syscon_srcs_update syscon_hz_words [unfolded Let_def] hz_def
  by (rule refl)

lemma fold_clock_updates:
  fixes cs s hz
  defines "s' \<equiv> fold (\<lambda>c. syscon_clock_update_hz c (hz c)) cs s"
  shows "clock_extends (sc_outs s) (sc_outs s')"
    and "period (sc_outs s') = (\<lambda>c. if c \<in> set cs then CLOCK_PERIOD_FROM_HZ (hz c) else period (sc_outs s) c)"
    and "sc_regs s' = sc_regs s" and "sc_in s' = sc_in s"
    and "sc_cpuctrl s' = sc_cpuctrl s" and "sc_cpboot s' = sc_cpboot s" and "sc_bh s' = sc_bh s"
    and "sc_cpu1 s' = sc_cpu1 s" and "sc_cpu1_running s' = sc_cpu1_running s"
  unfolding s'_def
  by (induction cs rule: rev_induct)
     (auto simp: syscon_clock_update_hz_def intro: clock_update_extends)

lemma sys_clocks_list:
  "set ([Ostimer_clk] @ map Ctimer_clk [0..<CTIMER_COUNT] @ [Sct_clk] @ map Sai_clk [0..<SAI_COUNT] @ [Busclk])
     = sys_clocks"
  by (auto simp: sys_clocks_def)

lemma syscon_update_keeps [simp]:
  "sc_regs (mcxn_syscon_update_clocks s) = sc_regs s"
  "sc_in (mcxn_syscon_update_clocks s) = sc_in s"
  "sc_cpuctrl (mcxn_syscon_update_clocks s) = sc_cpuctrl s"
  "sc_cpboot (mcxn_syscon_update_clocks s) = sc_cpboot s"
  "sc_bh (mcxn_syscon_update_clocks s) = sc_bh s"
  "sc_cpu1 (mcxn_syscon_update_clocks s) = sc_cpu1 s"
  "sc_cpu1_running (mcxn_syscon_update_clocks s) = sc_cpu1_running s"
  unfolding syscon_update_unfold by (simp_all only: fold_clock_updates)

lemma syscon_update_extends: "clock_extends (sc_outs s) (sc_outs (mcxn_syscon_update_clocks s))"
  unfolding syscon_update_unfold by (rule fold_clock_updates)

lemma syscon_update_period:
  "c \<in> sys_clocks \<Longrightarrow> period (sc_outs (mcxn_syscon_update_clocks s)) c
     = CLOCK_PERIOD_FROM_HZ (of_nat (sdk_sys_hz (sc_regs s) (syscon_source_hz s) c))"
  unfolding syscon_update_unfold fold_clock_updates sys_clocks_list by simp

interpretation syscon: clock_source sc_outs mcxn_syscon_update_clocks
    "\<lambda>s c. of_nat (sdk_sys_hz (sc_regs s) (syscon_source_hz s) c)" sys_clocks
  by unfold_locales (simp_all add: syscon_update_extends syscon_update_period)

text \<open>
  As for the SCG, a write re-derives the clocks exactly when the register takes part in them; the
  second core's registers and the alias registers do not.
\<close>

definition syscon_clock_register :: "nat \<Rightarrow> bool" where
  "syscon_clock_register i \<longleftrightarrow>
     i \<in> {0x178, 0xBC, 0xED, 0xF9, 0x220, 0x221, 0x222, 0x223, 0xE0} \<or> i \<in> {0x9B..<0xA0} \<or> i \<in> {0xF4..<0xF9}"

lemma sdk_sys_other_register:
  assumes "\<not> syscon_clock_register i" and "c \<in> sys_clocks"
  shows "sdk_sys_hz (r(i := v)) hz c = sdk_sys_hz r hz c"
proof -
  have same: "(r(i := v)) j = r j" if "syscon_clock_register j" for j using that assms(1) by auto
  have div_regs: "syscon_clock_register (SYSCON_PLL1CLK0DIV div 4)" "syscon_clock_register (SYSCON_OSTIMERCLKSEL div 4)"
    "syscon_clock_register (SYSCON_SCTCLKSEL div 4)" "syscon_clock_register (SYSCON_SCTCLKDIV div 4)"
    "syscon_clock_register (SYSCON_AHBCLKDIV div 4)"
    "syscon_clock_register ((if b then SYSCON_SAI1CLKSEL else SYSCON_SAI0CLKSEL) div 4)"
    "syscon_clock_register ((if b then SYSCON_SAI1CLKDIV else SYSCON_SAI0CLKDIV) div 4)" for b
    by (auto simp: syscon_clock_register_def)
  have ct: "syscon_clock_register (SYSCON_CTIMERCLKSEL0 div 4 + n)"
    "syscon_clock_register (SYSCON_CTIMERCLKDIV0 div 4 + n)" if "n < 5" for n
    using that by (auto simp: syscon_clock_register_def)
  have pll: "sdk_pll1_div_hz (r(i := v)) hz = sdk_pll1_div_hz r hz"
    unfolding sdk_pll1_div_hz_def by (simp only: same div_regs)
  from assms(2) show ?thesis
    unfolding sys_clocks_def sdk_audio_hz_def
    by (auto simp only: sdk_sys_hz.simps same div_regs ct pll sdk_audio_hz_def Un_iff insert_iff empty_iff image_iff
        lessThan_iff)
qed

lemma syscon_alias_settled:
  assumes "syscon.settled s" and "in_range offset alias SYSCON_CTRL_COUNT"
    and "base = SYSCON_PRESETCTRL0 \<or> base = SYSCON_AHBCLKCTRL0"
  shows "syscon.settled (syscon_alias base alias offset f s)"
proof -
  have "(offset - alias) div 4 < 4" using assms(2) by (auto simp: in_range_def)
  then have "\<not> syscon_clock_register (base div 4 + (offset - alias) div 4)"
    using assms(3) by (auto simp: syscon_clock_register_def)
  then show ?thesis
    by (intro syscon.settled_cong [OF assms(1)]) (simp_all add: syscon_alias_def Let_def sdk_sys_other_register)
qed

lemma syscon_other_register:
  assumes "4 dvd offset" and "\<not> syscon_derives_clocks offset"
  shows "\<not> syscon_clock_register (offset div 4)"
proof -
  from assms(1) obtain k where k: "offset = 4 * k" by (rule dvdE)
  show ?thesis using assms(2) unfolding k
    by (auto simp: syscon_clock_register_def syscon_derives_clocks_def in_range_def)
qed

lemma syscon_cpu1_settled:
  assumes "syscon.settled s"
  shows "syscon.settled (mcxn_syscon_update_cpu1 (s\<lparr>sc_cpuctrl := v\<rparr>))"
    and "syscon.settled (s\<lparr>sc_cpboot := v\<rparr>)"
  by (rule syscon.settled_cong [OF assms];
      simp add: mcxn_syscon_update_cpu1_def Let_def split: option.split)+

lemma syscon_write_settled:
  assumes "syscon.settled s" and "4 dvd offset"
  shows "syscon.settled (mcxn_syscon_write s offset v)"
proof -
  have reg: "syscon.settled (s\<lparr>sc_regs := (sc_regs s)(offset div 4 := v)\<rparr>)" if "\<not> syscon_derives_clocks offset"
    using syscon_other_register [OF assms(2) that]
    by (intro syscon.settled_cong [OF assms(1)]) (simp_all add: sdk_sys_other_register)
  show ?thesis
    unfolding mcxn_syscon_write_def Let_def
    by (simp add: reg assms(1) syscon_alias_settled syscon_cpu1_settled syscon.update_settled)
qed

lemma syscon_reset_settled: "syscon.settled (mcxn_syscon_reset s)"
  by (simp add: mcxn_syscon_reset_def Let_def syscon.settled_def syscon_update_period)

lemma syscon_clock_in_settled: "syscon.settled s \<Longrightarrow> syscon.settled (syscon_clock_in c p s)"
  by (simp add: syscon_clock_in_def clock_propagate_to_def mcxn_syscon_src_changed_def syscon.update_settled)

lemma syscon_bh_keeps [simp]:
  "sc_regs (mcxn_syscon_start_cpu1_bh s) = sc_regs s" "sc_outs (mcxn_syscon_start_cpu1_bh s) = sc_outs s"
  "sc_in (mcxn_syscon_start_cpu1_bh s) = sc_in s" "sc_cpuctrl (mcxn_syscon_start_cpu1_bh s) = sc_cpuctrl s"
  "sc_cpboot (mcxn_syscon_start_cpu1_bh s) = sc_cpboot s" "sc_bh (mcxn_syscon_start_cpu1_bh s) = sc_bh s"
  by (simp_all add: mcxn_syscon_start_cpu1_bh_def Let_def split: option.split)

lemma syscon_bh_funpow [simp]:
  "sc_regs ((mcxn_syscon_start_cpu1_bh ^^ n) s) = sc_regs s" "sc_outs ((mcxn_syscon_start_cpu1_bh ^^ n) s) = sc_outs s"
  "sc_in ((mcxn_syscon_start_cpu1_bh ^^ n) s) = sc_in s" "sc_cpuctrl ((mcxn_syscon_start_cpu1_bh ^^ n) s) = sc_cpuctrl s"
  "sc_cpboot ((mcxn_syscon_start_cpu1_bh ^^ n) s) = sc_cpboot s" "sc_bh ((mcxn_syscon_start_cpu1_bh ^^ n) s) = sc_bh s"
  by (induction n) simp_all

lemma syscon_main_loop_keeps [simp]:
  "sc_regs (syscon_main_loop s) = sc_regs s" "sc_outs (syscon_main_loop s) = sc_outs s"
  "sc_in (syscon_main_loop s) = sc_in s" "sc_cpuctrl (syscon_main_loop s) = sc_cpuctrl s"
  "sc_cpboot (syscon_main_loop s) = sc_cpboot s" "sc_bh (syscon_main_loop s) = 0"
  by (simp_all add: syscon_main_loop_def)

lemma syscon_main_loop_settled: "syscon.settled s \<Longrightarrow> syscon.settled (syscon_main_loop s)"
  by (rule syscon.settled_cong) simp_all

section \<open>The second core\<close>

text \<open>
  What the two registers promise: the core runs exactly while its clock is enabled and its reset
  released, and each release boots it once from the vector table CPBOOT names at that moment.
\<close>

record cpu1_spec =
  spec_ctrl :: u32
  spec_boot :: u32
  spec_boots :: "u32 list"

definition cpu1_spec_write :: "nat \<Rightarrow> u32 \<Rightarrow> cpu1_spec \<Rightarrow> cpu1_spec" where
  "cpu1_spec_write offset v a =
     (if offset = SYSCON_CPUCTRL
      then a\<lparr>spec_ctrl := v,
             spec_boots := (if syscon_want_run v \<and> \<not> syscon_want_run (spec_ctrl a)
                            then spec_boots a @ [spec_boot a AND CPBOOT_ADDR_MASK] else spec_boots a)\<rparr>
      else if offset = SYSCON_CPBOOT then a\<lparr>spec_boot := v\<rparr>
      else a)"

definition cpu1_boots :: "ARMCPU \<Rightarrow> u32 list" where
  "cpu1_boots cpu = concat (map (\<lambda>c. case c of Cpu_reset a \<Rightarrow> [a] | Cpu_resume \<Rightarrow> []) (cpu_calls cpu))"

definition cpu1_consistent :: "ARMCPU \<Rightarrow> bool \<Rightarrow> bool" where
  "cpu1_consistent cpu run \<longleftrightarrow>
     cpu_halted cpu = (\<not> run)
     \<and> cpu_power_state cpu = (if run then PSCI_ON else PSCI_OFF)
     \<and> cpu_halt_reason cpu = (if run then NOT_HALTED else HALT_PSCI)"

definition cpu1_refines :: "MCXNSysconState \<Rightarrow> cpu1_spec \<Rightarrow> bool" where
  "cpu1_refines s a \<longleftrightarrow>
     (case sc_cpu1 s of
        None \<Rightarrow> False
      | Some cpu \<Rightarrow>
          let run = syscon_want_run (spec_ctrl a) in
          sc_cpuctrl s = spec_ctrl a \<and> sc_cpboot s = spec_boot a \<and> cpu1_boots cpu = spec_boots a
          \<and> sc_cpu1_running s = run \<and> cpu1_consistent cpu run \<and> sc_bh s = 0)"

definition syscon_write_then_loop :: "nat \<times> u32 \<Rightarrow> MCXNSysconState \<Rightarrow> MCXNSysconState" where
  "syscon_write_then_loop = (\<lambda>(offset, v) s. syscon_main_loop (mcxn_syscon_write s offset v))"

lemma syscon_write_other:
  assumes "offset \<noteq> SYSCON_CPUCTRL" and "offset \<noteq> SYSCON_CPBOOT"
  shows "sc_cpuctrl (mcxn_syscon_write s offset v) = sc_cpuctrl s"
    and "sc_cpboot (mcxn_syscon_write s offset v) = sc_cpboot s"
    and "sc_cpu1 (mcxn_syscon_write s offset v) = sc_cpu1 s"
    and "sc_cpu1_running (mcxn_syscon_write s offset v) = sc_cpu1_running s"
    and "sc_bh (mcxn_syscon_write s offset v) = sc_bh s"
  using assms by (simp_all add: mcxn_syscon_write_def syscon_alias_def Let_def)

lemma cpu1_step_refines:
  assumes "cpu1_refines s a"
  shows "cpu1_refines (syscon_write_then_loop (offset, v) s) (cpu1_spec_write offset v a)"
proof -
  from assms obtain cpu where cpu: "sc_cpu1 s = Some cpu" by (auto simp: cpu1_refines_def split: option.splits)
  consider "offset = SYSCON_CPUCTRL" | "offset = SYSCON_CPBOOT"
    | "offset \<noteq> SYSCON_CPUCTRL" "offset \<noteq> SYSCON_CPBOOT" by blast
  then show ?thesis
  proof cases
    case 1
    then show ?thesis using assms cpu
      by (simp add: cpu1_refines_def syscon_write_then_loop_def mcxn_syscon_write_def in_range_def
          mcxn_syscon_update_cpu1_def syscon_main_loop_def Let_def mcxn_syscon_start_cpu1_bh_def
          cpu1_spec_write_def cpu1_boots_def cpu_record_def mcxn_syscon_set_cpu1_run_def
          cpu1_consistent_def)
  next
    case 2
    then show ?thesis using assms cpu
      by (simp add: cpu1_refines_def syscon_write_then_loop_def mcxn_syscon_write_def in_range_def
          syscon_main_loop_def cpu1_spec_write_def Let_def)
  next
    case 3
    then show ?thesis using assms cpu
      by (simp add: cpu1_refines_def syscon_write_then_loop_def syscon_write_other
          syscon_main_loop_def cpu1_spec_write_def Let_def)
  qed
qed


text \<open>SYSCON out of reset with the second core wired and off.\<close>

definition syscon_example :: MCXNSysconState where
  "syscon_example =
     \<lparr>sc_regs = \<lambda>_. 0, sc_outs = \<lparr>period = \<lambda>_. 0, propagated = []\<rparr>, sc_in = \<lambda>_. 0,
      sc_cpuctrl = 0x28, sc_cpboot = 0, sc_cpu1_running = False,
      sc_cpu1 = Some \<lparr>cpu_init_svtor = 0, cpu_halted = True, cpu_power_state = PSCI_OFF,
                      cpu_halt_reason = HALT_PSCI, cpu_calls = []\<rparr>, sc_bh = 0\<rparr>"

lemma syscon_example_refines:
  "cpu1_refines syscon_example \<lparr>spec_ctrl = 0x28, spec_boot = 0, spec_boots = []\<rparr>"
  by (simp add: cpu1_refines_def syscon_example_def cpu1_boots_def syscon_want_run_def cpu1_consistent_def
      bit_simps Let_def)


text \<open>
  C31: Without a turn of the main loop in between, the two registers lie: a store that releases the
  second core followed by a store that puts it back in reset leaves the bottom half of the first
  store scheduled, and when the main loop runs it the core boots and is reported running while
  CPUCTRL still holds it.
\<close>

theorem syscon_held_core_starts:
  assumes "sc_cpu1 s = Some cpu" and "\<not> sc_cpu1_running s"
    and "syscon_want_run v" and "\<not> syscon_want_run w" and "sc_bh s = 0"
  shows "let s' = syscon_main_loop (mcxn_syscon_write (mcxn_syscon_write s SYSCON_CPUCTRL v) SYSCON_CPUCTRL w) in
         \<not> syscon_want_run (mcxn_syscon_read s' SYSCON_CPUCTRL) \<and> mcxn_syscon_read s' SYSCON_CPSTAT = 0
         \<and> (\<exists>cpu'. sc_cpu1 s' = Some cpu' \<and> cpu1_consistent cpu' True
                 \<and> cpu1_boots cpu' = cpu1_boots cpu @ [sc_cpboot s AND CPBOOT_ADDR_MASK])"
  using assms
  by (simp add: mcxn_syscon_write_def in_range_def mcxn_syscon_update_cpu1_def syscon_main_loop_def
      mcxn_syscon_start_cpu1_bh_def mcxn_syscon_read_def Let_def cpu1_consistent_def cpu1_boots_def
      cpu_record_def mcxn_syscon_set_cpu1_run_def)

theorem syscon_held_core_starts_witness:
  "mcxn_syscon_read (syscon_main_loop
      (mcxn_syscon_write (mcxn_syscon_write syscon_example SYSCON_CPUCTRL 8) SYSCON_CPUCTRL 0x28)) SYSCON_CPSTAT = 0"
  using syscon_held_core_starts [of syscon_example _ 8 "0x28"]
  by (simp add: syscon_example_def syscon_want_run_def bit_simps Let_def)

end
