(* ===== verification/Mcxn_Ctimer.thy ===== *)
theory Mcxn_Ctimer
  imports Mcxn_Interfaces
begin

unbundle bit_operations_syntax

text \<open>
  The standard counter/timer (\<^verbatim>\<open>hw/timer/mcxn_ctimer.c\<close>): a 32-bit counter behind a prescaler, four match
  registers with their interrupt, reset and stop actions, the DMA request and trigger pulses of
  a match, and the capture input.  The counter is computed from the time since it was last synced;
  one QEMU timer is armed for the soonest match that has an action.
\<close>

section \<open>Model\<close>

datatype ctimer_line = Ctimer_irq | Ctimer_dma_req nat | Ctimer_match_trig nat

record MCXNCTimerState =
  ct_lines :: "ctimer_line irq_log"
  ct_timer :: "int option"
  ct_clk :: "u32 option"
  ct_ir :: u32
  ct_tcr :: u32
  ct_pr :: u32
  ct_mcr :: u32
  ct_mr :: "nat \<Rightarrow> u32"
  ct_ccr :: u32
  ct_emr :: u32
  ct_ctcr :: u32
  ct_pwmc :: u32
  ct_cr :: "nat \<Rightarrow> u32"
  ct_msr :: "nat \<Rightarrow> u32"
  ct_tc :: u32
  ct_pc :: u32
  ct_base_ns :: int
  cap0_level :: bool

abbreviation (input) CTIMER_IR :: nat where "CTIMER_IR \<equiv> 0x00"
abbreviation (input) CTIMER_TCR :: nat where "CTIMER_TCR \<equiv> 0x04"
abbreviation (input) CTIMER_TC :: nat where "CTIMER_TC \<equiv> 0x08"
abbreviation (input) CTIMER_PR :: nat where "CTIMER_PR \<equiv> 0x0C"
abbreviation (input) CTIMER_PC :: nat where "CTIMER_PC \<equiv> 0x10"
abbreviation (input) CTIMER_MCR :: nat where "CTIMER_MCR \<equiv> 0x14"
abbreviation (input) CTIMER_MR0 :: nat where "CTIMER_MR0 \<equiv> 0x18"
abbreviation (input) CTIMER_CCR :: nat where "CTIMER_CCR \<equiv> 0x28"
abbreviation (input) CTIMER_CR0 :: nat where "CTIMER_CR0 \<equiv> 0x2C"
abbreviation (input) CTIMER_EMR :: nat where "CTIMER_EMR \<equiv> 0x3C"
abbreviation (input) CTIMER_CTCR :: nat where "CTIMER_CTCR \<equiv> 0x70"
abbreviation (input) CTIMER_PWMC :: nat where "CTIMER_PWMC \<equiv> 0x74"
abbreviation (input) CTIMER_MSR0 :: nat where "CTIMER_MSR0 \<equiv> 0x78"

abbreviation (input) TCR_CEN :: u32 where "TCR_CEN \<equiv> flag 0"
abbreviation (input) TCR_CRST :: u32 where "TCR_CRST \<equiv> flag 1"
abbreviation (input) MCR_INT :: "nat \<Rightarrow> u32" where "MCR_INT n \<equiv> flag (3 * n + 0)"
abbreviation (input) MCR_RST :: "nat \<Rightarrow> u32" where "MCR_RST n \<equiv> flag (3 * n + 1)"
abbreviation (input) MCR_STOP :: "nat \<Rightarrow> u32" where "MCR_STOP n \<equiv> flag (3 * n + 2)"
definition MCR_ANY :: "nat \<Rightarrow> u32" where "MCR_ANY n = MCR_INT n OR MCR_RST n OR MCR_STOP n"
abbreviation (input) CCR_CAP0RE :: u32 where "CCR_CAP0RE \<equiv> flag 0"
abbreviation (input) CCR_CAP0FE :: u32 where "CCR_CAP0FE \<equiv> flag 1"
abbreviation (input) CCR_CAP0I :: u32 where "CCR_CAP0I \<equiv> flag 2"
abbreviation (input) IR_CR0INT :: u32 where "IR_CR0INT \<equiv> flag 4"

definition ctimer_running :: "MCXNCTimerState \<Rightarrow> bool" where
  "ctimer_running s \<longleftrightarrow> tst (ct_tcr s) TCR_CEN \<and> \<not> tst (ct_tcr s) TCR_CRST"

definition ctimer_freq :: "MCXNCTimerState \<Rightarrow> u32" where
  "ctimer_freq s = (case ct_clk s of Some hz \<Rightarrow> hz | None \<Rightarrow> 0)"

definition ctimer_peek :: "MCXNCTimerState \<Rightarrow> int \<Rightarrow> (u32 \<times> u32) result" where
  "ctimer_peek s now =
     (if \<not> ctimer_running s \<or> now \<le> ct_base_ns s then Inr (ct_tc s, ct_pc s)
      else let dv = ucast (ct_pr s + 1) :: u64;
               elapsed = word_of_int (now - ct_base_ns s) :: u64;
               pclk = (elapsed * ucast (ctimer_freq s)) div 1000000000;
               total = ucast (ct_pc s) + pclk
           in case checked_div total dv of
                Inl e \<Rightarrow> Inl e
              | Inr q \<Rightarrow> Inr (ct_tc s + ucast q, ucast (total mod dv)))"

definition ctimer_sync :: "MCXNCTimerState \<Rightarrow> int \<Rightarrow> MCXNCTimerState result" where
  "ctimer_sync s now =
     (case ctimer_peek s now of
        Inl e \<Rightarrow> Inl e
      | Inr (tc, pc) \<Rightarrow> Inr (s\<lparr>ct_tc := tc, ct_pc := pc, ct_base_ns := now\<rparr>))"

definition ctimer_update_irq :: "MCXNCTimerState \<Rightarrow> MCXNCTimerState" where
  "ctimer_update_irq s = s\<lparr>ct_lines := qemu_set_irq Ctimer_irq (ct_ir s \<noteq> 0) (ct_lines s)\<rparr>"

text \<open>The distance from the counter to a match value, which both loops over the matches compute.\<close>

definition ctimer_dtc :: "MCXNCTimerState \<Rightarrow> nat \<Rightarrow> u64" where
  "ctimer_dtc s n =
     (if ct_mr s n \<ge> ct_tc s then ucast (ct_mr s n - ct_tc s)
      else push_bit 32 1 - ucast (ct_tc s) + ucast (ct_mr s n))"

text \<open>The loop of \<^verbatim>\<open>ctimer_reschedule\<close> over the matches, keeping the nearest in nanoseconds.\<close>

fun ctimer_best :: "MCXNCTimerState \<Rightarrow> nat list \<Rightarrow> u64 \<Rightarrow> u64 result" where
  "ctimer_best s [] best = Inr best"
| "ctimer_best s (n # ns) best =
     (if \<not> tst (ct_mcr s) (MCR_ANY n) then ctimer_best s ns best
      else let clocks = ctimer_dtc s n * ucast (ct_pr s + 1);
               clocks = (if clocks > ucast (ct_pc s) then clocks - ucast (ct_pc s) else 1)
           in case checked_div (clocks * 1000000000) (ucast (ctimer_freq s)) of
                Inl e \<Rightarrow> Inl e
              | Inr d \<Rightarrow> ctimer_best s ns (if d < best then d else best))"

definition ctimer_reschedule :: "MCXNCTimerState \<Rightarrow> int \<Rightarrow> MCXNCTimerState result" where
  "ctimer_reschedule s now =
     (let s = s\<lparr>ct_timer := None\<rparr>
      in if \<not> ctimer_running s then Inr s
         else case ctimer_best s [0..<4] (NOT 0) of
             Inl e \<Rightarrow> Inl e
           | Inr best \<Rightarrow>
               Inr (if best \<noteq> NOT 0 then s\<lparr>ct_timer := Some (now + sint (if best \<noteq> 0 then best else 1))\<rparr> else s))"

text \<open>The loop of \<^verbatim>\<open>ctimer_tick\<close> that picks the soonest match, and its loop over the matches at that value.\<close>

definition ctimer_fire :: "MCXNCTimerState \<Rightarrow> nat option" where
  "ctimer_fire s =
     snd (fold (\<lambda>n (best, fire). if \<not> tst (ct_mcr s) (MCR_ANY n) then (best, fire)
                                else if ctimer_dtc s n < best then (ctimer_dtc s n, Some n) else (best, fire))
            [0..<4] (NOT 0, None))"

definition ctimer_match :: "nat \<Rightarrow> MCXNCTimerState \<times> bool \<Rightarrow> MCXNCTimerState \<times> bool" where
  "ctimer_match n = (\<lambda>(s, do_reset).
     if tst (ct_mcr s) (MCR_ANY n) \<and> ct_mr s n = ct_tc s then
       let s = (if tst (ct_mcr s) (MCR_INT n) then s\<lparr>ct_ir := ct_ir s OR flag n\<rparr> else s);
           s = (if tst (ct_mcr s) (MCR_STOP n) then s\<lparr>ct_tcr := ct_tcr s AND NOT TCR_CEN\<rparr> else s);
           do_reset = (if tst (ct_mcr s) (MCR_RST n) then True else do_reset);
           s = (if n < 2 then s\<lparr>ct_lines := qemu_irq_pulse (Ctimer_dma_req n) (ct_lines s)\<rparr> else s);
           s = s\<lparr>ct_lines := qemu_irq_pulse (Ctimer_match_trig n) (ct_lines s)\<rparr>
       in (s, do_reset)
     else (s, do_reset))"

definition ctimer_tick :: "MCXNCTimerState \<Rightarrow> int \<Rightarrow> MCXNCTimerState result" where
  "ctimer_tick s now =
     (case ctimer_sync s now of
        Inl e \<Rightarrow> Inl e
      | Inr s \<Rightarrow>
          let s = (case ctimer_fire s of
                     None \<Rightarrow> s
                   | Some f \<Rightarrow>
                       let s = s\<lparr>ct_tc := ct_mr s f, ct_pc := 0\<rparr>;
                           (s, do_reset) = fold ctimer_match [0..<4] (s, False);
                           s = (if do_reset then s\<lparr>ct_tc := 0, ct_pc := 0\<rparr> else s)
                       in s\<lparr>ct_base_ns := now\<rparr>)
          in ctimer_reschedule (ctimer_update_irq s) now)"

definition ctimer_capture0 :: "MCXNCTimerState \<Rightarrow> int \<Rightarrow> bool \<Rightarrow> MCXNCTimerState result" where
  "ctimer_capture0 s now level =
     (let rising = level \<and> \<not> cap0_level s;
          falling = \<not> level \<and> cap0_level s;
          s = s\<lparr>cap0_level := level\<rparr>
      in if rising \<and> tst (ct_ccr s) CCR_CAP0RE \<or> falling \<and> tst (ct_ccr s) CCR_CAP0FE then
           (case ctimer_peek s now of
              Inl e \<Rightarrow> Inl e
            | Inr (tc, pc) \<Rightarrow>
                let s = s\<lparr>ct_cr := (ct_cr s)(0 := tc)\<rparr>
                in Inr (if tst (ct_ccr s) CCR_CAP0I then ctimer_update_irq (s\<lparr>ct_ir := ct_ir s OR IR_CR0INT\<rparr>) else s))
         else Inr s)"

definition ctimer_get_capture :: "MCXNCTimerState \<Rightarrow> bool" where
  "ctimer_get_capture s = cap0_level s"

text \<open>The \<open>i\<close>-th of four consecutive registers from \<open>base\<close>.\<close>

definition in_bank :: "nat \<Rightarrow> nat \<Rightarrow> bool" where
  "in_bank base off \<longleftrightarrow> off \<in> {base, base + 4, base + 8, base + 12}"

definition ctimer_read :: "MCXNCTimerState \<Rightarrow> int \<Rightarrow> nat \<Rightarrow> u64 result" where
  "ctimer_read s now off =
     (if off = CTIMER_IR then Inr (ucast (ct_ir s))
      else if off = CTIMER_TCR then Inr (ucast (ct_tcr s))
      else if off = CTIMER_TC then (case ctimer_peek s now of Inl e \<Rightarrow> Inl e | Inr (tc, pc) \<Rightarrow> Inr (ucast tc))
      else if off = CTIMER_PR then Inr (ucast (ct_pr s))
      else if off = CTIMER_PC then (case ctimer_peek s now of Inl e \<Rightarrow> Inl e | Inr (tc, pc) \<Rightarrow> Inr (ucast pc))
      else if off = CTIMER_MCR then Inr (ucast (ct_mcr s))
      else if in_bank CTIMER_MR0 off then Inr (ucast (ct_mr s ((off - CTIMER_MR0) div 4)))
      else if off = CTIMER_CCR then Inr (ucast (ct_ccr s))
      else if in_bank CTIMER_CR0 off then Inr (ucast (ct_cr s ((off - CTIMER_CR0) div 4)))
      else if off = CTIMER_EMR then Inr (ucast (ct_emr s))
      else if off = CTIMER_CTCR then Inr (ucast (ct_ctcr s))
      else if off = CTIMER_PWMC then Inr (ucast (ct_pwmc s))
      else if in_bank CTIMER_MSR0 off then Inr (ucast (ct_msr s ((off - CTIMER_MSR0) div 4)))
      else Inr 0)"

text \<open>The register writes that first sync the counter and then re-arm the timer.\<close>

definition ctimer_synced :: "MCXNCTimerState \<Rightarrow> int \<Rightarrow> (MCXNCTimerState \<Rightarrow> MCXNCTimerState) \<Rightarrow> MCXNCTimerState result" where
  "ctimer_synced s now f =
     (case ctimer_sync s now of Inl e \<Rightarrow> Inl e | Inr s \<Rightarrow> ctimer_reschedule (f s) now)"

definition ctimer_write :: "MCXNCTimerState \<Rightarrow> int \<Rightarrow> nat \<Rightarrow> u64 \<Rightarrow> MCXNCTimerState result" where
  "ctimer_write s now off val =
     (let v = ucast val :: u32 in
      if off = CTIMER_IR then Inr (ctimer_update_irq (s\<lparr>ct_ir := ct_ir s AND NOT v\<rparr>))
      else if off = CTIMER_TCR then
        ctimer_synced s now (\<lambda>s. let s = s\<lparr>ct_tcr := v AND 0xFF\<rparr>
          in if tst (ct_tcr s) TCR_CRST then s\<lparr>ct_tc := 0, ct_pc := 0\<rparr> else s)
      else if off = CTIMER_TC then ctimer_synced s now (\<lambda>s. s\<lparr>ct_tc := v\<rparr>)
      else if off = CTIMER_PR then ctimer_synced s now (\<lambda>s. s\<lparr>ct_pr := v\<rparr>)
      else if off = CTIMER_PC then ctimer_synced s now (\<lambda>s. s\<lparr>ct_pc := v\<rparr>)
      else if off = CTIMER_MCR then ctimer_synced s now (\<lambda>s. s\<lparr>ct_mcr := v\<rparr>)
      else if in_bank CTIMER_MR0 off then
        ctimer_synced s now (\<lambda>s. s\<lparr>ct_mr := (ct_mr s)((off - CTIMER_MR0) div 4 := v)\<rparr>)
      else if off = CTIMER_CCR then Inr (s\<lparr>ct_ccr := v\<rparr>)
      else if in_bank CTIMER_CR0 off then Inr s
      else if off = CTIMER_EMR then Inr (s\<lparr>ct_emr := v\<rparr>)
      else if off = CTIMER_CTCR then Inr (s\<lparr>ct_ctcr := v\<rparr>)
      else if off = CTIMER_PWMC then Inr (s\<lparr>ct_pwmc := v\<rparr>)
      else if in_bank CTIMER_MSR0 off then Inr (s\<lparr>ct_msr := (ct_msr s)((off - CTIMER_MSR0) div 4 := v)\<rparr>)
      else Inr s)"

definition mcxn_ctimer_reset :: "MCXNCTimerState \<Rightarrow> MCXNCTimerState" where
  "mcxn_ctimer_reset s =
     s\<lparr>ct_timer := None, ct_ir := 0, ct_tcr := 0, ct_pr := 0, ct_mcr := 0,
       ct_ccr := 0, ct_emr := 0, ct_ctcr := 0, ct_pwmc := 0,
       ct_mr := (\<lambda>n. if n < 4 then 0 else ct_mr s n), ct_cr := (\<lambda>n. if n < 4 then 0 else ct_cr s n),
       ct_msr := (\<lambda>n. if n < 4 then 0 else ct_msr s n),
       ct_tc := 0, ct_pc := 0, ct_base_ns := 0, cap0_level := False\<rparr>"

definition mcxn_ctimer_post_load :: "MCXNCTimerState \<Rightarrow> MCXNCTimerState" where
  "mcxn_ctimer_post_load s = ctimer_update_irq s"

section \<open>Distances and deadlines\<close>

definition ctimer_active :: "MCXNCTimerState \<Rightarrow> nat \<Rightarrow> bool" where
  "ctimer_active s n \<longleftrightarrow> n < 4 \<and> tst (ct_mcr s) (MCR_ANY n)"

text \<open>The distance is the 32-bit difference, whichever branch computes it.\<close>

lemma ctimer_dtc_eq: "ctimer_dtc s n = ucast (ct_mr s n - ct_tc s)"
proof (cases "ct_mr s n \<ge> ct_tc s")
  case True
  then show ?thesis by (simp add: ctimer_dtc_def)
next
  case False
  then have "unat (ct_mr s n) < unat (ct_tc s)" by (simp add: word_less_nat_alt not_le)
  moreover have "unat (ct_tc s) < 2 ^ 32" by (rule u32_less)
  moreover have "unat (2 ^ 32 - ucast (ct_tc s) + ucast (ct_mr s n) :: u64) = 2 ^ 32 - unat (ct_tc s) + unat (ct_mr s n)"
    using calculation by (simp add: unat_word_ariths(1) unat_sub word_le_nat_alt unsigned_ucast_eq take_bit_eq_mod)
  ultimately show ?thesis
    by (intro word_unat_eq_iff [THEN iffD2])
      (simp add: ctimer_dtc_def False unat_sub_if' unsigned_ucast_eq take_bit_eq_mod word_le_nat_alt push_bit_eq_mult)
qed

abbreviation ctimer_dist :: "MCXNCTimerState \<Rightarrow> nat \<Rightarrow> nat" where
  "ctimer_dist s n \<equiv> unat (ct_mr s n - ct_tc s)"

lemma unat_dtc [simp]: "unat (ctimer_dtc s n) = ctimer_dist s n"
proof -
  have "ctimer_dist s n < 2 ^ 32" by (rule u32_less)
  then show ?thesis by (simp add: ctimer_dtc_eq unsigned_ucast_eq take_bit_eq_mod)
qed

lemma ctimer_dtc_less: "ctimer_dtc s m < ctimer_dtc s n \<longleftrightarrow> ctimer_dist s m < ctimer_dist s n"
  by (simp add: word_less_nat_alt)

lemma ctimer_dtc_not_max: "ctimer_dtc s n < NOT 0"
proof -
  have "ctimer_dist s n < 2 ^ 32" by (rule u32_less)
  moreover have "unat (NOT 0 :: u64) = 2 ^ 64 - 1" by (simp add: unsigned_minus_1_eq_mask mask_eq_exp_minus_1)
  ultimately show ?thesis by (simp add: word_less_nat_alt)
qed

text \<open>The match that fires is an active one nearest to the counter.\<close>

lemma fold_nearest:
  fixes d :: "nat \<Rightarrow> u64" and A :: "nat \<Rightarrow> bool"
  defines "step \<equiv> \<lambda>n (best, fire). if \<not> A n then (best, fire)
                     else if d n < best then (d n, Some n) else (best, fire)"
  shows "fold step ns (b, f) = (b', f') \<Longrightarrow>
     b' \<le> b \<and> (\<forall>n \<in> set ns. A n \<longrightarrow> b' \<le> d n) \<and> (b' = b \<and> f' = f \<or> (\<exists>n \<in> set ns. A n \<and> f' = Some n \<and> b' = d n))"
proof (induction ns arbitrary: b f)
  case Nil
  then show ?case by simp
next
  case (Cons n ns)
  show ?case
  proof (cases "A n \<and> d n < b")
    case True
    with Cons.prems have "fold step ns (d n, Some n) = (b', f')" by (simp add: step_def)
    from Cons.IH [OF this] True show ?thesis by (auto intro: order.strict_implies_order order.trans)
  next
    case False
    with Cons.prems have "fold step ns (b, f) = (b', f')" by (auto simp add: step_def split: if_splits)
    from Cons.IH [OF this] False show ?thesis by (auto simp: not_less intro: order.trans)
  qed
qed

lemma ctimer_fire_nearest:
  assumes "ctimer_active s n"
  obtains f where "ctimer_fire s = Some f" and "ctimer_active s f"
    and "\<And>m. ctimer_active s m \<Longrightarrow> ctimer_dist s f \<le> ctimer_dist s m"
proof -
  let ?step = "\<lambda>n (best, fire). if \<not> tst (ct_mcr s) (MCR_ANY n) then (best, fire)
                else if ctimer_dtc s n < best then (ctimer_dtc s n, Some n) else (best, fire)"
  obtain b f where f: "fold ?step [0..<4] (NOT 0, None) = (b, f)" by (rule prod.exhaust)
  note near = fold_nearest [where A = "\<lambda>n. tst (ct_mcr s) (MCR_ANY n)" and d = "ctimer_dtc s", OF f]
  have "b \<le> ctimer_dtc s n" using near assms by (simp add: ctimer_active_def)
  with ctimer_dtc_not_max [of s n] have "b \<noteq> NOT 0" by auto
  with near obtain m where m: "m < 4" "tst (ct_mcr s) (MCR_ANY m)" "f = Some m" "b = ctimer_dtc s m" by auto
  show thesis
  proof (rule that [of m])
    show "ctimer_fire s = Some m" using f m(3) by (simp add: ctimer_fire_def)
    show "ctimer_active s m" using m by (simp add: ctimer_active_def)
    show "ctimer_dist s m \<le> ctimer_dist s k" if "ctimer_active s k" for k
      using near that m(4) by (simp add: ctimer_active_def word_le_nat_alt)
  qed
qed

text \<open>The time to a match in nanoseconds, and the nearest of them.\<close>

definition ctimer_expiry :: "MCXNCTimerState \<Rightarrow> nat \<Rightarrow> u64" where
  "ctimer_expiry s n =
     (let clocks = ctimer_dtc s n * ucast (ct_pr s + 1);
          clocks = (if clocks > ucast (ct_pc s) then clocks - ucast (ct_pc s) else 1)
      in clocks * 1000000000 div ucast (ctimer_freq s))"

lemma ctimer_freq_up [simp]: "(ucast (ctimer_freq s) :: u64) = 0 \<longleftrightarrow> ctimer_freq s = 0"
  by (simp add: ucast_eq_0_up)

lemma ctimer_best_least:
  assumes "ctimer_freq s \<noteq> 0"
  shows "\<exists>b'. ctimer_best s ns b = Inr b' \<and> b' \<le> b
     \<and> (\<forall>n \<in> set ns. tst (ct_mcr s) (MCR_ANY n) \<longrightarrow> b' \<le> ctimer_expiry s n)
     \<and> (b' = b \<or> (\<exists>n \<in> set ns. tst (ct_mcr s) (MCR_ANY n) \<and> b' = ctimer_expiry s n))"
proof (induction ns arbitrary: b)
  case Nil
  then show ?case by simp
next
  case (Cons n ns)
  show ?case
  proof (cases "tst (ct_mcr s) (MCR_ANY n)")
    case True
    let ?b = "if ctimer_expiry s n < b then ctimer_expiry s n else b"
    have "ctimer_best s (n # ns) b = ctimer_best s ns ?b"
      using True assms by (simp add: ctimer_expiry_def Let_def)
    moreover obtain b' where b': "ctimer_best s ns ?b = Inr b'" "b' \<le> ?b"
       "\<forall>n \<in> set ns. tst (ct_mcr s) (MCR_ANY n) \<longrightarrow> b' \<le> ctimer_expiry s n"
       "b' = ?b \<or> (\<exists>n \<in> set ns. tst (ct_mcr s) (MCR_ANY n) \<and> b' = ctimer_expiry s n)"
      using Cons.IH by blast
    moreover have "b' \<le> b" "b' \<le> ctimer_expiry s n" using b'(2) by (auto split: if_splits intro: order.trans)
    ultimately show ?thesis using True by (intro exI [of _ b']) (auto split: if_splits)
  next
    case False
    with Cons.IH show ?thesis by simp
  qed
qed

text \<open>Every division of the model: what fails, and when.\<close>

lemma ctimer_best_fails:
  assumes "ctimer_freq s = 0"
  shows "ctimer_best s ns b = (if \<exists>n \<in> set ns. tst (ct_mcr s) (MCR_ANY n) then Inl Div_by_zero else Inr b)"
  using assms by (induction ns) (simp_all add: Let_def)

lemma ctimer_timer_upd [simp]:
  "ctimer_running (s\<lparr>ct_timer := d\<rparr>) = ctimer_running s" "ctimer_freq (s\<lparr>ct_timer := d\<rparr>) = ctimer_freq s"
  "ctimer_dtc (s\<lparr>ct_timer := d\<rparr>) = ctimer_dtc s"
  "ctimer_expiry (s\<lparr>ct_timer := d\<rparr>) = ctimer_expiry s" "ctimer_active (s\<lparr>ct_timer := d\<rparr>) = ctimer_active s"
  by (simp_all add: ctimer_running_def ctimer_freq_def ctimer_dtc_def ctimer_expiry_def ctimer_active_def fun_eq_iff
      cong: if_cong)

lemma ctimer_reschedule_fails_iff:
  "ctimer_reschedule s now = Inl e \<longleftrightarrow>
     e = Div_by_zero \<and> ctimer_running s \<and> ctimer_freq s = 0 \<and> (\<exists>n. ctimer_active s n)"
proof (cases "ctimer_freq s = 0")
  case True
  then show ?thesis
    by (auto simp: ctimer_reschedule_def Let_def ctimer_best_fails ctimer_active_def)
next
  case False
  then obtain b where "ctimer_best (s\<lparr>ct_timer := None\<rparr>) [0..<4] (NOT 0) = Inr b"
    using ctimer_best_least [of "s\<lparr>ct_timer := None\<rparr>" "[0..<4]" "NOT 0"] by auto
  then show ?thesis using False by (simp add: ctimer_reschedule_def Let_def)
qed

lemma pr_wraps: "(ucast (p + 1) :: u64) = 0 \<longleftrightarrow> p = NOT 0" for p :: u32
  by (simp add: ucast_eq_0_up eq_neg_iff_add_eq_0)

lemma ctimer_peek_fails_iff:
  "ctimer_peek s now = Inl e \<longleftrightarrow>
     e = Div_by_zero \<and> ctimer_running s \<and> ct_base_ns s < now \<and> ct_pr s = NOT 0"
  using pr_wraps [of "ct_pr s"] by (auto simp: ctimer_peek_def Let_def checked_div_def not_le)

section \<open>A match\<close>

text \<open>The matches that sit at the value of the counter, and the calls each of them makes.\<close>

definition ctimer_hit :: "MCXNCTimerState \<Rightarrow> nat \<Rightarrow> bool" where
  "ctimer_hit s n \<longleftrightarrow> ctimer_active s n \<and> ct_mr s n = ct_tc s"

definition ctimer_calls :: "nat \<Rightarrow> ctimer_line irq_log" where
  "ctimer_calls n = (if n < 2 then [(Ctimer_dma_req n, True), (Ctimer_dma_req n, False)] else [])
     @ [(Ctimer_match_trig n, True), (Ctimer_match_trig n, False)]"

definition ctimer_flags :: "MCXNCTimerState \<Rightarrow> nat list \<Rightarrow> u32" where
  "ctimer_flags s ns = fold (\<lambda>n v. if ctimer_hit s n \<and> tst (ct_mcr s) (MCR_INT n) then v OR flag n else v) ns (ct_ir s)"

lemma fold_ctimer_match:
  assumes "\<forall>n \<in> set ns. n < 4"
  shows "fold ctimer_match ns (s, r) =
     (s\<lparr>ct_ir := ctimer_flags s ns,
        ct_tcr := (if \<exists>n \<in> set ns. ctimer_hit s n \<and> tst (ct_mcr s) (MCR_STOP n) then ct_tcr s AND NOT TCR_CEN
                   else ct_tcr s),
        ct_lines := ct_lines s @ concat (map (\<lambda>n. if ctimer_hit s n then ctimer_calls n else []) ns)\<rparr>,
      r \<or> (\<exists>n \<in> set ns. ctimer_hit s n \<and> tst (ct_mcr s) (MCR_RST n)))"
  using assms
proof (induction ns arbitrary: s r)
  case Nil
  then show ?case by (simp add: ctimer_flags_def)
next
  case (Cons n ns)
  define s' where "s' = fst (ctimer_match n (s, r))"
  have hit: "ctimer_hit s' = ctimer_hit s" "ct_mcr s' = ct_mcr s"
    by (simp_all add: s'_def ctimer_match_def ctimer_hit_def ctimer_active_def Let_def fun_eq_iff)
  have match: "ctimer_match n (s, r) = (s', r \<or> ctimer_hit s n \<and> tst (ct_mcr s) (MCR_RST n))"
    using Cons.prems by (auto simp: s'_def ctimer_match_def ctimer_hit_def ctimer_active_def Let_def)
  have s': "s' = s\<lparr>ct_ir := (if ctimer_hit s n \<and> tst (ct_mcr s) (MCR_INT n) then ct_ir s OR flag n else ct_ir s),
     ct_tcr := (if ctimer_hit s n \<and> tst (ct_mcr s) (MCR_STOP n) then ct_tcr s AND NOT TCR_CEN else ct_tcr s),
     ct_lines := ct_lines s @ (if ctimer_hit s n then ctimer_calls n else [])\<rparr>"
    using Cons.prems by (simp add: s'_def ctimer_match_def ctimer_hit_def ctimer_active_def Let_def
        ctimer_calls_def qemu_irq_pulse_def qemu_set_irq_def)
  have flags: "ctimer_flags s' ns = ctimer_flags s (n # ns)"
    by (simp add: ctimer_flags_def hit) (simp add: s')
  show ?case
    using Cons.prems Cons.IH [of s' "r \<or> ctimer_hit s n \<and> tst (ct_mcr s) (MCR_RST n)"]
    by (simp add: match hit flags del: tst_flag) (auto simp: s' simp del: tst_flag)
qed

lemma bit_ctimer_flags:
  "bit (ctimer_flags s ns) k \<longleftrightarrow>
     bit (ct_ir s) k \<or> k \<in> set ns \<and> ctimer_hit s k \<and> tst (ct_mcr s) (MCR_INT k) \<and> k < 32"
proof -
  have "bit (fold (\<lambda>n v. if P n then v OR flag n else v) ns v) k \<longleftrightarrow> bit v k \<or> k \<in> set ns \<and> P k \<and> k < 32"
    for P :: "nat \<Rightarrow> bool" and v :: u32
    by (induction ns arbitrary: v) auto
  then show ?thesis by (simp add: ctimer_flags_def)
qed

text \<open>The state a match leaves behind, and that a tick is one.\<close>

definition ctimer_matched :: "MCXNCTimerState \<Rightarrow> nat \<Rightarrow> int \<Rightarrow> MCXNCTimerState" where
  "ctimer_matched s f now =
     (let s = s\<lparr>ct_tc := ct_mr s f\<rparr>; hits = filter (ctimer_hit s) [0..<4]; ir = ctimer_flags s [0..<4]
      in s\<lparr>ct_ir := ir,
           ct_tcr := (if \<exists>n \<in> set hits. tst (ct_mcr s) (MCR_STOP n) then ct_tcr s AND NOT TCR_CEN else ct_tcr s),
           ct_lines := ct_lines s @ concat (map ctimer_calls hits) @ [(Ctimer_irq, ir \<noteq> 0)],
           ct_tc := (if \<exists>n \<in> set hits. tst (ct_mcr s) (MCR_RST n) then 0 else ct_mr s f),
           ct_pc := 0, ct_base_ns := now\<rparr>)"

lemma concat_map_if: "concat (map (\<lambda>n. if P n then g n else []) ns) = concat (map g (filter P ns))"
  by (induction ns) simp_all

lemma ctimer_tick_fires:
  assumes "ctimer_sync s now = Inr s1" and "ctimer_fire s1 = Some f"
  shows "ctimer_tick s now = ctimer_reschedule (ctimer_matched s1 f now) now"
proof -
  let ?s = "s1\<lparr>ct_tc := ct_mr s1 f, ct_pc := 0\<rparr>"
  have hit: "ctimer_hit ?s = ctimer_hit (s1\<lparr>ct_tc := ct_mr s1 f\<rparr>)"
    by (simp add: ctimer_hit_def ctimer_active_def fun_eq_iff)
  have flags: "ctimer_flags ?s [0..<4] = ctimer_flags (s1\<lparr>ct_tc := ct_mr s1 f\<rparr>) [0..<4]"
    by (simp add: ctimer_flags_def hit)
  let ?m = "case fold ctimer_match [0..<4] (?s, False) of (s, r) \<Rightarrow>
     ctimer_update_irq ((if r then s\<lparr>ct_tc := 0, ct_pc := 0\<rparr> else s)\<lparr>ct_base_ns := now\<rparr>)"
  have "?m = ctimer_matched s1 f now"
    by (rule MCXNCTimerState.equality)
      (simp_all add: fold_ctimer_match concat_map_if hit flags ctimer_matched_def Let_def ctimer_update_irq_def
        qemu_set_irq_def Bex_def atLeast0LessThan del: tst_flag upt_rec_numeral, auto simp del: tst_flag)
  moreover have "ctimer_tick s now = ctimer_reschedule ?m now"
    unfolding ctimer_tick_def assms sum.case option.case by (simp add: Let_def split: prod.split)
  ultimately show ?thesis by simp
qed

section \<open>Being on time\<close>

text \<open>
  A timer whose next match lies ahead: it runs from a clock of at most 1 GHz, the prescaler is in
  range, no match value equals the counter, and the times fit the 64-bit arithmetic.
\<close>

definition ctimer_ready :: "MCXNCTimerState \<Rightarrow> bool" where
  "ctimer_ready s \<longleftrightarrow> ctimer_running s \<and> 0 < unat (ctimer_freq s) \<and> unat (ctimer_freq s) \<le> 1000000000
     \<and> ct_pc s \<le> ct_pr s \<and> ct_pr s \<noteq> NOT 0
     \<and> (\<forall>n < 4. ctimer_active s n \<longrightarrow> 0 < ctimer_dist s n
          \<and> ctimer_dist s n * (unat (ct_pr s) + 1) * 1000000000 < 2 ^ 63)"

definition ctimer_clocks :: "MCXNCTimerState \<Rightarrow> nat \<Rightarrow> nat" where
  "ctimer_clocks s n = ctimer_dist s n * (unat (ct_pr s) + 1) - unat (ct_pc s)"

definition ctimer_ns :: "MCXNCTimerState \<Rightarrow> nat \<Rightarrow> nat" where
  "ctimer_ns s n = ctimer_clocks s n * 1000000000 div unat (ctimer_freq s)"

declare unat_up [simp]

lemma unat_prescale:
  fixes p :: u32
  assumes "p \<noteq> NOT 0"
  shows "unat (p + 1) = unat p + 1"
proof -
  have "unat (NOT 0 :: u32) = 2 ^ 32 - 1" by (simp add: unsigned_minus_1_eq_mask mask_eq_exp_minus_1)
  with assms have "unat p \<noteq> 2 ^ 32 - 1" by (metis word_unat_eq_iff)
  with u32_less [of p] show ?thesis by (simp add: unat_word_ariths(1))
qed

lemma unat_mult_fits: "unat a * unat b < 2 ^ 64 \<Longrightarrow> unat (a * b) = unat a * unat b" for a b :: u64
  by (simp add: unat_word_ariths(2))

lemma ctimer_clocks_pos:
  assumes "ctimer_ready s" and "ctimer_active s n"
  shows "unat (ct_pc s) < ctimer_dist s n * (unat (ct_pr s) + 1)" "0 < ctimer_clocks s n"
    "ctimer_clocks s n * 1000000000 < 2 ^ 63"
proof -
  have d: "0 < ctimer_dist s n" "ctimer_dist s n * (unat (ct_pr s) + 1) * 1000000000 < 2 ^ 63"
    "unat (ct_pc s) \<le> unat (ct_pr s)"
    using assms by (auto simp: ctimer_ready_def ctimer_active_def word_le_nat_alt)
  have "1 * (unat (ct_pr s) + 1) \<le> ctimer_dist s n * (unat (ct_pr s) + 1)" using d(1) by (intro mult_le_mono1) simp
  then have "unat (ct_pr s) + 1 \<le> ctimer_dist s n * (unat (ct_pr s) + 1)" by (simp only: mult_1)
  then show c: "unat (ct_pc s) < ctimer_dist s n * (unat (ct_pr s) + 1)"
    by (rule less_le_trans [rotated]) (use d(3) in simp)
  then show "0 < ctimer_clocks s n" by (simp add: ctimer_clocks_def)
  show "ctimer_clocks s n * 1000000000 < 2 ^ 63" using d(2) by (simp add: ctimer_clocks_def)
qed

lemma ctimer_expiry_ns:
  assumes "ctimer_ready s" and "ctimer_active s n"
  shows "unat (ctimer_expiry s n) = ctimer_ns s n" "ctimer_ns s n < 2 ^ 63" "0 < ctimer_ns s n"
proof -
  note pos = ctimer_clocks_pos [OF assms]
  have pr: "unat (ct_pr s + 1) = unat (ct_pr s) + 1" and f: "unat (ctimer_freq s) \<le> 1000000000" "0 < unat (ctimer_freq s)"
    using assms(1) by (simp_all add: ctimer_ready_def unat_prescale)
  let ?p = "ctimer_dtc s n * ucast (ct_pr s + 1)"
  have "ctimer_dist s n * (unat (ct_pr s) + 1) * 1000000000 < 2 ^ 63"
    using assms by (simp add: ctimer_ready_def ctimer_active_def)
  then have p: "unat ?p = ctimer_dist s n * (unat (ct_pr s) + 1)"
    by (subst unat_mult_fits) (simp_all add: pr)
  then have gt: "ucast (ct_pc s) < ?p" using pos(1) by (simp add: word_less_nat_alt)
  have c: "unat (?p - ucast (ct_pc s)) = ctimer_clocks s n"
    using gt p by (simp add: unat_sub order.strict_implies_order ctimer_clocks_def)
  have "unat ((?p - ucast (ct_pc s)) * 1000000000) = ctimer_clocks s n * 1000000000"
    using pos(3) c by (subst unat_mult_fits) simp_all
  then show "unat (ctimer_expiry s n) = ctimer_ns s n"
    using gt by (simp add: ctimer_expiry_def Let_def ctimer_ns_def unat_div)
  show "ctimer_ns s n < 2 ^ 63" using pos(3) div_le_dividend unfolding ctimer_ns_def by (rule le_less_trans [rotated])
  have "unat (ctimer_freq s) \<le> ctimer_clocks s n * 1000000000" using f(1) pos(2) by (cases "ctimer_clocks s n") auto
  then show "0 < ctimer_ns s n" using f(2) by (simp add: ctimer_ns_def div_greater_zero_iff)
qed

lemma ctimer_ns_mono: "ctimer_dist s f \<le> ctimer_dist s n \<Longrightarrow> ctimer_ns s f \<le> ctimer_ns s n"
  unfolding ctimer_ns_def ctimer_clocks_def by (intro div_le_mono mult_le_mono1 diff_le_mono)

lemma ctimer_reschedule_soonest:
  assumes r: "ctimer_ready s" and f: "ctimer_active s f"
    and near: "\<forall>n < 4. ctimer_active s n \<longrightarrow> ctimer_dist s f \<le> ctimer_dist s n"
  shows "ctimer_reschedule s t = Inr (s\<lparr>ct_timer := Some (t + int (ctimer_ns s f))\<rparr>)"
proof -
  let ?s = "s\<lparr>ct_timer := None\<rparr>"
  have "ctimer_freq ?s \<noteq> 0" using r by (auto simp: ctimer_ready_def)
  from ctimer_best_least [OF this, of "[0..<4]" "NOT 0"] obtain b where
    b: "ctimer_best ?s [0..<4] (NOT 0) = Inr b" "\<And>n. ctimer_active s n \<Longrightarrow> b \<le> ctimer_expiry s n"
      "b = NOT 0 \<or> (\<exists>n. ctimer_active s n \<and> b = ctimer_expiry s n)"
    by (auto simp: ctimer_active_def) blast
  note e = ctimer_expiry_ns [OF r f]
  have max: "unat (NOT 0 :: u64) = 2 ^ 64 - 1" by (simp add: unsigned_minus_1_eq_mask mask_eq_exp_minus_1)
  have "unat b \<le> ctimer_ns s f" using b(2) [OF f] e(1) by (simp add: word_le_nat_alt)
  with e(2) max have "b \<noteq> NOT 0" by auto
  with b(3) obtain n where n: "ctimer_active s n" "b = ctimer_expiry s n" by blast
  then have "ctimer_ns s f \<le> unat b"
    using near ctimer_expiry_ns(1) [OF r n(1)] by (simp add: ctimer_ns_mono ctimer_active_def)
  with \<open>unat b \<le> ctimer_ns s f\<close> have u: "unat b = ctimer_ns s f" by simp
  then have "b \<noteq> 0" "sint b = int (ctimer_ns s f)" using e by (auto simp: sint_small)
  with \<open>b \<noteq> NOT 0\<close> b(1) r show ?thesis by (simp add: ctimer_reschedule_def Let_def ctimer_ready_def)
qed

text \<open>At its deadline the counter has not passed the match it was armed for.\<close>

lemma ctimer_sync_on_time:
  assumes r: "ctimer_ready s" and f: "ctimer_active s f" and base: "ct_base_ns s = t"
  obtains q pc where "ctimer_sync s (t + int (ctimer_ns s f)) =
      Inr (s\<lparr>ct_tc := ct_tc s + of_nat q, ct_pc := pc, ct_base_ns := t + int (ctimer_ns s f)\<rparr>)"
    and "q \<le> ctimer_dist s f"
proof -
  note e = ctimer_expiry_ns [OF r f] and pos = ctimer_clocks_pos [OF r f]
  have pr: "unat (ct_pr s + 1) = unat (ct_pr s) + 1" and run: "ctimer_running s" and hz: "0 < unat (ctimer_freq s)"
    using r by (simp_all add: ctimer_ready_def unat_prescale)
  let ?dv = "ucast (ct_pr s + 1) :: u64"
  define el where "el = (word_of_int (int (ctimer_ns s f)) :: u64)"
  have el: "unat el = ctimer_ns s f" using e(2) by (simp add: el_def unat_of_nat)
  have le: "ctimer_ns s f * unat (ctimer_freq s) \<le> ctimer_clocks s f * 1000000000"
    by (simp add: ctimer_ns_def)
  then have prod: "unat (el * ucast (ctimer_freq s)) = ctimer_ns s f * unat (ctimer_freq s)"
    using pos(3) el by (subst unat_mult_fits) simp_all
  define total where "total = (ucast (ct_pc s) :: u64) + (el * ucast (ctimer_freq s)) div 1000000000"
  have pclk: "ctimer_ns s f * unat (ctimer_freq s) div 1000000000 \<le> ctimer_clocks s f"
    using le div_le_mono [OF le, of 1000000000] by simp
  have tot: "unat total = unat (ct_pc s) + ctimer_ns s f * unat (ctimer_freq s) div 1000000000"
    unfolding total_def using pclk pos(3) u32_less [of "ct_pc s"] by (simp add: unat_word_ariths(1) unat_div prod)
  with pclk pos(1) have "unat total \<le> ctimer_dist s f * (unat (ct_pr s) + 1)" by (simp add: ctimer_clocks_def)
  from div_le_mono [OF this, of "unat (ct_pr s) + 1"] have "unat total div (unat (ct_pr s) + 1) \<le> ctimer_dist s f"
    by (subst (asm) div_mult_self_is_m) simp_all
  then have q: "unat (total div ?dv) \<le> ctimer_dist s f" by (simp add: unat_div pr)
  have "?dv \<noteq> 0" using pr by (auto simp: word_unat_eq_iff)
  then have "ctimer_peek s (t + int (ctimer_ns s f)) = Inr (ct_tc s + ucast (total div ?dv), ucast (total mod ?dv))"
    using run base e(3) by (simp add: ctimer_peek_def Let_def total_def el_def)
  then have "ctimer_sync s (t + int (ctimer_ns s f)) = Inr (s\<lparr>ct_tc := ct_tc s + of_nat (unat (total div ?dv)),
      ct_pc := ucast (total mod ?dv), ct_base_ns := t + int (ctimer_ns s f)\<rparr>)"
    unfolding ctimer_sync_def by simp
  from this q show thesis by (rule that)
qed

lemma ctimer_timer_irrelevant [simp]:
  "ctimer_reschedule (s\<lparr>ct_timer := d\<rparr>) now = ctimer_reschedule s now"
  "ctimer_ready (s\<lparr>ct_timer := d\<rparr>) = ctimer_ready s" "ctimer_ns (s\<lparr>ct_timer := d\<rparr>) = ctimer_ns s"
  by (simp_all add: ctimer_reschedule_def ctimer_ready_def ctimer_ns_def ctimer_clocks_def fun_eq_iff)

lemma ctimer_hit_synced:
  "ctimer_hit (s\<lparr>ct_pc := y, ct_base_ns := z, ct_tc := w\<rparr>) = ctimer_hit (s\<lparr>ct_tc := w\<rparr>)"
  "ctimer_flags (s\<lparr>ct_pc := y, ct_base_ns := z, ct_tc := w\<rparr>) ns = ctimer_flags (s\<lparr>ct_tc := w\<rparr>) ns"
proof -
  show hit: "ctimer_hit (s\<lparr>ct_pc := y, ct_base_ns := z, ct_tc := w\<rparr>) = ctimer_hit (s\<lparr>ct_tc := w\<rparr>)"
    by (simp add: ctimer_hit_def ctimer_active_def fun_eq_iff)
  show "ctimer_flags (s\<lparr>ct_pc := y, ct_base_ns := z, ct_tc := w\<rparr>) ns = ctimer_flags (s\<lparr>ct_tc := w\<rparr>) ns"
    unfolding ctimer_flags_def hit by simp
qed

lemma ctimer_matched_cong:
  assumes "ct_mr s f = ct_mr s g"
  shows "ctimer_matched (s\<lparr>ct_tc := x, ct_pc := y, ct_base_ns := z\<rparr>) g now = ctimer_matched s f now"
  by (rule MCXNCTimerState.equality)
    (simp_all add: ctimer_matched_def Let_def assms ctimer_hit_synced del: upt_rec_numeral tst_flag cong: if_cong split del: if_split)

lemma ctimer_tick_soonest:
  assumes r: "ctimer_ready s" and f: "ctimer_active s f" and base: "ct_base_ns s = t"
    and near: "\<forall>n < 4. ctimer_active s n \<longrightarrow> ctimer_dist s f \<le> ctimer_dist s n"
  shows "ctimer_tick s (t + int (ctimer_ns s f)) =
     ctimer_reschedule (ctimer_matched s f (t + int (ctimer_ns s f))) (t + int (ctimer_ns s f))"
proof -
  let ?now = "t + int (ctimer_ns s f)"
  obtain q pc where sync: "ctimer_sync s ?now = Inr (s\<lparr>ct_tc := ct_tc s + of_nat q, ct_pc := pc, ct_base_ns := ?now\<rparr>)"
    and q: "q \<le> ctimer_dist s f"
    using ctimer_sync_on_time [OF r f base] by blast
  let ?s1 = "s\<lparr>ct_tc := ct_tc s + of_nat q, ct_pc := pc, ct_base_ns := ?now\<rparr>"
  have act: "ctimer_active ?s1 = ctimer_active s" by (simp add: ctimer_active_def fun_eq_iff)
  have dist: "ctimer_dist ?s1 n = ctimer_dist s n - q" if "ctimer_active s n" for n
  proof -
    from that near q have "q \<le> ctimer_dist s n" by (auto simp: ctimer_active_def)
    moreover from this u32_less [of "ct_mr s n - ct_tc s"] have "unat (of_nat q :: u32) = q"
      by (simp add: unat_of_nat)
    ultimately have "unat (ct_mr s n - ct_tc s - of_nat q) = ctimer_dist s n - q"
      by (simp add: unat_sub word_le_nat_alt)
    then show ?thesis by (simp add: diff_diff_eq)
  qed
  obtain g where g: "ctimer_fire ?s1 = Some g" "ctimer_active s g" "ctimer_dist ?s1 g \<le> ctimer_dist ?s1 f"
    using ctimer_fire_nearest [of ?s1 f] f act by metis
  moreover from near g(2) q have "ctimer_dist s f \<le> ctimer_dist s g" by (auto simp: ctimer_active_def)
  ultimately have "ctimer_dist s g = ctimer_dist s f" using dist [OF f] dist [OF g(2)] q by simp
  then have "ct_mr s g - ct_tc s = ct_mr s f - ct_tc s" by (simp only: word_unat_eq_iff)
  then have "ct_mr s f = ct_mr s g" by simp
  then show ?thesis unfolding ctimer_tick_fires [OF sync g(1)] by (subst ctimer_matched_cong [of s f g]) simp_all
qed

lemma ctimer_matched_fields [simp]:
  "ct_mcr (ctimer_matched s f now) = ct_mcr s" "ct_mr (ctimer_matched s f now) = ct_mr s"
  "ct_pr (ctimer_matched s f now) = ct_pr s" "ct_clk (ctimer_matched s f now) = ct_clk s"
  "ct_pc (ctimer_matched s f now) = 0" "ct_base_ns (ctimer_matched s f now) = now"
  "ctimer_active (ctimer_matched s f now) = ctimer_active s" "ctimer_freq (ctimer_matched s f now) = ctimer_freq s"
  by (simp_all add: ctimer_matched_def Let_def ctimer_active_def ctimer_freq_def fun_eq_iff)

lemma ctimer_reschedule_clocked:
  assumes "ctimer_freq s \<noteq> 0"
  obtains d where "ctimer_reschedule s now = Inr (s\<lparr>ct_timer := d\<rparr>)"
proof (cases "ctimer_reschedule s now")
  case (Inl e)
  with assms show thesis by (simp add: ctimer_reschedule_fails_iff)
next
  case (Inr u)
  then obtain d where "u = s\<lparr>ct_timer := d\<rparr>"
    by (auto simp: ctimer_reschedule_def Let_def split: if_splits sum.splits)
  with Inr that show thesis by blast
qed

section \<open>A single match\<close>

text \<open>
  Runs of the callback at the deadlines the model arms, the pulses of an output so far, and timers
  with one match that has an action.
\<close>

fun ctimer_ticks :: "nat \<Rightarrow> MCXNCTimerState \<Rightarrow> MCXNCTimerState result" where
  "ctimer_ticks 0 s = Inr s"
| "ctimer_ticks (Suc k) s =
     (case ct_timer s of
        None \<Rightarrow> Inr s
      | Some d \<Rightarrow> (case ctimer_tick s d of Inl e \<Rightarrow> Inl e | Inr s \<Rightarrow> ctimer_ticks k s))"

definition ctimer_pulses :: "MCXNCTimerState \<Rightarrow> ctimer_line \<Rightarrow> nat" where
  "ctimer_pulses s l = length (filter (\<lambda>c. c = (l, True)) (ct_lines s))"

definition ctimer_sole :: "MCXNCTimerState \<Rightarrow> nat \<Rightarrow> bool" where
  "ctimer_sole s f \<longleftrightarrow> f < 4 \<and> (\<forall>n < 4. tst (ct_mcr s) (MCR_ANY n) \<longleftrightarrow> n = f)"

lemma ctimer_sole_active: "ctimer_sole s f \<Longrightarrow> ctimer_active s n \<longleftrightarrow> n = f"
  by (auto simp: ctimer_sole_def ctimer_active_def)

lemma filter_single: "f < 4 \<Longrightarrow> filter (\<lambda>n. n = f) [0..<4] = [f]"
  by (auto simp: upt_rec [of _ 4])

lemma ctimer_matched_sole:
  assumes "ctimer_sole s f"
  shows "ct_tcr (ctimer_matched s f now) = (if tst (ct_mcr s) (MCR_STOP f) then ct_tcr s AND NOT TCR_CEN else ct_tcr s)"
    "ct_tc (ctimer_matched s f now) = (if tst (ct_mcr s) (MCR_RST f) then 0 else ct_mr s f)"
    "ct_lines (ctimer_matched s f now) = ct_lines s @ ctimer_calls f @ [(Ctimer_irq, ct_ir (ctimer_matched s f now) \<noteq> 0)]"
    "ctimer_sole (ctimer_matched s f now) f"
proof -
  have hit: "ctimer_hit (s\<lparr>ct_tc := ct_mr s f\<rparr>) = (\<lambda>n. n = f)"
    using assms ctimer_sole_active [of s f] by (auto simp: ctimer_hit_def ctimer_active_def fun_eq_iff)
  have f: "f < 4" using assms by (simp add: ctimer_sole_def)
  show "ct_tcr (ctimer_matched s f now) = (if tst (ct_mcr s) (MCR_STOP f) then ct_tcr s AND NOT TCR_CEN else ct_tcr s)"
    "ct_tc (ctimer_matched s f now) = (if tst (ct_mcr s) (MCR_RST f) then 0 else ct_mr s f)"
    "ct_lines (ctimer_matched s f now) = ct_lines s @ ctimer_calls f @ [(Ctimer_irq, ct_ir (ctimer_matched s f now) \<noteq> 0)]"
    by (simp_all add: ctimer_matched_def Let_def hit f filter_single del: upt_rec_numeral tst_flag cong: conj_cong)
  show "ctimer_sole (ctimer_matched s f now) f" using assms by (simp add: ctimer_sole_def)
qed

lemma ctimer_pulses_matched:
  assumes "ctimer_sole s f"
  shows "ctimer_pulses ((ctimer_matched s f now)\<lparr>ct_timer := d\<rparr>) (Ctimer_match_trig f) = ctimer_pulses s (Ctimer_match_trig f) + 1"
    "f < 2 \<Longrightarrow> ctimer_pulses ((ctimer_matched s f now)\<lparr>ct_timer := d\<rparr>) (Ctimer_dma_req f) = ctimer_pulses s (Ctimer_dma_req f) + 1"
  by (simp_all add: ctimer_pulses_def ctimer_matched_sole [OF assms] ctimer_calls_def)

text \<open>A match that restarts the counter: every match is one period after the one before.\<close>

definition ctimer_pacing :: "MCXNCTimerState \<Rightarrow> nat \<Rightarrow> int \<Rightarrow> bool" where
  "ctimer_pacing s f t \<longleftrightarrow> ctimer_ready s \<and> ctimer_sole s f \<and> tst (ct_mcr s) (MCR_RST f) \<and> \<not> tst (ct_mcr s) (MCR_STOP f)
     \<and> ct_tc s = 0 \<and> ct_pc s = 0 \<and> ct_base_ns s = t \<and> ct_timer s = Some (t + int (ctimer_ns s f))"

lemma ctimer_pacing_step:
  assumes "ctimer_pacing s f t"
  obtains s' where "ctimer_tick s (t + int (ctimer_ns s f)) = Inr s'" and "ctimer_pacing s' f (t + int (ctimer_ns s f))"
    and "ctimer_ns s' f = ctimer_ns s f"
    and "ctimer_pulses s' (Ctimer_match_trig f) = ctimer_pulses s (Ctimer_match_trig f) + 1"
    and "f < 2 \<Longrightarrow> ctimer_pulses s' (Ctimer_dma_req f) = ctimer_pulses s (Ctimer_dma_req f) + 1"
proof -
  let ?now = "t + int (ctimer_ns s f)" and ?m = "ctimer_matched s f (t + int (ctimer_ns s f))"
  from assms have r: "ctimer_ready s" and sole: "ctimer_sole s f" and tc: "ct_tc s = 0" "ct_pc s = 0"
    and base: "ct_base_ns s = t" and mcr: "tst (ct_mcr s) (MCR_RST f)" "\<not> tst (ct_mcr s) (MCR_STOP f)"
    by (simp_all add: ctimer_pacing_def)
  note act = ctimer_sole_active [OF sole] and m = ctimer_matched_sole [OF sole, of ?now]
  have same: "ct_tc ?m = ct_tc s" "ct_tcr ?m = ct_tcr s" using m(1,2) mcr tc by simp_all
  then have ns: "ctimer_ns ?m f = ctimer_ns s f" by (simp add: ctimer_ns_def ctimer_clocks_def tc)
  have rm: "ctimer_ready ?m" using r same by (simp add: ctimer_ready_def ctimer_running_def)
  have "ctimer_reschedule ?m ?now = Inr (?m\<lparr>ct_timer := Some (?now + int (ctimer_ns s f))\<rparr>)"
    using ctimer_reschedule_soonest [OF rm, of f ?now] act ns by simp
  then have tick: "ctimer_tick s ?now = Inr (?m\<lparr>ct_timer := Some (?now + int (ctimer_ns s f))\<rparr>)"
    using ctimer_tick_soonest [OF r _ base, of f] act by simp
  show thesis
    by (rule that [OF tick])
      (use rm m(4) mcr tc same ns ctimer_pulses_matched [OF sole] in \<open>simp_all add: ctimer_pacing_def ctimer_sole_def\<close>)
qed

lemma ctimer_ticks_pacing:
  assumes "ctimer_pacing s f t"
  shows "\<exists>s'. ctimer_ticks k s = Inr s' \<and> ctimer_pacing s' f (t + int k * int (ctimer_ns s f))
     \<and> ctimer_ns s' f = ctimer_ns s f
     \<and> ctimer_pulses s' (Ctimer_match_trig f) = ctimer_pulses s (Ctimer_match_trig f) + k
     \<and> (f < 2 \<longrightarrow> ctimer_pulses s' (Ctimer_dma_req f) = ctimer_pulses s (Ctimer_dma_req f) + k)"
  using assms
proof (induction k arbitrary: s t)
  case 0
  then show ?case by simp
next
  case (Suc k)
  have d: "ct_timer s = Some (t + int (ctimer_ns s f))" using Suc.prems by (simp add: ctimer_pacing_def)
  obtain u where u: "ctimer_tick s (t + int (ctimer_ns s f)) = Inr u" "ctimer_pacing u f (t + int (ctimer_ns s f))"
    "ctimer_ns u f = ctimer_ns s f" "ctimer_pulses u (Ctimer_match_trig f) = ctimer_pulses s (Ctimer_match_trig f) + 1"
    "f < 2 \<Longrightarrow> ctimer_pulses u (Ctimer_dma_req f) = ctimer_pulses s (Ctimer_dma_req f) + 1"
    using ctimer_pacing_step [OF Suc.prems] by blast
  from Suc.IH [OF u(2)] d u show ?case by (simp add: algebra_simps)
qed

text \<open>A match that neither restarts nor stops the counter.\<close>

definition ctimer_stuck :: "MCXNCTimerState \<Rightarrow> nat \<Rightarrow> int \<Rightarrow> bool" where
  "ctimer_stuck s f t \<longleftrightarrow> ctimer_running s \<and> 0 < unat (ctimer_freq s) \<and> unat (ctimer_freq s) \<le> 1000000000 \<and> ct_pr s \<noteq> NOT 0
     \<and> ctimer_sole s f \<and> \<not> tst (ct_mcr s) (MCR_RST f) \<and> \<not> tst (ct_mcr s) (MCR_STOP f)
     \<and> ct_tc s = ct_mr s f \<and> ct_pc s = 0 \<and> ct_base_ns s = t
     \<and> ct_timer s = Some (t + int (1000000000 div unat (ctimer_freq s)))"

lemma ctimer_reschedule_stuck:
  assumes "ctimer_running s" and hz: "0 < unat (ctimer_freq s)" "unat (ctimer_freq s) \<le> 1000000000"
    and sole: "ctimer_sole s f" and "ct_tc s = ct_mr s f" and "ct_pc s = 0"
  shows "ctimer_reschedule s now = Inr (s\<lparr>ct_timer := Some (now + int (1000000000 div unat (ctimer_freq s)))\<rparr>)"
proof -
  define e where "e = ctimer_expiry s f"
  have u: "unat e = 1000000000 div unat (ctimer_freq s)"
    using assms(5,6) by (simp add: e_def ctimer_expiry_def ctimer_dtc_eq unat_div)
  then have le: "unat e \<le> 1000000000" by simp
  have "0 < unat e" using hz by (simp add: u div_greater_zero_iff)
  moreover have "unat (NOT 0 :: u64) = 2 ^ 64 - 1" by (simp add: unsigned_minus_1_eq_mask mask_eq_exp_minus_1)
  ultimately have e: "e \<noteq> 0" "e \<noteq> NOT 0" using le by auto
  have sint: "sint e = int (1000000000 div unat (ctimer_freq s))" using sint_small [of e] le u by simp
  have "ctimer_freq (s\<lparr>ct_timer := None\<rparr>) \<noteq> 0" using hz by auto
  from ctimer_best_least [OF this, of "[0..<4]" "NOT 0"] obtain b
    where b: "ctimer_best (s\<lparr>ct_timer := None\<rparr>) [0..<4] (NOT 0) = Inr b" "b \<le> NOT 0"
      "\<forall>n \<in> set [0..<4]. tst (ct_mcr s) (MCR_ANY n) \<longrightarrow> b \<le> ctimer_expiry s n"
      "b = NOT 0 \<or> (\<exists>n \<in> set [0..<4]. tst (ct_mcr s) (MCR_ANY n) \<and> b = ctimer_expiry s n)"
    by (auto simp del: upt_rec_numeral)
  have "b \<le> e" "b = NOT 0 \<or> b = e" using b(3,4) sole by (auto simp: ctimer_sole_def e_def)
  then have "b = e" using e(2) word_order.extremum_uniqueI [of e] by auto
  with b(1) e sint assms(1) show ?thesis by (simp add: ctimer_reschedule_def Let_def del: upt_rec_numeral)
qed

lemma ctimer_tick_sole:
  assumes sole: "ctimer_sole s f" and pr: "ct_pr s \<noteq> NOT 0"
  shows "ctimer_tick s now = ctimer_reschedule (ctimer_matched s f now) now"
proof -
  obtain tc pc where "ctimer_peek s now = Inr (tc, pc)"
    using ctimer_peek_fails_iff [of s now] pr by (cases "ctimer_peek s now") auto
  then have sync: "ctimer_sync s now = Inr (s\<lparr>ct_tc := tc, ct_pc := pc, ct_base_ns := now\<rparr>)"
    by (simp add: ctimer_sync_def)
  let ?s1 = "s\<lparr>ct_tc := tc, ct_pc := pc, ct_base_ns := now\<rparr>"
  have act: "ctimer_active ?s1 n \<longleftrightarrow> n = f" for n
    using ctimer_sole_active [OF sole] by (simp add: ctimer_active_def)
  then have "ctimer_fire ?s1 = Some f" using ctimer_fire_nearest [of ?s1 f] by metis
  from ctimer_tick_fires [OF sync this] show ?thesis by (simp add: ctimer_matched_cong)
qed

lemma ctimer_tick_free:
  assumes "ctimer_running s" and hz: "0 < unat (ctimer_freq s)" "unat (ctimer_freq s) \<le> 1000000000" and "ct_pr s \<noteq> NOT 0"
    and sole: "ctimer_sole s f" and mcr: "\<not> tst (ct_mcr s) (MCR_RST f)" "\<not> tst (ct_mcr s) (MCR_STOP f)"
  obtains s' where "ctimer_tick s now = Inr s'" and "ctimer_stuck s' f now" and "ctimer_freq s' = ctimer_freq s"
    and "ct_mr s' = ct_mr s"
    and "ctimer_pulses s' (Ctimer_match_trig f) = ctimer_pulses s (Ctimer_match_trig f) + 1"
proof -
  let ?m = "ctimer_matched s f now" and ?p = "1000000000 div unat (ctimer_freq s)"
  note m = ctimer_matched_sole [OF sole, of now]
  have tc: "ct_tc ?m = ct_mr s f" "ct_tcr ?m = ct_tcr s" using m(1,2) mcr by simp_all
  then have run: "ctimer_running ?m" using assms(1) by (simp add: ctimer_running_def)
  have "ctimer_reschedule ?m now = Inr (?m\<lparr>ct_timer := Some (now + int ?p)\<rparr>)"
    using ctimer_reschedule_stuck [OF run, of f now] hz m(4) tc by simp
  then have tick: "ctimer_tick s now = Inr (?m\<lparr>ct_timer := Some (now + int ?p)\<rparr>)"
    using ctimer_tick_sole [OF sole assms(4)] by simp
  show thesis
    by (rule that [OF tick])
      (use assms run m(4) tc ctimer_pulses_matched [OF sole] in \<open>simp_all add: ctimer_stuck_def ctimer_sole_def\<close>)
qed

lemma ctimer_ticks_stuck:
  assumes "ctimer_stuck s f t"
  shows "\<exists>s'. ctimer_ticks k s = Inr s' \<and> ctimer_stuck s' f (t + int k * int (1000000000 div unat (ctimer_freq s)))
     \<and> ct_mr s' = ct_mr s
     \<and> ctimer_pulses s' (Ctimer_match_trig f) = ctimer_pulses s (Ctimer_match_trig f) + k"
  using assms
proof (induction k arbitrary: s t)
  case 0
  then show ?case by simp
next
  case (Suc k)
  let ?d = "t + int (1000000000 div unat (ctimer_freq s))"
  have d: "ct_timer s = Some ?d" using Suc.prems by (simp add: ctimer_stuck_def)
  obtain u where u: "ctimer_tick s ?d = Inr u" "ctimer_stuck u f ?d" "ctimer_freq u = ctimer_freq s" "ct_mr u = ct_mr s"
    "ctimer_pulses u (Ctimer_match_trig f) = ctimer_pulses s (Ctimer_match_trig f) + 1"
    using ctimer_tick_free [of s f ?d] Suc.prems unfolding ctimer_stuck_def by blast
  from Suc.IH [OF u(2)] d u show ?case by (simp add: algebra_simps)
qed

text \<open>A timer at rest with one match set up, started by the register write.\<close>

definition ctimer_set_up :: "MCXNCTimerState \<Rightarrow> nat \<Rightarrow> bool" where
  "ctimer_set_up s f \<longleftrightarrow> \<not> ctimer_running s \<and> ct_tc s = 0 \<and> ct_pc s = 0 \<and> ctimer_sole s f
     \<and> 0 < unat (ctimer_freq s) \<and> unat (ctimer_freq s) \<le> 1000000000 \<and> ct_pr s \<noteq> NOT 0
     \<and> 0 < unat (ct_mr s f) \<and> unat (ct_mr s f) * (unat (ct_pr s) + 1) * 1000000000 < 2 ^ 63"

lemma ctimer_start:
  fixes t :: int
  assumes "ctimer_set_up s f"
  defines "s0 \<equiv> s\<lparr>ct_base_ns := t, ct_tcr := TCR_CEN\<rparr>"
  shows "ctimer_write s t CTIMER_TCR 1 = Inr (s0\<lparr>ct_timer := Some (t + int (ctimer_ns s f))\<rparr>)"
    "ctimer_ready s0" "ctimer_sole s0 f" "ctimer_ns s0 f = ctimer_ns s f" "ctimer_freq s0 = ctimer_freq s"
proof -
  show fr: "ctimer_freq s0 = ctimer_freq s" by (simp add: s0_def ctimer_freq_def)
  show so: "ctimer_sole s0 f" using assms(1) by (simp add: s0_def ctimer_set_up_def ctimer_sole_def)
  show ns: "ctimer_ns s0 f = ctimer_ns s f" by (simp add: s0_def ctimer_ns_def ctimer_clocks_def ctimer_freq_def)
  note act = ctimer_sole_active [OF so]
  show r: "ctimer_ready s0"
    using assms(1) fr by (simp add: ctimer_ready_def act) (simp add: s0_def ctimer_set_up_def ctimer_running_def bit_flag_iff)
  have "s\<lparr>ct_tc := 0, ct_pc := 0, ct_base_ns := t, ct_tcr := 1\<rparr> = s0"
    by (rule MCXNCTimerState.equality) (use assms(1) in \<open>simp_all add: s0_def ctimer_set_up_def flag_def\<close>)
  moreover have "ctimer_reschedule s0 t = Inr (s0\<lparr>ct_timer := Some (t + int (ctimer_ns s f))\<rparr>)"
    using ctimer_reschedule_soonest [OF r, of f t] act ns by simp
  ultimately show "ctimer_write s t CTIMER_TCR 1 = Inr (s0\<lparr>ct_timer := Some (t + int (ctimer_ns s f))\<rparr>)"
    using assms(1) by (simp add: ctimer_write_def ctimer_synced_def ctimer_sync_def ctimer_peek_def ctimer_set_up_def
        Let_def in_bank_def flag_def tst_def)
qed


section \<open>Starting and capturing\<close>

text \<open>Starting a timer without a clock divides by zero as soon as a match has an action.\<close>

lemma ctimer_start_fails_iff:
  assumes "\<not> ctimer_running s"
  shows "ctimer_write s now CTIMER_TCR 1 = Inl e \<longleftrightarrow>
     e = Div_by_zero \<and> ctimer_freq s = 0 \<and> (\<exists>n. ctimer_active s n)"
proof -
  let ?s = "s\<lparr>ct_tc := ct_tc s, ct_pc := ct_pc s, ct_base_ns := now, ct_tcr := 1\<rparr>"
  have "ctimer_write s now CTIMER_TCR 1 = ctimer_reschedule ?s now"
    using assms by (simp add: ctimer_write_def ctimer_synced_def ctimer_sync_def ctimer_peek_def Let_def flag_def tst_def)
  moreover have "ctimer_running ?s" "ctimer_freq ?s = ctimer_freq s" "ctimer_active ?s = ctimer_active s"
    by (simp_all add: ctimer_running_def ctimer_freq_def ctimer_active_def fun_eq_iff)
  ultimately show ?thesis by (simp add: ctimer_reschedule_fails_iff)
qed

text \<open>A selected edge captures what a read of the counter at that moment returns.\<close>

lemma ctimer_capture_reads_back:
  assumes "level \<and> \<not> cap0_level s \<and> tst (ct_ccr s) CCR_CAP0RE \<or> \<not> level \<and> cap0_level s \<and> tst (ct_ccr s) CCR_CAP0FE"
    and "ctimer_capture0 s now level = Inr s'"
  shows "ctimer_read s' later CTIMER_CR0 = ctimer_read s now CTIMER_TC"
proof -
  have "ctimer_peek (s\<lparr>cap0_level := level\<rparr>) now = ctimer_peek s now"
    by (simp add: ctimer_peek_def ctimer_running_def ctimer_freq_def Let_def checked_div_def)
  with assms show ?thesis
    by (auto simp: ctimer_capture0_def Let_def ctimer_read_def in_bank_def ctimer_update_irq_def split: sum.splits if_splits)
qed

section \<open>Properties\<close>

text \<open>A timer at 48 MHz with match 0 after 48 and match 1 after 96 clocks.\<close>

definition ctimer_example :: "u32 \<Rightarrow> u32 \<Rightarrow> MCXNCTimerState" where
  "ctimer_example tcr mcr = \<lparr>ct_lines = [], ct_timer = None, ct_clk = Some 48000000, ct_ir = 0, ct_tcr = tcr, ct_pr = 0,
     ct_mcr = mcr, ct_mr = (\<lambda>n. if n = 0 then 48 else 96), ct_ccr = 0, ct_emr = 0, ct_ctcr = 0, ct_pwmc = 0,
     ct_cr = (\<lambda>_. 0), ct_msr = (\<lambda>_. 0), ct_tc = 0, ct_pc = 0, ct_base_ns = 0, cap0_level = False\<rparr>"

lemma all_less_4: "(\<forall>n < (4::nat). P n) \<longleftrightarrow> P 0 \<and> P 1 \<and> P 2 \<and> P 3"
  by (auto simp: eval_nat_numeral less_Suc_eq)

lemma ctimer_example_active:
  "ctimer_active (ctimer_example tcr 0xB) n \<longleftrightarrow> n = 0 \<or> n = 1"
  "ctimer_sole (ctimer_example tcr 3) 0" "ctimer_sole (ctimer_example tcr 1) 0"
proof -
  have "n < 4 \<longleftrightarrow> n = 0 \<or> n = 1 \<or> n = 2 \<or> n = 3" by auto
  then show "ctimer_active (ctimer_example tcr 0xB) n \<longleftrightarrow> n = 0 \<or> n = 1"
    by (auto simp: ctimer_active_def ctimer_example_def MCR_ANY_def flag_def tst_def)
  show "ctimer_sole (ctimer_example tcr 3) 0" "ctimer_sole (ctimer_example tcr 1) 0"
    by (simp_all add: ctimer_sole_def ctimer_example_def all_less_4 MCR_ANY_def flag_def tst_def)
qed

lemma ctimer_example_freq: "ctimer_freq (ctimer_example tcr mcr) = 48000000" "ctimer_ns (ctimer_example tcr mcr) 0 = 1000"
  by (simp_all add: ctimer_freq_def ctimer_ns_def ctimer_clocks_def ctimer_example_def)

text \<open>
  C12: the timer is armed for the match nearest to the counter and fires it on time.  Re-arming a
  timer whose matches lie ahead sets the deadline at which the counter reaches the nearest match
  value; the callback at that deadline handles exactly the matches at that value: it latches their
  enabled interrupt flags, stops the timer if one of them asks for it, restarts the counter if one
  of them asks for that and leaves it at the match value otherwise, pulses their trigger outputs
  and the DMA requests of matches 0 and 1, each once and in order, and then drives the interrupt line.
\<close>

theorem ctimer_fires_soonest_match:
  assumes "ctimer_ready s" and "ct_base_ns s = t" and "ctimer_active s f"
    and "\<forall>n < 4. ctimer_active s n \<longrightarrow> ctimer_dist s f \<le> ctimer_dist s n"
  shows "\<exists>s1 s2. let hit = (\<lambda>n. ctimer_active s n \<and> ct_mr s n = ct_mr s f); now = t + int (ctimer_ns s f)
     in ctimer_reschedule s t = Inr s1 \<and> ct_timer s1 = Some now \<and> ctimer_tick s1 now = Inr s2
      \<and> ct_tc s2 = (if \<exists>n < 4. hit n \<and> tst (ct_mcr s) (MCR_RST n) then 0 else ct_mr s f)
      \<and> ct_pc s2 = 0 \<and> ct_base_ns s2 = now
      \<and> (\<forall>k. bit (ct_ir s2) k \<longleftrightarrow> bit (ct_ir s) k \<or> hit k \<and> tst (ct_mcr s) (MCR_INT k))
      \<and> (ctimer_running s2 \<longleftrightarrow> \<not> (\<exists>n < 4. hit n \<and> tst (ct_mcr s) (MCR_STOP n)))
      \<and> ct_lines s2 = ct_lines s @ concat (map ctimer_calls (filter hit [0..<4])) @ [(Ctimer_irq, ct_ir s2 \<noteq> 0)]"
proof -
  define now where "now = t + int (ctimer_ns s f)"
  define s1 where "s1 = s\<lparr>ct_timer := Some now\<rparr>"
  define m where "m = ctimer_matched s1 f now"
  let ?hit = "\<lambda>n. ctimer_active s n \<and> ct_mr s n = ct_mr s f"
  have "ctimer_freq m \<noteq> 0" and run: "ctimer_running s"
    using assms(1) by (auto simp: ctimer_ready_def m_def s1_def)
  then obtain d where d: "ctimer_reschedule m now = Inr (m\<lparr>ct_timer := d\<rparr>)"
    using ctimer_reschedule_clocked by blast
  have hit: "ctimer_hit (s1\<lparr>ct_tc := ct_mr s f\<rparr>) = ?hit"
    by (simp add: ctimer_hit_def ctimer_active_def fun_eq_iff s1_def)
  have s1: "ctimer_reschedule s t = Inr s1"
    unfolding s1_def now_def using assms(1,3,4) by (rule ctimer_reschedule_soonest)
  have tick: "ctimer_tick s1 now = Inr (m\<lparr>ct_timer := d\<rparr>)"
    using ctimer_tick_soonest [of s1 f t] assms d by (simp add: m_def s1_def now_def)
  have m: "ct_mr s1 f = ct_mr s f" "ct_mcr s1 = ct_mcr s" "ct_lines s1 = ct_lines s" "ct_ir s1 = ct_ir s" "ct_tcr s1 = ct_tcr s"
    by (simp_all add: s1_def)
  have ir: "bit (ct_ir m) k \<longleftrightarrow> bit (ct_ir s) k \<or> ?hit k \<and> tst (ct_mcr s) (MCR_INT k)" for k
    by (auto simp: m_def ctimer_matched_def Let_def bit_ctimer_flags hit m ctimer_active_def simp del: tst_flag upt_rec_numeral)
  have tcr: "ctimer_running m \<longleftrightarrow> \<not> (\<exists>n < 4. ?hit n \<and> tst (ct_mcr s) (MCR_STOP n))"
    using run by (auto simp: m_def ctimer_matched_def Let_def ctimer_running_def hit m simp del: upt_rec_numeral)
  have tc: "ct_tc m = (if \<exists>n < 4. ?hit n \<and> tst (ct_mcr s) (MCR_RST n) then 0 else ct_mr s f)"
    by (auto simp: m_def ctimer_matched_def Let_def hit m simp del: tst_flag upt_rec_numeral)
  have lines: "ct_lines m = ct_lines s @ concat (map ctimer_calls (filter ?hit [0..<4])) @ [(Ctimer_irq, ct_ir m \<noteq> 0)]"
    by (simp add: m_def ctimer_matched_def Let_def hit m del: upt_rec_numeral)
  have pc: "ct_pc m = 0" "ct_base_ns m = now" by (simp_all add: m_def)
  have timer: "ct_timer s1 = Some now" by (simp add: s1_def)
  show ?thesis unfolding Let_def now_def [symmetric]
    by (rule exI [of _ s1], rule exI [of _ "m\<lparr>ct_timer := d\<rparr>"])
      (simp add: s1 tick tc pc ir tcr lines timer del: upt_rec_numeral tst_flag One_nat_def add_0_right)
qed

theorem ctimer_fires_soonest_match_witness:
  "\<exists>s1 s2. ctimer_reschedule (ctimer_example 1 0xB) 0 = Inr s1 \<and> ct_timer s1 = Some 1000 \<and> ctimer_tick s1 1000 = Inr s2
     \<and> ct_tc s2 = 0 \<and> bit (ct_ir s2) 0 \<and> \<not> bit (ct_ir s2) 1"
proof -
  let ?s = "ctimer_example 1 0xB"
  have "ctimer_ready ?s"
    by (simp add: ctimer_ready_def ctimer_example_active ctimer_example_freq all_less_4)
      (simp add: ctimer_example_def ctimer_running_def)
  moreover have "ct_base_ns ?s = 0" "ctimer_active ?s 0"
    "\<forall>n < 4. ctimer_active ?s n \<longrightarrow> ctimer_dist ?s 0 \<le> ctimer_dist ?s n"
    by (simp_all add: ctimer_example_active) (simp_all add: ctimer_example_def)
  ultimately obtain s1 s2 where w: "ctimer_reschedule ?s 0 = Inr s1" "ct_timer s1 = Some 1000" "ctimer_tick s1 1000 = Inr s2"
    "ct_tc s2 = (if \<exists>n < 4. (ctimer_active ?s n \<and> ct_mr ?s n = ct_mr ?s 0) \<and> tst (ct_mcr ?s) (MCR_RST n) then 0 else ct_mr ?s 0)"
    "\<forall>k. bit (ct_ir s2) k \<longleftrightarrow> bit (ct_ir ?s) k \<or> (ctimer_active ?s k \<and> ct_mr ?s k = ct_mr ?s 0) \<and> tst (ct_mcr ?s) (MCR_INT k)"
    using ctimer_fires_soonest_match [of ?s 0 0] unfolding Let_def ctimer_example_freq by auto
  have "ct_tc s2 = 0" unfolding w(4)
    by (subst if_P) (auto intro!: exI [of _ 0] simp: ctimer_example_active, simp_all add: ctimer_example_def flag_def tst_def)
  moreover have "bit (ct_ir s2) 0" "\<not> bit (ct_ir s2) 1"
    using w(5) by (simp_all add: ctimer_example_active) (simp_all add: ctimer_example_def)
  ultimately show ?thesis using w(1-3) by blast
qed

text \<open>
  A match that restarts the counter paces its outputs exactly.  Once the enable bit is written,
  the \<open>k\<close>-th match comes \<open>k\<close> periods later, where a period is the match value times the prescaler,
  each match pulses the trigger output of the match once, and its DMA request once if it has one,
  and the timer is armed for the next.
\<close>

theorem ctimer_paces_matches:
  assumes "ctimer_set_up s f" and "tst (ct_mcr s) (MCR_RST f)" and "\<not> tst (ct_mcr s) (MCR_STOP f)"
  shows "\<exists>s1 s2. ctimer_write s t CTIMER_TCR 1 = Inr s1 \<and> ctimer_ticks k s1 = Inr s2
     \<and> ct_base_ns s2 = t + int k * int (ctimer_ns s f)
     \<and> ct_timer s2 = Some (t + int (k + 1) * int (ctimer_ns s f))
     \<and> ctimer_pulses s2 (Ctimer_match_trig f) = ctimer_pulses s (Ctimer_match_trig f) + k
     \<and> (f < 2 \<longrightarrow> ctimer_pulses s2 (Ctimer_dma_req f) = ctimer_pulses s (Ctimer_dma_req f) + k)"
proof -
  let ?s0 = "s\<lparr>ct_base_ns := t, ct_tcr := TCR_CEN\<rparr>"
  let ?s1 = "?s0\<lparr>ct_timer := Some (t + int (ctimer_ns s f))\<rparr>"
  note start = ctimer_start [OF assms(1), of t]
  have "ctimer_sole ?s1 f" using start(3) by (simp add: ctimer_sole_def)
  then have "ctimer_pacing ?s1 f t"
    using assms(1,2,3) start(2,4) by (simp add: ctimer_pacing_def ctimer_set_up_def)
  from ctimer_ticks_pacing [OF this, of k] obtain s2 where s2: "ctimer_ticks k ?s1 = Inr s2"
    "ctimer_pacing s2 f (t + int k * int (ctimer_ns s f))" "ctimer_ns s2 f = ctimer_ns s f"
    "ctimer_pulses s2 (Ctimer_match_trig f) = ctimer_pulses s (Ctimer_match_trig f) + k"
    "f < 2 \<longrightarrow> ctimer_pulses s2 (Ctimer_dma_req f) = ctimer_pulses s (Ctimer_dma_req f) + k"
    using start(4) by (auto simp: ctimer_pulses_def)
  then show ?thesis using start(1) by (intro exI [of _ ?s1] exI [of _ s2]) (simp add: ctimer_pacing_def algebra_simps)
qed

lemma ctimer_example_set_up: "ctimer_set_up (ctimer_example 0 3) 0" "ctimer_set_up (ctimer_example 0 1) 0"
  by (simp_all add: ctimer_set_up_def ctimer_example_active ctimer_example_freq) (simp_all add: ctimer_example_def ctimer_running_def)

theorem ctimer_paces_matches_witness:
  "\<exists>s1 s2. ctimer_write (ctimer_example 0 3) 500 CTIMER_TCR 1 = Inr s1 \<and> ctimer_ticks 3 s1 = Inr s2
     \<and> ct_timer s2 = Some 4500 \<and> ctimer_pulses s2 (Ctimer_dma_req 0) = 3"
proof -
  let ?s = "ctimer_example 0 3"
  have "tst (ct_mcr ?s) (MCR_RST 0)" "\<not> tst (ct_mcr ?s) (MCR_STOP 0)" "ctimer_pulses ?s (Ctimer_dma_req 0) = 0"
    by (simp_all add: ctimer_example_def ctimer_pulses_def)
  with ctimer_paces_matches [OF ctimer_example_set_up(1), of 500 3] show ?thesis by (auto simp: ctimer_example_freq)
qed

text \<open>
  C34: a match that neither restarts nor stops the counter freezes it.  After the first match the
  callback is due again after one period of the input clock; it moves the counter back to the match
  value and handles the match again, so however long the timer runs the counter stays at the match
  value, and \<open>k + 1\<close> matches are handled within \<open>k\<close> input clocks of the first.
\<close>

theorem ctimer_match_without_reset_sticks:
  assumes "ctimer_set_up s f" and "\<not> tst (ct_mcr s) (MCR_RST f)" and "\<not> tst (ct_mcr s) (MCR_STOP f)"
  shows "\<exists>s1 s2. ctimer_write s t CTIMER_TCR 1 = Inr s1 \<and> ctimer_ticks (Suc k) s1 = Inr s2
     \<and> ct_base_ns s2 = t + int (ctimer_ns s f) + int k * int (1000000000 div unat (ctimer_freq s))
     \<and> ct_tc s2 = ct_mr s f
     \<and> ctimer_pulses s2 (Ctimer_match_trig f) = ctimer_pulses s (Ctimer_match_trig f) + Suc k"
proof -
  let ?s0 = "s\<lparr>ct_base_ns := t, ct_tcr := TCR_CEN\<rparr>" and ?d = "t + int (ctimer_ns s f)"
  let ?s1 = "?s0\<lparr>ct_timer := Some ?d\<rparr>"
  note start = ctimer_start [OF assms(1), of t]
  have "ctimer_sole ?s1 f" using start(3) by (simp add: ctimer_sole_def)
  then obtain u where u: "ctimer_tick ?s1 ?d = Inr u" "ctimer_stuck u f ?d" "ctimer_freq u = ctimer_freq s"
    "ct_mr u = ct_mr s" "ctimer_pulses u (Ctimer_match_trig f) = ctimer_pulses s (Ctimer_match_trig f) + 1"
    using ctimer_tick_free [of ?s1 f ?d] start(2,5) assms(2,3) by (auto simp: ctimer_ready_def ctimer_pulses_def)
  from ctimer_ticks_stuck [OF u(2), of k] obtain s2 where s2: "ctimer_ticks k u = Inr s2"
    "ctimer_stuck s2 f (?d + int k * int (1000000000 div unat (ctimer_freq s)))" "ct_mr s2 = ct_mr s"
    "ctimer_pulses s2 (Ctimer_match_trig f) = ctimer_pulses s (Ctimer_match_trig f) + Suc k"
    using u(3,4,5) by auto
  then show ?thesis using start(1) u(1) by (intro exI [of _ ?s1] exI [of _ s2]) (simp add: ctimer_stuck_def)
qed

theorem ctimer_match_without_reset_sticks_witness:
  "\<exists>s1 s2. ctimer_write (ctimer_example 0 1) 0 CTIMER_TCR 1 = Inr s1 \<and> ctimer_ticks 1000 s1 = Inr s2
     \<and> ct_base_ns s2 = 20980 \<and> ct_tc s2 = 48"
proof -
  let ?s = "ctimer_example 0 1"
  have "\<not> tst (ct_mcr ?s) (MCR_RST 0)" "\<not> tst (ct_mcr ?s) (MCR_STOP 0)" "ct_mr ?s 0 = 48"
    by (simp_all add: ctimer_example_def)
  with ctimer_match_without_reset_sticks [OF ctimer_example_set_up(2), of 0 999] show ?thesis
    by (auto simp: ctimer_example_freq simp del: ctimer_ticks.simps)
qed

end
