(* ===== verification/Mcxn_Clock_Tree.thy ===== *)
theory Mcxn_Clock_Tree
  imports Mcxn_Syscon Mcxn_Ctimer
begin

unbundle bit_operations_syntax

text \<open>
  The clock tree as \<^verbatim>\<open>mcxn_soc_realize\<close> wires it: the SCG outputs feed the inputs of SYSCON and the LPTMRs,
  the SYSCON outputs feed the cores and the peripherals.  An update travels along these wires while
  the register write that caused it is still in progress.  The device inputs have no callback.
\<close>

section \<open>Model\<close>

datatype clock_leaf =
  Core_cpuclk nat | Core_refclk nat | Mrt_in | Pwm_in nat | Ctimer_in nat | Sct_in | Sai_in nat
  | Ostimer_in | Lptmr_in nat

record clock_tree =
  tree_scg :: MCXNSCGState
  tree_syscon :: MCXNSysconState
  tree_leaf :: "clock_leaf \<Rightarrow> u64"

text \<open>The inputs connected to each output, the last connected first.\<close>

fun scg_children :: "scg_clock \<Rightarrow> clock_leaf list" where
  "scg_children Fro12m = [Lptmr_in 1, Lptmr_in 0]"
| "scg_children _ = []"

fun sys_children :: "sys_clock \<Rightarrow> clock_leaf list" where
  "sys_children Busclk =
     [Pwm_in 1, Pwm_in 0, Mrt_in, Core_refclk 1, Core_cpuclk 1, Core_refclk 0, Core_cpuclk 0]"
| "sys_children (Ctimer_clk n) = (if n < 5 then [Ctimer_in n] else [])"
| "sys_children Sct_clk = [Sct_in]"
| "sys_children (Sai_clk n) = (if n < 2 then [Sai_in n] else [])"
| "sys_children Ostimer_clk = [Ostimer_in]"

definition tree_propagate :: "clock_leaf list \<Rightarrow> u64 \<Rightarrow> clock_tree \<Rightarrow> clock_tree" where
  "tree_propagate ls p =
     fold (\<lambda>l. clock_propagate_to (\<lambda>t. tree_leaf t l)
                 (\<lambda>p t. t\<lparr>tree_leaf := (tree_leaf t)(l := p)\<rparr>) (\<lambda>t. t) p) ls"

definition tree_set_syscon :: "MCXNSysconState \<Rightarrow> clock_tree \<Rightarrow> clock_tree" where
  "tree_set_syscon s t =
     fold (\<lambda>(c, p). tree_propagate (sys_children c) p)
       (new_calls (propagated (sc_outs (tree_syscon t))) (propagated (sc_outs s)))
       (t\<lparr>tree_syscon := s\<rparr>)"

definition tree_scg_call :: "scg_clock \<times> u64 \<Rightarrow> clock_tree \<Rightarrow> clock_tree" where
  "tree_scg_call = (\<lambda>(c, p) t.
     let t = tree_propagate (scg_children c) p t
     in tree_set_syscon (syscon_clock_in c p (tree_syscon t)) t)"

definition tree_set_scg :: "MCXNSCGState \<Rightarrow> clock_tree \<Rightarrow> clock_tree" where
  "tree_set_scg s t =
     fold tree_scg_call
       (new_calls (propagated (scg_outs (tree_scg t))) (propagated (scg_outs s)))
       (t\<lparr>tree_scg := s\<rparr>)"

text \<open>
  What can happen to the two devices: an aligned register write inside their windows (the bus
  dispatches no other), a device reset, and a turn of the main loop.
\<close>

datatype tree_op =
  Scg_write nat u32 | Syscon_write nat u32 | Scg_reset | Syscon_reset | Main_loop

fun tree_step :: "tree_op \<Rightarrow> clock_tree \<Rightarrow> clock_tree" where
  "tree_step (Scg_write off v) t =
     (if off < MCXN_SCG_SIZE \<and> off mod 4 = 0 then tree_set_scg (mcxn_scg_write (tree_scg t) off v) t else t)"
| "tree_step (Syscon_write off v) t =
     (if off < 0x1000 \<and> off mod 4 = 0 then tree_set_syscon (mcxn_syscon_write (tree_syscon t) off v) t else t)"
| "tree_step Scg_reset t = tree_set_scg (mcxn_scg_reset (tree_scg t)) t"
| "tree_step Syscon_reset t = tree_set_syscon (mcxn_syscon_reset (tree_syscon t)) t"
| "tree_step Main_loop t = tree_set_syscon (syscon_main_loop (tree_syscon t)) t"

text \<open>The machine as realized, every clock stopped, and after its first reset.\<close>

definition tree_realized :: clock_tree where
  "tree_realized =
     \<lparr>tree_scg = \<lparr>scg_regs = \<lambda>_. 0, scg_outs = \<lparr>period = \<lambda>_. 0, propagated = []\<rparr>\<rparr>,
      tree_syscon = syscon_example\<lparr>sc_cpuctrl := 0\<rparr>,
      tree_leaf = \<lambda>_. 0\<rparr>"

definition tree_power_on :: clock_tree where
  "tree_power_on = fold tree_step [Scg_reset, Syscon_reset] tree_realized"

section \<open>The wires\<close>

fun leaf_source :: "clock_leaf \<Rightarrow> scg_clock + sys_clock" where
  "leaf_source (Core_cpuclk n) = Inr Busclk"
| "leaf_source (Core_refclk n) = Inr Busclk"
| "leaf_source Mrt_in = Inr Busclk"
| "leaf_source (Pwm_in n) = Inr Busclk"
| "leaf_source (Ctimer_in n) = Inr (Ctimer_clk n)"
| "leaf_source Sct_in = Inr Sct_clk"
| "leaf_source (Sai_in n) = Inr (Sai_clk n)"
| "leaf_source Ostimer_in = Inr Ostimer_clk"
| "leaf_source (Lptmr_in n) = Inl Fro12m"

definition tree_leaves :: "clock_leaf set" where
  "tree_leaves = {l. (\<exists>c. l \<in> set (scg_children c)) \<or> (\<exists>c \<in> sys_clocks. l \<in> set (sys_children c))}"

lemma scg_child_source: "l \<in> set (scg_children c) \<Longrightarrow> leaf_source l = Inl c"
  by (cases c) auto

lemma sys_child_source: "l \<in> set (sys_children c) \<Longrightarrow> leaf_source l = Inr c"
  by (cases c) (auto split: if_splits)

lemma tree_propagate_simps [simp]:
  "tree_leaf (tree_propagate ls p t) = (\<lambda>l. if l \<in> set ls then p else tree_leaf t l)"
  "tree_scg (tree_propagate ls p t) = tree_scg t"
  "tree_syscon (tree_propagate ls p t) = tree_syscon t"
  unfolding tree_propagate_def
  by (induction ls rule: rev_induct) (auto simp: clock_propagate_to_def)

lemma sys_child_unique: "l \<in> set (sys_children c) \<Longrightarrow> l \<in> set (sys_children d) \<longleftrightarrow> d = c"
  using sys_child_source [of l c] sys_child_source [of l d] by auto

abbreviation (input) tree_deliver :: "(sys_clock \<times> u64) list \<Rightarrow> clock_tree \<Rightarrow> clock_tree" where
  "tree_deliver \<equiv> fold (\<lambda>(c, p). tree_propagate (sys_children c) p)"

lemma tree_deliver_keeps [simp]:
  "tree_scg (tree_deliver calls t) = tree_scg t" "tree_syscon (tree_deliver calls t) = tree_syscon t"
  by (induction calls arbitrary: t) (auto split: prod.splits)

lemma tree_deliver_leaf:
  "l \<in> set (sys_children c) \<Longrightarrow> tree_leaf (tree_deliver calls t) l = clock_deliver calls (\<lambda>_. tree_leaf t l) c"
proof (induction calls rule: rev_induct)
  case (snoc call calls)
  then show ?case by (cases call) (simp add: sys_child_unique)
qed simp

lemma tree_deliver_other:
  "\<forall>c. l \<notin> set (sys_children c) \<Longrightarrow> tree_leaf (tree_deliver calls t) l = tree_leaf t l"
  by (induction calls arbitrary: t) (auto split: prod.splits)

text \<open>The inputs behind SYSCON show the periods of its outputs, and stay so when it changes them.\<close>

definition sys_linked :: "clock_tree \<Rightarrow> bool" where
  "sys_linked t \<longleftrightarrow>
     (\<forall>c. \<forall>l \<in> set (sys_children c). tree_leaf t l = period (sc_outs (tree_syscon t)) c)"

definition scg_linked :: "clock_tree \<Rightarrow> bool" where
  "scg_linked t \<longleftrightarrow>
     (\<forall>c. sc_in (tree_syscon t) c = period (scg_outs (tree_scg t)) c
        \<and> (\<forall>l \<in> set (scg_children c). tree_leaf t l = period (scg_outs (tree_scg t)) c))"

lemma tree_set_syscon_simps [simp]:
  "tree_scg (tree_set_syscon s t) = tree_scg t" "tree_syscon (tree_set_syscon s t) = s"
  by (simp_all add: tree_set_syscon_def)

lemma tree_set_syscon_other:
  "\<forall>c. l \<notin> set (sys_children c) \<Longrightarrow> tree_leaf (tree_set_syscon s t) l = tree_leaf t l"
  by (simp add: tree_set_syscon_def tree_deliver_other)

lemma tree_set_syscon_linked:
  assumes "sys_linked t" and "clock_extends (sc_outs (tree_syscon t)) (sc_outs s)"
  shows "sys_linked (tree_set_syscon s t)"
proof -
  have "tree_leaf (tree_set_syscon s t) l = period (sc_outs s) c" if l: "l \<in> set (sys_children c)" for l c
    using clock_extends_follow [OF assms(2), of "\<lambda>_. tree_leaf t l" c] assms(1) l
    by (simp add: tree_set_syscon_def tree_deliver_leaf [OF l] sys_linked_def)
  then show ?thesis by (simp add: sys_linked_def)
qed

lemma syscon_op_extends:
  "clock_extends (sc_outs s) (sc_outs (mcxn_syscon_write s off v))"
  "clock_extends (sc_outs s) (sc_outs (mcxn_syscon_reset s))"
  "clock_extends (sc_outs s) (sc_outs (syscon_main_loop s))"
  "clock_extends (sc_outs s) (sc_outs (syscon_clock_in c p s))"
proof -
  note up = syscon.update_extends_from
  show "clock_extends (sc_outs s) (sc_outs (mcxn_syscon_write s off v))"
    by (simp add: mcxn_syscon_write_def syscon_alias_def Let_def mcxn_syscon_update_cpu1_def up split: option.split)
  show "clock_extends (sc_outs s) (sc_outs (mcxn_syscon_reset s))"
    by (simp add: mcxn_syscon_reset_def Let_def up)
  show "clock_extends (sc_outs s) (sc_outs (syscon_main_loop s))" by simp
  show "clock_extends (sc_outs s) (sc_outs (syscon_clock_in c p s))"
    by (simp add: syscon_clock_in_def clock_propagate_to_def mcxn_syscon_src_changed_def up)
qed

lemma sc_in_clock_in [simp]: "sc_in (syscon_clock_in c p s) = (sc_in s)(c := p)"
  by (auto simp: syscon_clock_in_def clock_propagate_to_def mcxn_syscon_src_changed_def)

lemma scg_child_not_sys: "l \<in> set (scg_children c) \<Longrightarrow> \<forall>d. l \<notin> set (sys_children d)"
  using scg_child_source [of l c] sys_child_source [of l] by fastforce

lemma scg_child_unique: "l \<in> set (scg_children c) \<Longrightarrow> l \<in> set (scg_children d) \<longleftrightarrow> d = c"
  using scg_child_source [of l c] scg_child_source [of l d] by auto

lemma tree_propagate_scg_linked:
  "sys_linked t \<Longrightarrow> sys_linked (tree_propagate (scg_children c) p t)"
  using scg_child_not_sys by (auto simp: sys_linked_def)

lemma tree_scg_call_keeps:
  "tree_scg (tree_scg_call (c, p) t) = tree_scg t"
  "sc_in (tree_syscon (tree_scg_call (c, p) t)) = (sc_in (tree_syscon t))(c := p)"
  "sys_linked t \<Longrightarrow> sys_linked (tree_scg_call (c, p) t)"
  "syscon.settled (tree_syscon t) \<Longrightarrow> syscon.settled (tree_syscon (tree_scg_call (c, p) t))"
  "l \<in> set (scg_children d) \<Longrightarrow> tree_leaf (tree_scg_call (c, p) t) l = (if d = c then p else tree_leaf t l)"
  by (simp_all add: tree_scg_call_def Let_def tree_set_syscon_linked tree_propagate_scg_linked syscon_op_extends
      syscon_clock_in_settled tree_set_syscon_other [OF scg_child_not_sys] scg_child_unique eq_commute)

lemma tree_scg_calls_keep:
  "tree_scg (fold tree_scg_call calls t) = tree_scg t"
  "sc_in (tree_syscon (fold tree_scg_call calls t)) = clock_deliver calls (sc_in (tree_syscon t))"
  "sys_linked t \<Longrightarrow> sys_linked (fold tree_scg_call calls t)"
  "syscon.settled (tree_syscon t) \<Longrightarrow> syscon.settled (tree_syscon (fold tree_scg_call calls t))"
  by (induction calls arbitrary: t) (auto simp: tree_scg_call_keeps)

lemma tree_scg_calls_leaf:
  "l \<in> set (scg_children d) \<Longrightarrow>
     tree_leaf (fold tree_scg_call calls t) l = clock_deliver calls (\<lambda>_. tree_leaf t l) d"
proof (induction calls rule: rev_induct)
  case (snoc call calls)
  then show ?case by (cases call) (simp add: tree_scg_call_keeps(5))
qed simp

lemma tree_set_scg_linked:
  assumes "scg_linked t" and "clock_extends (scg_outs (tree_scg t)) (scg_outs s)"
  shows "scg_linked (tree_set_scg s t)"
proof -
  note follow = clock_extends_follow [OF assms(2)]
  have "sc_in (tree_syscon (tree_set_scg s t)) c = period (scg_outs s) c" for c
    using follow [of "sc_in (tree_syscon t)" c] assms(1)
    by (simp add: tree_set_scg_def tree_scg_calls_keep scg_linked_def)
  moreover have "tree_leaf (tree_set_scg s t) l = period (scg_outs s) c" if l: "l \<in> set (scg_children c)" for l c
    using follow [of "\<lambda>_. tree_leaf t l" c] assms(1) l
    by (simp add: tree_set_scg_def tree_scg_calls_leaf [OF l] scg_linked_def)
  ultimately show ?thesis by (simp add: scg_linked_def tree_set_scg_def tree_scg_calls_keep)
qed

lemma tree_set_scg_simps [simp]: "tree_scg (tree_set_scg s t) = s"
  by (simp add: tree_set_scg_def tree_scg_calls_keep)

section \<open>The whole tree follows the registers\<close>

definition tree_linked :: "clock_tree \<Rightarrow> bool" where
  "tree_linked t \<longleftrightarrow> scg_linked t \<and> sys_linked t"

definition tree_settled :: "clock_tree \<Rightarrow> bool" where
  "tree_settled t \<longleftrightarrow> tree_linked t \<and> scg.settled (tree_scg t) \<and> syscon.settled (tree_syscon t)"

lemma tree_set_scg_keeps:
  assumes "tree_linked t" and "clock_extends (scg_outs (tree_scg t)) (scg_outs s)"
  shows "tree_linked (tree_set_scg s t)"
    and "syscon.settled (tree_syscon t) \<Longrightarrow> syscon.settled (tree_syscon (tree_set_scg s t))"
proof -
  have "sys_linked (t\<lparr>tree_scg := s\<rparr>)" using assms(1) by (simp add: tree_linked_def sys_linked_def)
  then show "tree_linked (tree_set_scg s t)"
    using tree_set_scg_linked [OF _ assms(2)] assms(1)
    by (simp add: tree_linked_def) (simp add: tree_set_scg_def tree_scg_calls_keep)
  show "syscon.settled (tree_syscon t) \<Longrightarrow> syscon.settled (tree_syscon (tree_set_scg s t))"
    by (simp add: tree_set_scg_def tree_scg_calls_keep)
qed

lemma tree_set_syscon_keeps:
  assumes "tree_linked t" and "clock_extends (sc_outs (tree_syscon t)) (sc_outs s)"
    and "sc_in s = sc_in (tree_syscon t)"
  shows "tree_linked (tree_set_syscon s t)"
  using assms tree_set_syscon_linked [OF _ assms(2)] scg_child_not_sys
  by (simp add: tree_linked_def scg_linked_def tree_set_syscon_other)

lemma syscon_op_in [simp]:
  "sc_in (mcxn_syscon_write s off v) = sc_in s" "sc_in (mcxn_syscon_reset s) = sc_in s"
  by (simp_all add: mcxn_syscon_write_def mcxn_syscon_reset_def syscon_alias_def mcxn_syscon_update_cpu1_def Let_def
      split: option.split)

lemma tree_step_linked: "tree_linked t \<Longrightarrow> tree_linked (tree_step op t)"
  by (cases op) (simp_all add: tree_set_scg_keeps scg_op_extends tree_set_syscon_keeps syscon_op_extends)

lemma tree_step_settled: "tree_settled t \<Longrightarrow> tree_settled (tree_step op t)"
  unfolding tree_settled_def
  by (cases op) (simp_all add: tree_set_scg_keeps scg_op_extends tree_set_syscon_keeps syscon_op_extends
      scg_write_settled scg_reset_settled syscon_write_settled syscon_reset_settled syscon_main_loop_settled
      mod_eq_0_iff_dvd)

lemma tree_realized_linked: "tree_linked tree_realized"
  by (simp add: tree_linked_def scg_linked_def sys_linked_def tree_realized_def syscon_example_def)

lemma tree_power_on_settled: "tree_settled tree_power_on"
proof -
  have "tree_linked tree_power_on" by (simp add: tree_power_on_def tree_step_linked tree_realized_linked del: tree_step.simps)
  then show ?thesis
    by (simp add: tree_settled_def tree_power_on_def scg_reset_settled syscon_reset_settled)
qed

interpretation clocks: total_device tree_step tree_settled
  by unfold_locales (rule tree_step_settled)

lemmas tree_run_settled = clocks.fold_good

text \<open>The frequency the driver computes for the clock behind a device input.\<close>

definition sdk_leaf_hz :: "clock_tree \<Rightarrow> clock_leaf \<Rightarrow> nat" where
  "sdk_leaf_hz t l =
     (let hz = sdk_scg_hz (scg_regs (tree_scg t)) in
      case leaf_source l of Inl c \<Rightarrow> hz c | Inr c \<Rightarrow> sdk_sys_hz (sc_regs (tree_syscon t)) hz c)"

text \<open>No PLL is programmed beyond 2 GHz, where the period resolution still tells frequencies apart.\<close>

definition pll_in_range :: "clock_tree \<Rightarrow> bool" where
  "pll_in_range t \<longleftrightarrow>
     sdk_pll_hz (scg_regs (tree_scg t)) SCG_APLLCSR \<le> 2000000000
     \<and> sdk_pll_hz (scg_regs (tree_scg t)) SCG_SPLLCSR \<le> 2000000000"

lemma hz_exact:
  assumes "h \<le> 2000000000"
  shows "unat (clock_get_hz (CLOCK_PERIOD_FROM_HZ (of_nat h))) = h"
proof -
  have "unat (of_nat h :: u32) = h" using assms by (simp add: unat_of_nat)
  then show ?thesis using clock_get_hz_from_hz [of "of_nat h"] assms by simp
qed

lemma sdk_scg_bound: "pll_in_range t \<Longrightarrow> sdk_scg_hz (scg_regs (tree_scg t)) c \<le> 2000000000"
  by (cases c) (simp_all add: pll_in_range_def sdk_fro12m_hz_def sdk_frohf_hz_def sdk_main_hz_def
      sdk_ext_hz_def sdk_osc32k_hz_def Let_def)

lemma sdk_divided_bound: "hz \<le> b \<Longrightarrow> sdk_divided_hz d hz \<le> b"
  by (simp add: sdk_divided_hz_def order.trans [OF div_le_dividend])

lemma sdk_sys_bound:
  assumes hz: "\<And>c. hz c \<le> b" and b: "1000000 \<le> b"
  shows "sdk_sys_hz r hz c \<le> b"
proof -
  have dv: "hz c div n \<le> b" for c n using div_le_dividend hz by (rule order.trans)
  have audio: "sdk_audio_hz r hz sel \<le> b" for sel
    using hz dv by (simp add: sdk_audio_hz_def sdk_pll1_div_hz_def)
  show ?thesis
    using hz b dv audio by (cases c) (simp_all add: sdk_divided_bound sdk_pll1_div_hz_def Let_def)
qed

lemma tree_settled_leaf:
  assumes "tree_settled t" and "pll_in_range t" and "l \<in> tree_leaves"
  shows "unat (clock_get_hz (tree_leaf t l)) = sdk_leaf_hz t l"
proof -
  let ?hz = "sdk_scg_hz (scg_regs (tree_scg t))"
  note scg = hz_exact [OF sdk_scg_bound [OF assms(2)]]
  have out: "period (scg_outs (tree_scg t)) c = CLOCK_PERIOD_FROM_HZ (of_nat (?hz c))" for c
    using assms(1) by (simp add: tree_settled_def scg.settled_def)
  have ins: "syscon_source_hz (tree_syscon t) = ?hz"
    using assms(1) by (simp add: tree_settled_def tree_linked_def scg_linked_def out scg)
  from assms(3) consider c where "l \<in> set (scg_children c)" | c where "c \<in> sys_clocks" "l \<in> set (sys_children c)"
    by (auto simp: tree_leaves_def)
  then show ?thesis
  proof cases
    case (1 c)
    then show ?thesis using assms(1) scg_child_source [of l c]
      by (simp add: tree_settled_def tree_linked_def scg_linked_def sdk_leaf_hz_def out scg Let_def)
  next
    case (2 c)
    have "tree_leaf t l = CLOCK_PERIOD_FROM_HZ (of_nat (sdk_sys_hz (sc_regs (tree_syscon t)) ?hz c))"
      using assms(1) 2 ins by (simp add: tree_settled_def tree_linked_def sys_linked_def syscon.settled_def)
    moreover have "sdk_sys_hz (sc_regs (tree_syscon t)) ?hz c \<le> 2000000000"
      using sdk_scg_bound [OF assms(2)] by (rule sdk_sys_bound) simp
    ultimately show ?thesis using sys_child_source [OF 2(2)] by (simp add: hz_exact sdk_leaf_hz_def)
  qed
qed

section \<open>Properties\<close>


lemma tree_scg_calls_regs [simp]: "sc_regs (tree_syscon (fold tree_scg_call calls t)) = sc_regs (tree_syscon t)"
  by (induction calls arbitrary: t)
     (auto simp: tree_scg_call_def Let_def syscon_clock_in_def clock_propagate_to_def mcxn_syscon_src_changed_def)

lemma tree_set_scg_regs [simp]: "sc_regs (tree_syscon (tree_set_scg s t)) = sc_regs (tree_syscon t)"
  by (simp add: tree_set_scg_def)

lemma tree_power_on_regs:
  "scg_regs (tree_scg tree_power_on) = scg_regs (mcxn_scg_reset (tree_scg tree_realized))"
  "sc_regs (tree_syscon tree_power_on) =
     fold (\<lambda>i r. r(SYSCON_CTIMERCLKSEL0 div 4 + i := 7)) [0..<CTIMER_COUNT]
       (fold (\<lambda>(off, val) r. r(off div 4 := val)) syscon_reset (\<lambda>_. 0))"
  by (simp_all add: tree_power_on_def mcxn_syscon_reset_def Let_def)

text \<open>FRO_HF attached to CTIMER0, and the range of FRO_HF written after that.\<close>

abbreviation (input) ctimer_attached :: "u32 \<Rightarrow> tree_op list" where
  "ctimer_attached v \<equiv> [Syscon_write SYSCON_CTIMERCLKSEL0 3, Scg_write SCG_FIRCCFG v]"

lemma ctimer_attached_rate:
  fixes t v defines "t \<equiv> fold tree_step (ctimer_attached v) tree_power_on"
  shows "sdk_leaf_hz t (Ctimer_in 0) = (if bit v 0 then 144000000 else 48000000)" "pll_in_range t"
proof -
  have scg: "scg_regs (tree_scg t) = (scg_regs (mcxn_scg_reset (tree_scg tree_realized)))(SCG_FIRCCFG div 4 := v)"
    by (simp add: t_def mcxn_scg_write_def scg_derives_clocks_def Let_def tree_power_on_regs)
  have sys: "sc_regs (tree_syscon t) (SYSCON_CTIMERCLKSEL0 div 4) = 3" "sc_regs (tree_syscon t) (SYSCON_CTIMERCLKDIV0 div 4) = 0"
    by (simp_all add: t_def mcxn_syscon_write_def in_range_def syscon_derives_clocks_def Let_def tree_power_on_regs
        syscon_reset_def upt_syscon)
  show "sdk_leaf_hz t (Ctimer_in 0) = (if bit v 0 then 144000000 else 48000000)"
    using sys by (simp add: sdk_leaf_hz_def Let_def scg sdk_divided_hz_def sdk_frohf_hz_def mcxn_scg_reset_def
        reg_field_def bit_flag_iff)
  show "pll_in_range t"
    by (simp add: pll_in_range_def scg sdk_pll_hz_def mcxn_scg_reset_def)
qed

lemma ctimer_leaf: "n < 5 \<Longrightarrow> Ctimer_in n \<in> tree_leaves"
  unfolding tree_leaves_def sys_clocks_def by (auto intro!: bexI [of _ "Ctimer_clk n"])




text \<open>
  C0: A timer whose clock is not attached does not stop, it stops the emulator: at power-on, and
  whenever the clock registers give it no clock, starting a CTIMER that has a match action divides
  by the frequency 0.
\<close>

theorem soc_unattached_ctimer_faults:
  assumes "t = fold tree_step ops tree_power_on" and "pll_in_range t" and "n < 5"
    and "sdk_leaf_hz t (Ctimer_in n) = 0"
    and "ct_clk s = Some (clock_get_hz (tree_leaf t (Ctimer_in n)))"
    and "\<not> ctimer_running s" and "ctimer_active s f"
  shows "ctimer_write s now CTIMER_TCR 1 = Inl Div_by_zero"
proof -
  have "unat (clock_get_hz (tree_leaf t (Ctimer_in n))) = 0"
    unfolding assms(4) [symmetric] assms(1) using assms(1,2) ctimer_leaf [OF assms(3)]
    by (intro tree_settled_leaf) (simp_all add: tree_run_settled tree_power_on_settled)
  then have "ctimer_freq s = 0" using assms(5) by (simp add: ctimer_freq_def unat_eq_zero)
  then show ?thesis using assms(6,7) ctimer_start_fails_iff by blast
qed

lemma tree_power_on_unattached:
  "n < 5 \<Longrightarrow> sdk_leaf_hz tree_power_on (Ctimer_in n) = 0" "pll_in_range tree_power_on"
proof -
  have "sc_regs (tree_syscon tree_power_on) (SYSCON_CTIMERCLKSEL0 div 4 + n) = 7" if "n < 5"
  proof -
    from that have "n \<in> {0, 1, 2, 3, 4}" by auto
    then show ?thesis unfolding tree_power_on_regs upt_syscon by (auto simp only: fold_simps) simp_all
  qed
  then show "n < 5 \<Longrightarrow> sdk_leaf_hz tree_power_on (Ctimer_in n) = 0"
    by (simp add: sdk_leaf_hz_def sdk_divided_hz_def reg_field_def Let_def)
  show "pll_in_range tree_power_on"
    by (simp add: pll_in_range_def sdk_pll_hz_def mcxn_scg_reset_def tree_power_on_regs)
qed

theorem soc_unattached_ctimer_faults_witness:
  "ctimer_write ((ctimer_example 0 3)\<lparr>ct_clk := Some (clock_get_hz (tree_leaf tree_power_on (Ctimer_in 2)))\<rparr>) 0 CTIMER_TCR 1
     = Inl Div_by_zero"
proof (rule soc_unattached_ctimer_faults [of tree_power_on "[]" 2 _ 0])
  show "sdk_leaf_hz tree_power_on (Ctimer_in 2) = 0" "pll_in_range tree_power_on"
    by (simp_all add: tree_power_on_unattached)
qed (use ctimer_example_set_up(1) in \<open>simp_all add: ctimer_set_up_def ctimer_sole_def ctimer_active_def ctimer_running_def tree_power_on_def\<close>)

text \<open>
  Migration carries the registers of the two devices, not the periods of their clocks, and neither
  device derives its clocks again when a state is loaded; the destination has been reset before.
\<close>

definition tree_load :: "clock_tree \<Rightarrow> clock_tree \<Rightarrow> clock_tree" where
  "tree_load src dst =
     dst\<lparr>tree_scg := (tree_scg dst)\<lparr>scg_regs := scg_regs (tree_scg src)\<rparr>,
         tree_syscon := (tree_syscon dst)\<lparr>sc_regs := sc_regs (tree_syscon src),
            sc_cpuctrl := sc_cpuctrl (tree_syscon src), sc_cpboot := sc_cpboot (tree_syscon src),
            sc_cpu1_running := sc_cpu1_running (tree_syscon src)\<rparr>\<rparr>"

lemma ctimer_tick_unclocked:
  assumes "ctimer_freq s = 0" and "ctimer_running s" and "ct_pr s \<noteq> NOT 0" and "ctimer_active s f"
    and stop: "\<forall>n < 4. \<not> tst (ct_mcr s) (MCR_STOP n)"
  shows "ctimer_tick s now = Inl Div_by_zero"
proof -
  have "ctimer_peek s now \<noteq> Inl e" for e using assms(3) by (simp add: ctimer_peek_fails_iff)
  then obtain tc pc where "ctimer_peek s now = Inr (tc, pc)" by (metis sum.exhaust surj_pair)
  then have sync: "ctimer_sync s now = Inr (s\<lparr>ct_tc := tc, ct_pc := pc, ct_base_ns := now\<rparr>)" (is "_ = Inr ?s1")
    by (simp add: ctimer_sync_def)
  have "ctimer_active ?s1 f" using assms(4) by (simp add: ctimer_active_def)
  then obtain g where g: "ctimer_fire ?s1 = Some g" using ctimer_fire_nearest [of ?s1] by blast
  let ?m = "ctimer_matched ?s1 g now"
  have "ctimer_running ?m" using assms(2) stop
    by (auto simp: ctimer_running_def ctimer_matched_def Let_def simp del: upt_rec_numeral)
  moreover have "ctimer_freq ?m = 0" using assms(1) by (simp add: ctimer_freq_def)
  moreover have "ctimer_active ?m f" using assms(4) by (simp add: ctimer_active_def)
  ultimately show ?thesis unfolding ctimer_tick_fires [OF sync g] ctimer_reschedule_fails_iff by blast
qed

text \<open>
  C0: A migrated machine loses its clocks.  After a load into a freshly reset machine the registers
  are those of the source, so the driver derives the same frequency for every device as on the
  source, but every CTIMER has the clock of the power-on state, which is none; the first callback of
  a running CTIMER whose matches do not stop it divides by that frequency.
\<close>

theorem clock_tree_migration_loses_clocks:
  assumes "src = fold tree_step ops tree_power_on" and "dst = tree_load src tree_power_on" and "n < 5"
    and "ct_clk s = Some (clock_get_hz (tree_leaf dst (Ctimer_in n)))"
    and "ctimer_running s" and "ct_pr s \<noteq> NOT 0" and "ctimer_active s f"
    and "\<forall>n < 4. \<not> tst (ct_mcr s) (MCR_STOP n)"
  shows "sdk_leaf_hz dst l = sdk_leaf_hz src l \<and> ctimer_tick s now = Inl Div_by_zero"
proof
  show "sdk_leaf_hz dst l = sdk_leaf_hz src l" by (simp add: assms(2) tree_load_def sdk_leaf_hz_def Let_def split: sum.split)
  have "unat (clock_get_hz (tree_leaf tree_power_on (Ctimer_in n))) = 0"
    using tree_settled_leaf [OF tree_power_on_settled tree_power_on_unattached(2) ctimer_leaf [OF assms(3)]]
      tree_power_on_unattached(1) [OF assms(3)] by simp
  then have "ctimer_freq s = 0" using assms(4) by (simp add: assms(2) tree_load_def ctimer_freq_def unat_eq_zero)
  then show "ctimer_tick s now = Inl Div_by_zero" using assms(5-8) by (rule ctimer_tick_unclocked)
qed

theorem clock_tree_migration_loses_clocks_witness:
  "let src = fold tree_step (ctimer_attached 0) tree_power_on; dst = tree_load src tree_power_on in
   sdk_leaf_hz dst (Ctimer_in 0) = 48000000
   \<and> ctimer_tick ((ctimer_example 1 3)\<lparr>ct_clk := Some (clock_get_hz (tree_leaf dst (Ctimer_in 0)))\<rparr>) 1000
       = Inl Div_by_zero"
proof -
  define src where "src = fold tree_step (ctimer_attached 0) tree_power_on"
  define dst where "dst = tree_load src tree_power_on"
  define s where "s = (ctimer_example 1 3)\<lparr>ct_clk := Some (clock_get_hz (tree_leaf dst (Ctimer_in 0)))\<rparr>"
  have rate: "sdk_leaf_hz src (Ctimer_in 0) = 48000000"
    using ctimer_attached_rate(1) [of 0] unfolding src_def by (simp only: bit_0_eq bot_apply if_False bot_bool_def)
  have s: "ct_clk s = Some (clock_get_hz (tree_leaf dst (Ctimer_in 0)))" "ctimer_running s" "ct_pr s \<noteq> NOT 0"
    "ctimer_active s 0" "\<forall>n < 4. \<not> tst (ct_mcr s) (MCR_STOP n)"
    by (simp_all add: s_def ctimer_example_def ctimer_running_def ctimer_active_def MCR_ANY_def tst_or all_less_4)
  from clock_tree_migration_loses_clocks [OF src_def dst_def _ s, of "Ctimer_in 0" 1000]
  show ?thesis unfolding Let_def src_def [symmetric] dst_def [symmetric] s_def [symmetric] by (simp add: rate)
qed

end
