(* ===== verification/Mcxn_Rtc.thy ===== *)
theory Mcxn_Rtc
  imports Mcxn_Interfaces
begin

unbundle bit_operations_syntax

text \<open>
  The real-time clock (\<^verbatim>\<open>hw/misc/mcxn_rtc.c\<close>): 16-bit calendar, alarm, status and interrupt registers that
  share 32-bit backing words in pairs, the tick of one second with its carries, and the alarm.
\<close>

section \<open>Model\<close>

record MCXNRTCState =
  rtc_lines :: "unit irq_log"
  rtc_timer :: "int option"
  rtc_next_tick_ns :: int
  rtc_regs :: "nat \<Rightarrow> u32"

abbreviation (input) R_YEARMON :: nat where "R_YEARMON \<equiv> 0x00"
abbreviation (input) R_DAYS :: nat where "R_DAYS \<equiv> 0x02"
abbreviation (input) R_HOURMIN :: nat where "R_HOURMIN \<equiv> 0x04"
abbreviation (input) R_SECONDS :: nat where "R_SECONDS \<equiv> 0x06"
abbreviation (input) R_ALM_YEARMON :: nat where "R_ALM_YEARMON \<equiv> 0x08"
abbreviation (input) R_ALM_DAYS :: nat where "R_ALM_DAYS \<equiv> 0x0A"
abbreviation (input) R_ALM_HOURMIN :: nat where "R_ALM_HOURMIN \<equiv> 0x0C"
abbreviation (input) R_ALM_SECONDS :: nat where "R_ALM_SECONDS \<equiv> 0x0E"
abbreviation (input) RTC_CTRL :: nat where "RTC_CTRL \<equiv> 0x10"
abbreviation (input) RTC_ISR :: nat where "RTC_ISR \<equiv> 0x14"
abbreviation (input) RTC_IER :: nat where "RTC_IER \<equiv> 0x16"
abbreviation (input) R_SUBSECOND_CNT :: nat where "R_SUBSECOND_CNT \<equiv> 0x804"
abbreviation (input) R_WAKE_TIMER_CTRL :: nat where "R_WAKE_TIMER_CTRL \<equiv> 0xC00"
abbreviation (input) R_WAKE_TIMER_CNT :: nat where "R_WAKE_TIMER_CNT \<equiv> 0xC0C"
abbreviation (input) CTRL_SWR :: u16 where "CTRL_SWR \<equiv> flag 8"
abbreviation (input) ISR_W1C_MASK :: u16 where "ISR_W1C_MASK \<equiv> 0xFFFC"
abbreviation (input) ISR_ALM_IS :: u32 where "ISR_ALM_IS \<equiv> flag 2"
abbreviation (input) ISR_IS_1HZ :: u32 where "ISR_IS_1HZ \<equiv> flag 6"
abbreviation (input) SEC_MASK :: u16 where "SEC_MASK \<equiv> 0x003F"
abbreviation (input) MIN_MASK :: u16 where "MIN_MASK \<equiv> 0x003F"
abbreviation (input) HOUR_MASK :: u16 where "HOUR_MASK \<equiv> 0x1F00"
abbreviation (input) HM_MASK :: u16 where "HM_MASK \<equiv> HOUR_MASK OR MIN_MASK"
abbreviation (input) DAY_MASK :: u16 where "DAY_MASK \<equiv> 0x001F"
abbreviation (input) MON_MASK :: u16 where "MON_MASK \<equiv> 0x000F"
abbreviation (input) WAKE_TIMER_WAKE_FLAG :: u32 where "WAKE_TIMER_WAKE_FLAG \<equiv> flag 1"

definition mcxn_rtc_is_16bit :: "nat \<Rightarrow> bool" where
  "mcxn_rtc_is_16bit offset \<longleftrightarrow> offset < 0x800"

text \<open>One 16-bit register of a backing word: the half at an offset, and its replacement.\<close>

definition half_of :: "nat \<Rightarrow> u32 \<Rightarrow> u16" where
  "half_of off word = (if odd (off div 2) then ucast (drop_bit 16 word) else ucast word)"

definition merge_half :: "nat \<Rightarrow> u16 \<Rightarrow> u32 \<Rightarrow> u32" where
  "merge_half off val word =
     (if odd (off div 2) then (word AND 0x0000FFFF) OR push_bit 16 (ucast val)
      else (word AND 0xFFFF0000) OR ucast val)"

definition rtc_get16 :: "MCXNRTCState \<Rightarrow> nat \<Rightarrow> u16" where
  "rtc_get16 s off = half_of off (rtc_regs s (off div 4))"

definition rtc_set16 :: "nat \<Rightarrow> u16 \<Rightarrow> MCXNRTCState \<Rightarrow> MCXNRTCState" where
  "rtc_set16 off val s =
     s\<lparr>rtc_regs := (rtc_regs s)(off div 4 := merge_half off val (rtc_regs s (off div 4)))\<rparr>"

definition mcxn_rtc_update_irq :: "MCXNRTCState \<Rightarrow> MCXNRTCState" where
  "mcxn_rtc_update_irq s =
     (let word = rtc_regs s (RTC_ISR div 4); isr = ucast word :: u16; ier = ucast (drop_bit 16 word) :: u16
      in s\<lparr>rtc_lines := qemu_set_irq () (isr AND ier \<noteq> 0) (rtc_lines s)\<rparr>)"

definition rtc_or_isr :: "u32 \<Rightarrow> MCXNRTCState \<Rightarrow> MCXNRTCState" where
  "rtc_or_isr f s = s\<lparr>rtc_regs := (rtc_regs s)(RTC_ISR div 4 := rtc_regs s (RTC_ISR div 4) OR f)\<rparr>"

definition rtc_alarm_match :: "MCXNRTCState \<Rightarrow> bool" where
  "rtc_alarm_match s \<longleftrightarrow>
     rtc_get16 s R_SECONDS AND SEC_MASK = rtc_get16 s R_ALM_SECONDS AND SEC_MASK
     \<and> rtc_get16 s R_HOURMIN AND HM_MASK = rtc_get16 s R_ALM_HOURMIN AND HM_MASK
     \<and> rtc_get16 s R_DAYS AND DAY_MASK = rtc_get16 s R_ALM_DAYS AND DAY_MASK
     \<and> rtc_get16 s R_YEARMON AND MON_MASK = rtc_get16 s R_ALM_YEARMON AND MON_MASK"

text \<open>The carries of the tick, on the unsigned locals of the function.\<close>

definition rtc_carry :: "u32 \<Rightarrow> u32 \<Rightarrow> u32 \<Rightarrow> u32 \<Rightarrow> u32 \<times> u32 \<times> u32 \<times> u32" where
  "rtc_carry sec mins hour day =
     (if sec + 1 \<ge> 60 then
        if mins + 1 \<ge> 60 then
          if hour + 1 \<ge> 24 then (0, 0, 0, day + 1)
          else (0, 0, hour + 1, day)
        else (0, mins + 1, hour, day)
      else (sec + 1, mins, hour, day))"

definition mcxn_rtc_tick :: "MCXNRTCState \<Rightarrow> MCXNRTCState" where
  "mcxn_rtc_tick s =
     (let hm = rtc_get16 s R_HOURMIN;
          sec = ucast (rtc_get16 s R_SECONDS AND SEC_MASK);
          mins = ucast (hm AND MIN_MASK);
          hour = ucast (drop_bit 8 (hm AND HOUR_MASK));
          days = rtc_get16 s R_DAYS;
          day = ucast (days AND DAY_MASK);
          (sec, mins, hour, day) = rtc_carry sec mins hour day;
          s = rtc_set16 R_SECONDS (ucast sec AND SEC_MASK) s;
          s = rtc_set16 R_HOURMIN (ucast (push_bit 8 hour OR mins)) s;
          s = rtc_set16 R_DAYS ((days AND NOT DAY_MASK) OR (ucast day AND DAY_MASK)) s;
          s = rtc_or_isr ISR_IS_1HZ s;
          s = (if rtc_alarm_match s then rtc_or_isr ISR_ALM_IS s else s);
          s = mcxn_rtc_update_irq s;
          next = rtc_next_tick_ns s + 1000000000
      in s\<lparr>rtc_next_tick_ns := next, rtc_timer := Some next\<rparr>)"

definition mcxn_rtc_read :: "MCXNRTCState \<Rightarrow> nat \<Rightarrow> nat \<Rightarrow> u32" where
  "mcxn_rtc_read s offset sz =
     (let word = rtc_regs s (offset div 4)
      in if mcxn_rtc_is_16bit offset \<and> sz \<le> 2 then ucast (half_of offset word) else word)"

definition mcxn_rtc_write :: "MCXNRTCState \<Rightarrow> nat \<Rightarrow> u32 \<Rightarrow> MCXNRTCState" where
  "mcxn_rtc_write s offset v =
     (if mcxn_rtc_is_16bit offset then
        let reg = 2 * (offset div 2);
            word = rtc_regs s (reg div 4);
            half = ucast v :: u16;
            half = (if reg = RTC_CTRL then (if tst half CTRL_SWR then half AND NOT CTRL_SWR else half)
                    else if reg = RTC_ISR then ucast word AND NOT (half AND ISR_W1C_MASK)
                    else half)
        in mcxn_rtc_update_irq (s\<lparr>rtc_regs := (rtc_regs s)(reg div 4 := merge_half reg half word)\<rparr>)
      else if offset = R_SUBSECOND_CNT \<or> offset = R_WAKE_TIMER_CNT then s
      else if offset = R_WAKE_TIMER_CTRL then
        let old = rtc_regs s (offset div 4);
            old' = (if tst v WAKE_TIMER_WAKE_FLAG then old AND NOT WAKE_TIMER_WAKE_FLAG else old);
            v = (if tst v WAKE_TIMER_WAKE_FLAG then v AND NOT WAKE_TIMER_WAKE_FLAG else v)
        in s\<lparr>rtc_regs := (rtc_regs s)(offset div 4 := (old' AND WAKE_TIMER_WAKE_FLAG) OR v)\<rparr>
      else s\<lparr>rtc_regs := (rtc_regs s)(offset div 4 := v)\<rparr>)"

definition mcxn_rtc_set_reset :: "(nat \<Rightarrow> u32) \<Rightarrow> nat \<Rightarrow> nat \<Rightarrow> u32 \<Rightarrow> nat \<Rightarrow> u32" where
  "mcxn_rtc_set_reset regs off width val =
     (let shift = (off mod 4) * 8;
          mask = (if width = 8 then 0xFF else if width = 16 then 0xFFFF else 0xFFFFFFFF)
      in regs(off div 4 := (regs (off div 4) AND NOT (push_bit shift mask)) OR push_bit shift (val AND mask)))"

definition mcxn_rtc_reset :: "MCXNRTCState \<Rightarrow> MCXNRTCState" where
  "mcxn_rtc_reset s =
     s\<lparr>rtc_regs := mcxn_rtc_set_reset (\<lambda>_. 0) 0x002 16 1, rtc_lines := qemu_set_irq () False (rtc_lines s)\<rparr>"

definition mcxn_rtc_realize :: "int \<Rightarrow> MCXNRTCState" where
  "mcxn_rtc_realize now =
     \<lparr>rtc_lines = [], rtc_timer = Some (now + 1000000000), rtc_next_tick_ns = now + 1000000000, rtc_regs = \<lambda>_. 0\<rparr>"

definition mcxn_rtc_post_load :: "MCXNRTCState \<Rightarrow> MCXNRTCState" where
  "mcxn_rtc_post_load s = mcxn_rtc_update_irq s"

text \<open>The migrated fields: the registers and the timer, not the deadline the tick counts on from.\<close>

definition rtc_load :: "MCXNRTCState \<Rightarrow> MCXNRTCState \<Rightarrow> MCXNRTCState" where
  "rtc_load src dst = mcxn_rtc_post_load (dst\<lparr>rtc_regs := rtc_regs src, rtc_timer := rtc_timer src\<rparr>)"

section \<open>Halves of a word\<close>

lemma half_masks: "(0x0000FFFF :: u32) = mask 16" "(0xFFFF0000 :: u32) = NOT (mask 16)"
  by (simp_all add: mask_eq_exp_minus_1 not_eq_complement)

lemma half_merge [simp]: "half_of off (merge_half off v w) = v"
  unfolding half_of_def merge_half_def half_masks
  by (rule bit_word_eqI) (auto simp: bit_simps dest: bit_imp_le_length)

lemma half_merge_other:
  "odd (off div 2) \<noteq> odd (off' div 2) \<Longrightarrow> half_of off (merge_half off' v w) = half_of off w"
  unfolding half_of_def merge_half_def half_masks
  by (rule bit_word_eqI) (auto simp: bit_simps dest: bit_imp_le_length)

lemma get_set16:
  assumes "even off" and "even off'"
  shows "rtc_get16 (rtc_set16 off' v s) off = (if off = off' then v else rtc_get16 s off)"
proof -
  have "off div 4 = off' div 4 \<Longrightarrow> off \<noteq> off' \<Longrightarrow> odd (off div 2) \<noteq> odd (off' div 2)"
    using assms by presburger
  then show ?thesis by (auto simp: rtc_get16_def rtc_set16_def half_merge_other)
qed

lemma get_or_isr:
  assumes "even off" and "off \<noteq> RTC_ISR" and "drop_bit 16 f = 0"
  shows "rtc_get16 (rtc_or_isr f s) off = rtc_get16 s off"
proof (cases "off div 4 = RTC_ISR div 4")
  case True
  then have "odd (off div 2)" using assms(1,2) by presburger
  then show ?thesis using True assms(3)
    by (simp add: rtc_get16_def rtc_or_isr_def half_of_def drop_bit_or)
next
  case False
  then show ?thesis by (simp add: rtc_get16_def rtc_or_isr_def)
qed

section \<open>Calendar fields\<close>

definition rtc_sec :: "MCXNRTCState \<Rightarrow> nat" where
  "rtc_sec s = unat (rtc_get16 s R_SECONDS AND SEC_MASK)"

definition rtc_min :: "MCXNRTCState \<Rightarrow> nat" where
  "rtc_min s = unat (rtc_get16 s R_HOURMIN AND MIN_MASK)"

definition rtc_hour :: "MCXNRTCState \<Rightarrow> nat" where
  "rtc_hour s = unat (drop_bit 8 (rtc_get16 s R_HOURMIN AND HOUR_MASK))"

definition rtc_day :: "MCXNRTCState \<Rightarrow> nat" where
  "rtc_day s = unat (rtc_get16 s R_DAYS AND DAY_MASK)"

definition rtc_month :: "MCXNRTCState \<Rightarrow> nat" where
  "rtc_month s = unat (rtc_get16 s R_YEARMON AND MON_MASK)"

definition rtc_valid :: "MCXNRTCState \<Rightarrow> bool" where
  "rtc_valid s \<longleftrightarrow> rtc_sec s < 60 \<and> rtc_min s < 60 \<and> rtc_hour s < 24"

text \<open>The time of day in seconds.\<close>

definition rtc_time :: "MCXNRTCState \<Rightarrow> nat" where
  "rtc_time s = (rtc_hour s * 60 + rtc_min s) * 60 + rtc_sec s"

lemma field_masks:
  "(0x003F :: u16) = mask 6" "(0x1F00 :: u16) = push_bit 8 (mask 5)" "(0x001F :: u16) = mask 5"
  "(0x000F :: u16) = mask 4"
  by (simp_all add: mask_eq_exp_minus_1)

lemma unat_up16: "unat (ucast v :: u32) = unat v" for v :: u16
  using unsigned_less [where ?'a = nat, of v] by (simp add: unsigned_ucast_eq take_bit_eq_mod)

lemma hm_fields:
  fixes hour mins :: u32
  assumes "unat hour < 24" and "unat mins < 60"
  shows "unat ((ucast (push_bit 8 hour OR mins) :: u16) AND MIN_MASK) = unat mins"
    and "unat (drop_bit 8 ((ucast (push_bit 8 hour OR mins) :: u16) AND HOUR_MASK)) = unat hour"
proof -
  have m: "bit mins n \<Longrightarrow> n < 6" for n using bit_less_exp [of mins 6 n] assms(2) by simp
  have h: "bit hour n \<Longrightarrow> n < 5" for n using bit_less_exp [of hour 5 n] assms(1) by simp
  have "(ucast ((ucast (push_bit 8 hour OR mins) :: u16) AND MIN_MASK) :: u32) = mins"
    unfolding field_masks by (rule bit_word_eqI) (auto simp: bit_simps dest: m)
  then show "unat ((ucast (push_bit 8 hour OR mins) :: u16) AND MIN_MASK) = unat mins"
    by (metis unat_up16)
  have "(ucast (drop_bit 8 ((ucast (push_bit 8 hour OR mins) :: u16) AND HOUR_MASK)) :: u32) = hour"
    unfolding field_masks by (rule bit_word_eqI) (auto simp: bit_simps dest: m h)
  then show "unat (drop_bit 8 ((ucast (push_bit 8 hour OR mins) :: u16) AND HOUR_MASK)) = unat hour"
    by (metis unat_up16)
qed

lemma hm_eq:
  fixes v w :: u16
  shows "v AND HM_MASK = w AND HM_MASK \<longleftrightarrow>
     unat (v AND MIN_MASK) = unat (w AND MIN_MASK)
     \<and> unat (drop_bit 8 (v AND HOUR_MASK)) = unat (drop_bit 8 (w AND HOUR_MASK))" (is "?l \<longleftrightarrow> ?r")
proof -
  have "?l \<longleftrightarrow> v AND MIN_MASK = w AND MIN_MASK \<and> v AND HOUR_MASK = w AND HOUR_MASK"
    unfolding field_masks by (auto simp: bit_eq_iff bit_simps)
  also have "v AND HOUR_MASK = w AND HOUR_MASK \<longleftrightarrow> drop_bit 8 (v AND HOUR_MASK) = drop_bit 8 (w AND HOUR_MASK)"
  proof -
    have "push_bit 8 (drop_bit 8 (x AND HOUR_MASK)) = x AND HOUR_MASK" for x :: u16
      unfolding field_masks by (rule bit_word_eqI) (auto simp: bit_simps)
    then show ?thesis by metis
  qed
  finally show ?thesis by (simp only: word_unat_eq_iff)
qed

section \<open>One second\<close>

lemma rtc_carry_time:
  assumes "unat sec < 60" and "unat mins < 60" and "unat hour < 24" and "unat day < 32"
    and "rtc_carry sec mins hour day = (sec', mins', hour', day')"
  defines "t \<equiv> (unat hour * 60 + unat mins) * 60 + unat sec + 1"
  shows "unat sec' < 60" and "unat mins' < 60" and "unat hour' < 24"
    and "(unat hour' * 60 + unat mins') * 60 + unat sec' = t mod 86400"
    and "unat day' = unat day + t div 86400"
proof -
  have inc: "unat (x + 1) = unat x + 1" if "unat x < 60" for x :: u32
    using that by (simp add: unat_word_ariths)
  note up = inc [OF assms(1)] inc [OF assms(2)] inc [of hour] inc [of day]
  show "unat sec' < 60" "unat mins' < 60" "unat hour' < 24"
    using assms(1-5) up by (auto simp: rtc_carry_def word_le_nat_alt split: if_splits)
  have "(unat hour' * 60 + unat mins') * 60 + unat sec' = t mod 86400 \<and> unat day' = unat day + t div 86400"
  proof (cases "unat sec = 59 \<and> unat mins = 59 \<and> unat hour = 23")
    case True
    then show ?thesis using assms(4,5) up by (auto simp: rtc_carry_def word_le_nat_alt t_def)
  next
    case False
    have "unat sec \<le> 59" "unat mins \<le> 59" "unat hour \<le> 23" using assms(1-3) by simp_all
    moreover from this have "unat sec \<le> 58 \<or> unat mins \<le> 58 \<or> unat hour \<le> 22" using False by linarith
    ultimately have "t < 86400" unfolding t_def by auto
    then show ?thesis using False assms(1-5) up
      by (auto simp: rtc_carry_def word_le_nat_alt t_def split: if_splits)
  qed
  then show "(unat hour' * 60 + unat mins') * 60 + unat sec' = t mod 86400" "unat day' = unat day + t div 86400"
    by simp_all
qed

text \<open>The calendar part of the tick, and its other effects on top of it.\<close>

definition rtc_advance :: "MCXNRTCState \<Rightarrow> MCXNRTCState" where
  "rtc_advance s =
     (let hm = rtc_get16 s R_HOURMIN; days = rtc_get16 s R_DAYS;
          (sec, mins, hour, day) = rtc_carry (ucast (rtc_get16 s R_SECONDS AND SEC_MASK)) (ucast (hm AND MIN_MASK))
             (ucast (drop_bit 8 (hm AND HOUR_MASK))) (ucast (days AND DAY_MASK))
      in rtc_set16 R_DAYS ((days AND NOT DAY_MASK) OR (ucast day AND DAY_MASK))
          (rtc_set16 R_HOURMIN (ucast (push_bit 8 hour OR mins))
            (rtc_set16 R_SECONDS (ucast sec AND SEC_MASK) s)))"

definition rtc_flagged :: "MCXNRTCState \<Rightarrow> MCXNRTCState" where
  "rtc_flagged s =
     (let s = rtc_or_isr ISR_IS_1HZ s in if rtc_alarm_match s then rtc_or_isr ISR_ALM_IS s else s)"

lemma rtc_tick_eq:
  "mcxn_rtc_tick s =
     (let s = mcxn_rtc_update_irq (rtc_flagged (rtc_advance s)); next = rtc_next_tick_ns s + 1000000000
      in s\<lparr>rtc_next_tick_ns := next, rtc_timer := Some next\<rparr>)"
  by (simp add: mcxn_rtc_tick_def rtc_advance_def rtc_flagged_def Let_def split: prod.split)

lemma drop_flags: "drop_bit 16 (flag 6 :: u32) = 0" "drop_bit 16 (flag 2 :: u32) = 0"
  by (simp_all add: flag_def)

lemma get_flagged: "even off \<Longrightarrow> off \<noteq> RTC_ISR \<Longrightarrow> rtc_get16 (rtc_flagged s) off = rtc_get16 s off"
  by (simp add: rtc_flagged_def Let_def get_or_isr drop_flags)

lemma get_update_irq [simp]: "rtc_get16 (mcxn_rtc_update_irq s) off = rtc_get16 s off"
  by (simp add: mcxn_rtc_update_irq_def Let_def rtc_get16_def)

lemma get_timer_upd [simp]: "rtc_get16 (s\<lparr>rtc_next_tick_ns := x, rtc_timer := y\<rparr>) off = rtc_get16 s off"
  by (simp add: rtc_get16_def)

lemma rtc_tick_get16:
  "even off \<Longrightarrow> off \<noteq> RTC_ISR \<Longrightarrow> rtc_get16 (mcxn_rtc_tick s) off = rtc_get16 (rtc_advance s) off"
  unfolding rtc_tick_eq Let_def by (simp add: get_flagged)

lemma rtc_advance_other:
  "even off \<Longrightarrow> off \<notin> {R_SECONDS, R_HOURMIN, R_DAYS} \<Longrightarrow> rtc_get16 (rtc_advance s) off = rtc_get16 s off"
  by (simp add: rtc_advance_def Let_def get_set16 split: prod.split)

lemma masked_sec: "unat (sec :: u32) < 60 \<Longrightarrow> unat ((ucast sec AND SEC_MASK) AND SEC_MASK :: u16) = unat sec"
proof -
  assume "unat sec < 60"
  then have b: "bit sec n \<Longrightarrow> n < 6" for n using bit_less_exp [of sec 6 n] by simp
  have "(ucast ((ucast sec AND SEC_MASK) AND SEC_MASK :: u16) :: u32) = sec"
    unfolding field_masks by (rule bit_word_eqI) (auto simp: bit_simps dest: b)
  then show ?thesis by (metis unat_up16)
qed

lemma masked_day:
  "unat (((days AND NOT DAY_MASK) OR (ucast (day :: u32) AND DAY_MASK)) AND DAY_MASK :: u16) = unat day mod 32"
proof -
  have "((days AND NOT DAY_MASK) OR (ucast day AND DAY_MASK)) AND DAY_MASK = (take_bit 5 (ucast day) :: u16)"
    unfolding field_masks by (rule bit_word_eqI) (auto simp: bit_simps)
  also have "unat \<dots> = unat day mod 32"
    unfolding unsigned_take_bit_eq unsigned_ucast_eq take_bit_take_bit by (simp add: take_bit_eq_mod)
  finally show ?thesis .
qed

lemma rtc_day_less: "rtc_day s < 32"
proof -
  have "unat (v AND mask 5) < 2 ^ 5" for v :: u16
    by (simp only: take_bit_eq_mask [symmetric] unsigned_take_bit_eq take_bit_nat_less_exp)
  then show ?thesis by (simp add: rtc_day_def field_masks)
qed

lemma rtc_advance_fields:
  assumes "rtc_valid s"
  shows "rtc_valid (rtc_advance s)" and "rtc_time (rtc_advance s) = (rtc_time s + 1) mod 86400"
    and "rtc_day (rtc_advance s) = (rtc_day s + (rtc_time s + 1) div 86400) mod 32"
proof -
  let ?hm = "rtc_get16 s R_HOURMIN"
  obtain sec mins hour day where
    c: "rtc_carry (ucast (rtc_get16 s R_SECONDS AND SEC_MASK)) (ucast (?hm AND MIN_MASK))
          (ucast (drop_bit 8 (?hm AND HOUR_MASK))) (ucast (rtc_get16 s R_DAYS AND DAY_MASK)) = (sec, mins, hour, day)"
    by (metis surj_pair)
  note carry = rtc_carry_time [OF _ _ _ _ c, unfolded unat_up16]
  have v: "unat (rtc_get16 s R_SECONDS AND SEC_MASK) < 60" "unat (?hm AND MIN_MASK) < 60"
    "unat (drop_bit 8 (?hm AND HOUR_MASK)) < 24" "unat (rtc_get16 s R_DAYS AND DAY_MASK) < 32"
    using assms rtc_day_less [of s] by (simp_all only: rtc_valid_def rtc_sec_def rtc_min_def rtc_hour_def rtc_day_def)
  note carry = carry [OF v]
  have g: "rtc_get16 (rtc_advance s) R_SECONDS = ucast sec AND SEC_MASK"
    "rtc_get16 (rtc_advance s) R_HOURMIN = ucast (push_bit 8 hour OR mins)"
    "rtc_get16 (rtc_advance s) R_DAYS = (rtc_get16 s R_DAYS AND NOT DAY_MASK) OR (ucast day AND DAY_MASK)"
    unfolding rtc_advance_def Let_def c prod.case by (simp_all add: get_set16)
  have f: "rtc_sec (rtc_advance s) = unat sec" "rtc_min (rtc_advance s) = unat mins"
    "rtc_hour (rtc_advance s) = unat hour" "rtc_day (rtc_advance s) = unat day mod 32"
    unfolding rtc_sec_def rtc_min_def rtc_hour_def rtc_day_def g
    by (rule masked_sec masked_day hm_fields carry)+
  show "rtc_valid (rtc_advance s)" using carry(1-3) by (simp add: rtc_valid_def f)
  show "rtc_time (rtc_advance s) = (rtc_time s + 1) mod 86400"
    using carry(4) by (simp only: rtc_time_def f) (simp add: rtc_time_def rtc_sec_def rtc_min_def rtc_hour_def)
  show "rtc_day (rtc_advance s) = (rtc_day s + (rtc_time s + 1) div 86400) mod 32"
    using carry(5) by (simp only: f) (simp add: rtc_time_def rtc_sec_def rtc_min_def rtc_hour_def rtc_day_def)
qed

lemma rtc_tick_fields [simp]:
  "rtc_time (mcxn_rtc_tick s) = rtc_time (rtc_advance s)" "rtc_day (mcxn_rtc_tick s) = rtc_day (rtc_advance s)"
  "rtc_valid (mcxn_rtc_tick s) = rtc_valid (rtc_advance s)" "rtc_month (mcxn_rtc_tick s) = rtc_month s"
  by (simp_all add: rtc_time_def rtc_day_def rtc_valid_def rtc_month_def rtc_sec_def rtc_min_def rtc_hour_def
      rtc_tick_get16 rtc_advance_other)

lemma rtc_regs_only [simp]:
  "rtc_next_tick_ns (rtc_set16 off v s) = rtc_next_tick_ns s" "rtc_lines (rtc_set16 off v s) = rtc_lines s"
  "rtc_next_tick_ns (rtc_or_isr f s) = rtc_next_tick_ns s" "rtc_lines (rtc_or_isr f s) = rtc_lines s"
  by (simp_all add: rtc_set16_def rtc_or_isr_def)

lemma rtc_tick_deadline [simp]:
  "rtc_next_tick_ns (mcxn_rtc_tick s) = rtc_next_tick_ns s + 1000000000"
  "rtc_timer (mcxn_rtc_tick s) = Some (rtc_next_tick_ns s + 1000000000)"
  by (simp_all add: rtc_tick_eq Let_def mcxn_rtc_update_irq_def rtc_flagged_def rtc_advance_def split: prod.split)

lemma day_carry:
  fixes a n :: nat
  shows "(a + n) mod 86400 + 1 = x \<Longrightarrow> x mod 86400 = (a + Suc n) mod 86400"
    and "(a + n) mod 86400 + 1 = x \<Longrightarrow> (a + n) div 86400 + x div 86400 = (a + Suc n) div 86400"
proof -
  show "(a + n) mod 86400 + 1 = x \<Longrightarrow> x mod 86400 = (a + Suc n) mod 86400" by (auto simp: mod_simps)
  have "(a + Suc n) div 86400 = ((a + n) mod 86400 + 1 + (a + n) div 86400 * 86400) div 86400" by simp
  also have "\<dots> = (a + n) div 86400 + ((a + n) mod 86400 + 1) div 86400" by (rule div_mult_self1) simp
  finally show "(a + n) mod 86400 + 1 = x \<Longrightarrow> (a + n) div 86400 + x div 86400 = (a + Suc n) div 86400" by simp
qed

lemma rtc_ticks:
  assumes "rtc_valid s"
  shows "rtc_valid ((mcxn_rtc_tick ^^ n) s)
     \<and> rtc_time ((mcxn_rtc_tick ^^ n) s) = (rtc_time s + n) mod 86400
     \<and> rtc_day ((mcxn_rtc_tick ^^ n) s) = (rtc_day s + (rtc_time s + n) div 86400) mod 32"
proof (induction n)
  case 0
  have "rtc_hour s * 60 + rtc_min s \<le> 23 * 60 + 59" using assms by (simp add: rtc_valid_def)
  then have "rtc_time s < 86400" using assms by (simp add: rtc_time_def rtc_valid_def)
  then show ?case using assms rtc_day_less by simp
next
  case (Suc n)
  let ?s = "(mcxn_rtc_tick ^^ n) s"
  from Suc have v: "rtc_valid ?s" and t: "rtc_time ?s = (rtc_time s + n) mod 86400"
    and d: "rtc_day ?s = (rtc_day s + (rtc_time s + n) div 86400) mod 32" by simp_all
  note adv = rtc_advance_fields [OF v] and c = day_carry [OF refl, of "rtc_time s" n]
  have "rtc_day (rtc_advance ?s) = (rtc_day s + ((rtc_time s + n) div 86400 + (rtc_time ?s + 1) div 86400)) mod 32"
    unfolding adv(3) d by (simp only: mod_add_left_eq add.assoc)
  also have "\<dots> = (rtc_day s + (rtc_time s + Suc n) div 86400) mod 32" unfolding t c(2) by (rule refl)
  finally show ?case using adv(1,2) c(1) by (simp add: t)
qed

section \<open>The alarm\<close>

definition rtc_alarm_sec :: "MCXNRTCState \<Rightarrow> nat" where
  "rtc_alarm_sec s = unat (rtc_get16 s R_ALM_SECONDS AND SEC_MASK)"

definition rtc_alarm_min :: "MCXNRTCState \<Rightarrow> nat" where
  "rtc_alarm_min s = unat (rtc_get16 s R_ALM_HOURMIN AND MIN_MASK)"

definition rtc_alarm_hour :: "MCXNRTCState \<Rightarrow> nat" where
  "rtc_alarm_hour s = unat (drop_bit 8 (rtc_get16 s R_ALM_HOURMIN AND HOUR_MASK))"

definition rtc_alarm_time :: "MCXNRTCState \<Rightarrow> nat" where
  "rtc_alarm_time s = (rtc_alarm_hour s * 60 + rtc_alarm_min s) * 60 + rtc_alarm_sec s"

definition rtc_alarm_valid :: "MCXNRTCState \<Rightarrow> bool" where
  "rtc_alarm_valid s \<longleftrightarrow> rtc_alarm_sec s < 60 \<and> rtc_alarm_min s < 60"

definition rtc_alarm_day :: "MCXNRTCState \<Rightarrow> nat" where
  "rtc_alarm_day s = unat (rtc_get16 s R_ALM_DAYS AND DAY_MASK)"

definition rtc_alarm_month :: "MCXNRTCState \<Rightarrow> nat" where
  "rtc_alarm_month s = unat (rtc_get16 s R_ALM_YEARMON AND MON_MASK)"

lemma base60_eq:
  fixes a b c d :: nat
  assumes "b < 60" and "d < 60"
  shows "a * 60 + b = c * 60 + d \<longleftrightarrow> a = c \<and> b = d"
proof
  assume eq: "a * 60 + b = c * 60 + d"
  have "a = (a * 60 + b) div 60" "c = (c * 60 + d) div 60" using assms by simp_all
  then have "a = c" using eq by simp
  then show "a = c \<and> b = d" using eq by simp
qed simp

lemma rtc_alarm_match_iff:
  assumes "rtc_valid s" and "rtc_alarm_valid s"
  shows "rtc_alarm_match s \<longleftrightarrow>
     rtc_time s = rtc_alarm_time s \<and> rtc_day s = rtc_alarm_day s \<and> rtc_month s = rtc_alarm_month s"
proof -
  have "rtc_time s = rtc_alarm_time s \<longleftrightarrow>
      rtc_hour s = rtc_alarm_hour s \<and> rtc_min s = rtc_alarm_min s \<and> rtc_sec s = rtc_alarm_sec s"
    using assms unfolding rtc_time_def rtc_alarm_time_def rtc_valid_def rtc_alarm_valid_def by (simp only: base60_eq conj_assoc)
  then show ?thesis
    unfolding rtc_alarm_match_def hm_eq
    by (auto simp only: rtc_hour_def rtc_min_def rtc_sec_def rtc_alarm_hour_def rtc_alarm_min_def rtc_alarm_sec_def
        rtc_day_def rtc_alarm_day_def rtc_month_def rtc_alarm_month_def word_unat_eq_iff)
qed

lemma get_isr_or [simp]: "rtc_get16 (rtc_or_isr f s) RTC_ISR = rtc_get16 s RTC_ISR OR ucast f"
  by (simp add: rtc_get16_def rtc_or_isr_def half_of_def unsigned_or_eq)

lemma alarm_match_cong:
  "(\<And>off. even off \<Longrightarrow> off < RTC_CTRL \<Longrightarrow> rtc_get16 s' off = rtc_get16 s off) \<Longrightarrow> rtc_alarm_match s' = rtc_alarm_match s"
  by (simp add: rtc_alarm_match_def)

lemma rtc_tick_isr:
  "rtc_get16 (mcxn_rtc_tick s) RTC_ISR =
     rtc_get16 s RTC_ISR OR flag 6 OR (if rtc_alarm_match (rtc_advance s) then flag 2 else 0)"
proof -
  have "rtc_alarm_match (rtc_or_isr ISR_IS_1HZ (rtc_advance s)) = rtc_alarm_match (rtc_advance s)"
    by (rule alarm_match_cong) (simp add: get_or_isr drop_flags)
  moreover have "(ucast (flag 6 :: u32) :: u16) = flag 6" "(ucast (flag 2 :: u32) :: u16) = flag 2"
    by (simp_all add: flag_def)
  ultimately show ?thesis
    by (simp add: rtc_tick_eq Let_def rtc_flagged_def rtc_advance_other or.assoc)
qed

lemma rtc_tick_line:
  "line_level (rtc_lines (mcxn_rtc_tick s)) () \<longleftrightarrow>
     rtc_get16 (mcxn_rtc_tick s) RTC_ISR AND rtc_get16 (mcxn_rtc_tick s) RTC_IER \<noteq> 0"
  by (simp add: rtc_tick_eq Let_def mcxn_rtc_update_irq_def) (simp add: rtc_get16_def half_of_def)

lemma rtc_tick_alarm [simp]:
  "rtc_alarm_time (mcxn_rtc_tick s) = rtc_alarm_time s" "rtc_alarm_valid (mcxn_rtc_tick s) = rtc_alarm_valid s"
  "rtc_alarm_day (mcxn_rtc_tick s) = rtc_alarm_day s" "rtc_alarm_month (mcxn_rtc_tick s) = rtc_alarm_month s"
  "rtc_alarm_time (rtc_advance s) = rtc_alarm_time s" "rtc_alarm_valid (rtc_advance s) = rtc_alarm_valid s"
  "rtc_alarm_day (rtc_advance s) = rtc_alarm_day s" "rtc_alarm_month (rtc_advance s) = rtc_alarm_month s"
  "rtc_month (rtc_advance s) = rtc_month s"
  by (simp_all add: rtc_alarm_time_def rtc_alarm_valid_def rtc_alarm_day_def rtc_alarm_month_def rtc_month_def
      rtc_alarm_sec_def rtc_alarm_min_def rtc_alarm_hour_def rtc_tick_get16 rtc_advance_other)

lemma rtc_ticks_alarm [simp]:
  "rtc_alarm_time ((mcxn_rtc_tick ^^ n) s) = rtc_alarm_time s" "rtc_alarm_valid ((mcxn_rtc_tick ^^ n) s) = rtc_alarm_valid s"
  "rtc_alarm_day ((mcxn_rtc_tick ^^ n) s) = rtc_alarm_day s" "rtc_alarm_month ((mcxn_rtc_tick ^^ n) s) = rtc_alarm_month s"
  "rtc_month ((mcxn_rtc_tick ^^ n) s) = rtc_month s"
  by (induction n) simp_all

text \<open>Whether the alarm is due \<open>k\<close> seconds from now.\<close>

definition rtc_alarm_in :: "MCXNRTCState \<Rightarrow> nat \<Rightarrow> bool" where
  "rtc_alarm_in s k \<longleftrightarrow>
     (rtc_time s + k) mod 86400 = rtc_alarm_time s
     \<and> (rtc_day s + (rtc_time s + k) div 86400) mod 32 = rtc_alarm_day s \<and> rtc_month s = rtc_alarm_month s"

lemma rtc_ticks_isr:
  assumes "rtc_valid s" and "rtc_alarm_valid s"
  shows "bit (rtc_get16 ((mcxn_rtc_tick ^^ n) s) RTC_ISR) 2 \<longleftrightarrow>
     bit (rtc_get16 s RTC_ISR) 2 \<or> (\<exists>k. 0 < k \<and> k \<le> n \<and> rtc_alarm_in s k)"
proof (induction n)
  case (Suc n)
  let ?s = "(mcxn_rtc_tick ^^ n) s"
  have v: "rtc_valid ?s" "rtc_valid (mcxn_rtc_tick ?s)" using rtc_ticks [OF assms(1), of n] rtc_advance_fields(1) by auto
  have "rtc_alarm_match (rtc_advance ?s) \<longleftrightarrow> rtc_time (mcxn_rtc_tick ?s) = rtc_alarm_time s
      \<and> rtc_day (mcxn_rtc_tick ?s) = rtc_alarm_day s \<and> rtc_month s = rtc_alarm_month s"
    using rtc_alarm_match_iff [of "rtc_advance ?s"] v assms(2) by simp
  then have "rtc_alarm_match (rtc_advance ?s) \<longleftrightarrow> rtc_alarm_in s (Suc n)"
    using rtc_ticks [OF assms(1), of "Suc n"] by (simp add: rtc_alarm_in_def)
  then show ?case using Suc by (auto simp: rtc_tick_isr le_Suc_eq bit_flag_iff bit_or_iff)
qed simp

text \<open>Over any run the interrupt line is the conjunction of a flag and its enable.\<close>

datatype rtc_event = Rtc_write nat u32 | Rtc_tick | Rtc_reset | Rtc_post_load

fun rtc_handle :: "rtc_event \<Rightarrow> MCXNRTCState \<Rightarrow> MCXNRTCState" where
  "rtc_handle (Rtc_write off v) s = mcxn_rtc_write s off v"
| "rtc_handle Rtc_tick s = mcxn_rtc_tick s"
| "rtc_handle Rtc_reset s = mcxn_rtc_reset s"
| "rtc_handle Rtc_post_load s = mcxn_rtc_post_load s"

definition rtc_line_ok :: "MCXNRTCState \<Rightarrow> bool" where
  "rtc_line_ok s \<longleftrightarrow> (line_level (rtc_lines s) () \<longleftrightarrow> rtc_get16 s RTC_ISR AND rtc_get16 s RTC_IER \<noteq> 0)"

lemma rtc_update_irq_ok: "rtc_line_ok (mcxn_rtc_update_irq s)"
  by (simp add: rtc_line_ok_def mcxn_rtc_update_irq_def Let_def) (simp add: rtc_get16_def half_of_def)

lemma rtc_word_write_ok:
  assumes "rtc_line_ok s" and "0x800 \<le> off"
  shows "rtc_line_ok (s\<lparr>rtc_regs := (rtc_regs s)(off div 4 := w)\<rparr>)"
proof -
  have "off div 4 \<noteq> 5" using assms(2) by linarith
  then show ?thesis using assms(1) by (simp add: rtc_line_ok_def rtc_get16_def)
qed

lemma rtc_write_ok: "rtc_line_ok s \<Longrightarrow> rtc_line_ok (mcxn_rtc_write s off v)"
  using rtc_word_write_ok [of s R_WAKE_TIMER_CTRL]
  by (simp add: mcxn_rtc_write_def Let_def rtc_update_irq_ok mcxn_rtc_is_16bit_def rtc_word_write_ok)

interpretation rtc: total_device rtc_handle rtc_line_ok
proof
  fix s e
  assume "rtc_line_ok s"
  then show "rtc_line_ok (rtc_handle e s)"
  proof (cases e)
    case Rtc_reset
    then show ?thesis
      by (simp add: rtc_line_ok_def mcxn_rtc_reset_def mcxn_rtc_set_reset_def rtc_get16_def half_of_def Let_def)
  qed (simp_all add: rtc_write_ok mcxn_rtc_post_load_def rtc_update_irq_ok, simp add: rtc_line_ok_def rtc_tick_line)
qed

section \<open>Properties\<close>

text \<open>
  C0: The calendar keeps time.  From a valid time of day, \<open>n\<close> ticks advance it by exactly \<open>n\<close> seconds:
  the time of day is the old one plus \<open>n\<close> modulo a day, the day field has gained the days passed
  (modulo its 32 values), the month is untouched, and the next tick is due exactly \<open>n\<close> seconds after
  the deadline it was due at, so latency does not accumulate.
\<close>

theorem rtc_keeps_time:
  assumes "rtc_valid s"
  shows "let s' = (mcxn_rtc_tick ^^ n) s in
     rtc_valid s' \<and> rtc_time s' = (rtc_time s + n) mod 86400
     \<and> rtc_day s' = (rtc_day s + (rtc_time s + n) div 86400) mod 32 \<and> rtc_month s' = rtc_month s
     \<and> rtc_next_tick_ns s' = rtc_next_tick_ns s + int n * 1000000000
     \<and> (0 < n \<longrightarrow> rtc_timer s' = Some (rtc_next_tick_ns s'))"
proof -
  have "rtc_next_tick_ns ((mcxn_rtc_tick ^^ n) s) = rtc_next_tick_ns s + int n * 1000000000"
    by (induction n) (simp_all add: algebra_simps)
  moreover have "0 < n \<longrightarrow> rtc_timer ((mcxn_rtc_tick ^^ n) s) = Some (rtc_next_tick_ns ((mcxn_rtc_tick ^^ n) s))"
    by (cases n) simp_all
  ultimately show ?thesis using rtc_ticks [OF assms, of n] unfolding Let_def by simp
qed

text \<open>
  C0: The alarm rings on time.  From a valid time and alarm, the alarm flag is set after \<open>n\<close> ticks
  exactly if it was set before or the calendar has shown the alarm's month, day and time of day at
  one of these ticks, and after a tick the interrupt line is high exactly if an enabled flag is set.
\<close>

theorem rtc_alarm_on_time:
  assumes "rtc_valid s" and "rtc_alarm_valid s" and "0 < n"
  shows "let s' = (mcxn_rtc_tick ^^ n) s in
     (bit (rtc_get16 s' RTC_ISR) 2 \<longleftrightarrow> bit (rtc_get16 s RTC_ISR) 2 \<or> (\<exists>k. 0 < k \<and> k \<le> n \<and> rtc_alarm_in s k))
     \<and> bit (rtc_get16 s' RTC_ISR) 6
     \<and> (line_level (rtc_lines s') () \<longleftrightarrow> rtc_get16 s' RTC_ISR AND rtc_get16 s' RTC_IER \<noteq> 0)"
proof -
  obtain m where "n = Suc m" using assms(3) by (cases n) auto
  then show ?thesis unfolding Let_def rtc_ticks_isr [OF assms(1,2)]
    by (simp add: rtc_tick_line rtc_tick_isr bit_flag_iff bit_or_iff)
qed

text \<open>Two seconds to midnight on day 31, the alarm at one second past midnight on day 0, its interrupt enabled.\<close>

definition rtc_example :: MCXNRTCState where
  "rtc_example =
     \<lparr>rtc_lines = [], rtc_timer = Some 1000000000, rtc_next_tick_ns = 1000000000,
      rtc_regs = (\<lambda>_. 0)(0 := 0x001F0000, 1 := 0x003A173B, 3 := 0x00010000, 5 := 0x00040000)\<rparr>"

lemma rtc_example_fields:
  "rtc_valid rtc_example" "rtc_time rtc_example = 86398" "rtc_day rtc_example = 31" "rtc_month rtc_example = 0"
  "rtc_alarm_valid rtc_example" "rtc_alarm_time rtc_example = 1" "rtc_alarm_day rtc_example = 0"
  "rtc_alarm_month rtc_example = 0" "rtc_next_tick_ns rtc_example = 1000000000"
  by (simp_all add: rtc_example_def rtc_valid_def rtc_time_def rtc_sec_def rtc_min_def rtc_hour_def rtc_day_def
      rtc_month_def rtc_alarm_valid_def rtc_alarm_time_def rtc_alarm_sec_def rtc_alarm_min_def rtc_alarm_hour_def
      rtc_alarm_day_def rtc_alarm_month_def rtc_get16_def half_of_def)

theorem rtc_keeps_time_witness:
  "rtc_time ((mcxn_rtc_tick ^^ 3) rtc_example) = 1 \<and> rtc_day ((mcxn_rtc_tick ^^ 3) rtc_example) = 0
     \<and> rtc_timer ((mcxn_rtc_tick ^^ 3) rtc_example) = Some 4000000000"
  using rtc_keeps_time [OF rtc_example_fields(1), of 3] unfolding Let_def rtc_example_fields by simp

theorem rtc_alarm_on_time_witness:
  "bit (rtc_get16 ((mcxn_rtc_tick ^^ 3) rtc_example) RTC_ISR) 2
     \<and> \<not> bit (rtc_get16 ((mcxn_rtc_tick ^^ 2) rtc_example) RTC_ISR) 2"
proof -
  have isr: "\<not> bit (rtc_get16 rtc_example RTC_ISR) 2" by (simp add: rtc_example_def rtc_get16_def half_of_def)
  note alarm = rtc_alarm_on_time [OF rtc_example_fields(1,5) zero_less_numeral, unfolded Let_def, THEN conjunct1]
  have a: "rtc_alarm_in rtc_example 3" "\<not> rtc_alarm_in rtc_example 1" "\<not> rtc_alarm_in rtc_example 2"
    by (simp_all add: rtc_alarm_in_def rtc_example_fields)
  have "\<not> (0 < k \<and> k \<le> 2 \<and> rtc_alarm_in rtc_example k)" for k
    using a(2,3) by (cases "k = 1"; cases "k = 2") auto
  then have "\<not> (\<exists>k. 0 < k \<and> k \<le> 2 \<and> rtc_alarm_in rtc_example k)" by blast
  moreover have "\<exists>k. 0 < k \<and> k \<le> 3 \<and> rtc_alarm_in rtc_example k" using a(1) by (intro exI [of _ 3]) simp
  ultimately show ?thesis unfolding alarm using isr by blast
qed

text \<open>
  C0: A migrated clock runs ahead.  The armed timer is migrated but not the deadline that the tick
  counts on from, so on a destination realized at time \<open>t0\<close> the first tick after a load re-arms in the
  past: at the deadline \<open>d\<close> of the source all the ticks between \<open>t0\<close> and \<open>d\<close> are handled at once, and the
  calendar gains the whole uptime of the machine instead of one second.
\<close>

theorem rtc_migration_jumps_ahead:
  assumes "rtc_timer src = Some d" and "rtc_valid src" and "k = nat ((d - t0) div 1000000000)" and "0 < k"
    and "s = rtc_load src (mcxn_rtc_reset (mcxn_rtc_realize t0))"
  shows "(\<forall>j < k. \<exists>e \<le> d. rtc_timer ((mcxn_rtc_tick ^^ j) s) = Some e)
     \<and> (\<exists>e > d. rtc_timer ((mcxn_rtc_tick ^^ k) s) = Some e)
     \<and> rtc_time ((mcxn_rtc_tick ^^ k) s) = (rtc_time src + k) mod 86400"
proof -
  have get: "rtc_get16 s off = rtc_get16 src off" for off
    unfolding assms(5) by (simp add: rtc_load_def mcxn_rtc_post_load_def) (simp add: rtc_get16_def)
  then have same: "rtc_valid s" "rtc_time s = rtc_time src"
    using assms(2) by (simp_all add: rtc_valid_def rtc_time_def rtc_sec_def rtc_min_def rtc_hour_def)
  have s: "rtc_timer s = Some d" "rtc_next_tick_ns s = t0 + 1000000000"
    unfolding assms(5) by (simp_all add: rtc_load_def mcxn_rtc_post_load_def mcxn_rtc_update_irq_def Let_def
        mcxn_rtc_reset_def mcxn_rtc_realize_def assms(1))
  have dl: "rtc_next_tick_ns ((mcxn_rtc_tick ^^ j) s) = t0 + int (j + 1) * 1000000000" for j
    by (induction j) (simp_all add: s algebra_simps)
  have tm: "rtc_timer ((mcxn_rtc_tick ^^ Suc j) s) = Some (t0 + int (j + 2) * 1000000000)" for j
    by (simp add: dl algebra_simps)
  have k: "int k = (d - t0) div 1000000000" using assms(3,4) by simp
  then have kd: "int k * 1000000000 \<le> d - t0" "d - t0 < (int k + 1) * 1000000000"
    using pos_mod_bound [of 1000000000 "d - t0"] div_mult_mod_eq [of "d - t0" 1000000000] by simp_all
  have "\<exists>e \<le> d. rtc_timer ((mcxn_rtc_tick ^^ j) s) = Some e" if "j < k" for j
  proof (cases j)
    case (Suc i)
    then have "int (i + 2) * 1000000000 \<le> int k * 1000000000" using that by simp
    then show ?thesis unfolding Suc tm using kd(1) by simp
  qed (simp add: s)
  moreover obtain i where "k = Suc i" using assms(4) by (cases k) auto
  ultimately show ?thesis using rtc_ticks [OF same(1), of k] kd(2) same(2) tm [of i] by simp
qed

theorem rtc_migration_jumps_ahead_witness:
  "rtc_time ((mcxn_rtc_tick ^^ 3600) (rtc_load (rtc_example\<lparr>rtc_timer := Some 3600500000000\<rparr>)
     (mcxn_rtc_reset (mcxn_rtc_realize 0)))) = 3598"
proof -
  let ?src = "rtc_example\<lparr>rtc_timer := Some 3600500000000\<rparr>"
  have "rtc_valid ?src" "rtc_time ?src = 86398"
    using rtc_example_fields(1,2)
    by (simp_all add: rtc_valid_def rtc_time_def rtc_sec_def rtc_min_def rtc_hour_def rtc_get16_def)
  then show ?thesis using rtc_migration_jumps_ahead [of ?src 3600500000000 3600 0, OF _ _ _ _ refl] by simp
qed

end
