(* ===== verification/Mcxn_Adc.thy ===== *)
theory Mcxn_Adc
  imports Mcxn_Interfaces
begin

unbundle bit_operations_syntax

text \<open>
  The analog-to-digital converter (\<^verbatim>\<open>hw/misc/mcxn_adc.c\<close>): software and hardware triggers start a
  conversion of the operator-set input of a channel into one of two 16-entry result FIFOs, whose
  watermarks drive the ready flags, the interrupt line and two DMA request lines.
\<close>

section \<open>Model\<close>

datatype adc_line = Adc_irq | Adc_dma_req nat

record MCXNADCState =
  adc_lines :: "adc_line irq_log"
  adc_dma_req_level :: "nat \<Rightarrow> bool"
  adc_regs :: "nat \<Rightarrow> u32"
  adc_ch :: "nat \<Rightarrow> u16"
  adc_fifo :: "nat \<Rightarrow> nat \<Rightarrow> u32"
  adc_fifo_count :: "nat \<Rightarrow> nat"

definition MCXN_ADC_CHANNELS :: nat where "MCXN_ADC_CHANNELS = 16"
definition MCXN_ADC_NFIFO :: nat where "MCXN_ADC_NFIFO = 2"
definition MCXN_ADC_FIFO_DEPTH :: nat where "MCXN_ADC_FIFO_DEPTH = 16"

definition ADC_VERID :: nat where "ADC_VERID = 0x000"
definition ADC_PARAM :: nat where "ADC_PARAM = 0x004"
definition ADC_CTRL :: nat where "ADC_CTRL = 0x010"
definition ADC_STAT :: nat where "ADC_STAT = 0x014"
definition ADC_IE :: nat where "ADC_IE = 0x018"
definition ADC_DE :: nat where "ADC_DE = 0x01C"
definition ADC_SWTRIG :: nat where "ADC_SWTRIG = 0x034"
definition ADC_TCTRL0 :: nat where "ADC_TCTRL0 = 0x0A0"
definition ADC_FCTRL0 :: nat where "ADC_FCTRL0 = 0x0E0"
definition ADC_FCTRL1 :: nat where "ADC_FCTRL1 = 0x0E4"
definition ADC_GCC0 :: nat where "ADC_GCC0 = 0x0F0"
definition ADC_GCC1 :: nat where "ADC_GCC1 = 0x0F4"
definition ADC_CMD_BASE :: nat where "ADC_CMD_BASE = 0x100"
definition ADC_RESFIFO0 :: nat where "ADC_RESFIFO0 = 0x300"
definition ADC_RESFIFO1 :: nat where "ADC_RESFIFO1 = 0x304"

lemmas adc_offsets = ADC_VERID_def ADC_PARAM_def ADC_CTRL_def ADC_STAT_def ADC_IE_def ADC_DE_def ADC_SWTRIG_def
  ADC_TCTRL0_def ADC_FCTRL0_def ADC_FCTRL1_def ADC_GCC0_def ADC_GCC1_def ADC_CMD_BASE_def ADC_RESFIFO0_def ADC_RESFIFO1_def

abbreviation (input) CTRL_ADCEN :: u32 where "CTRL_ADCEN \<equiv> flag 0"
abbreviation (input) CTRL_RST :: u32 where "CTRL_RST \<equiv> flag 1"
abbreviation (input) CTRL_CAL_REQ :: u32 where "CTRL_CAL_REQ \<equiv> flag 3"
abbreviation (input) CTRL_CALOFS :: u32 where "CTRL_CALOFS \<equiv> flag 4"
abbreviation (input) CTRL_RSTFIFO0 :: u32 where "CTRL_RSTFIFO0 \<equiv> flag 8"
abbreviation (input) CTRL_RSTFIFO1 :: u32 where "CTRL_RSTFIFO1 \<equiv> flag 9"
abbreviation (input) STAT_RDY0 :: u32 where "STAT_RDY0 \<equiv> flag 0"
abbreviation (input) STAT_FOF0 :: u32 where "STAT_FOF0 \<equiv> flag 1"
abbreviation (input) STAT_RDY1 :: u32 where "STAT_RDY1 \<equiv> flag 2"
abbreviation (input) STAT_FOF1 :: u32 where "STAT_FOF1 \<equiv> flag 3"
abbreviation (input) STAT_TEXC_INT :: u32 where "STAT_TEXC_INT \<equiv> flag 8"
abbreviation (input) STAT_TCOMP_INT :: u32 where "STAT_TCOMP_INT \<equiv> flag 9"
abbreviation (input) STAT_CAL_RDY :: u32 where "STAT_CAL_RDY \<equiv> flag 10"
abbreviation (input) IE_TCOMP_IE :: u32 where "IE_TCOMP_IE \<equiv> flag 16"
abbreviation (input) GCC_RDY :: u32 where "GCC_RDY \<equiv> flag 24"
abbreviation (input) TCTRL_HTEN :: u32 where "TCTRL_HTEN \<equiv> flag 0"
abbreviation (input) TCTRL_FIFO_SEL_A :: u32 where "TCTRL_FIFO_SEL_A \<equiv> flag 1"
abbreviation (input) RESFIFO_VALID :: u32 where "RESFIFO_VALID \<equiv> flag 31"
abbreviation (input) DE_FWMDE0 :: u32 where "DE_FWMDE0 \<equiv> flag 0"
abbreviation (input) DE_FWMDE1 :: u32 where "DE_FWMDE1 \<equiv> flag 1"

definition adc_fwmark :: "MCXNADCState \<Rightarrow> nat \<Rightarrow> u32" where
  "adc_fwmark s f = drop_bit 16 (adc_regs s ((if f \<noteq> 0 then ADC_FCTRL1 else ADC_FCTRL0) div 4)) AND 0xF"

text \<open>The conditions behind the interrupt line and the request line of a FIFO.\<close>

definition adc_irq_active :: "MCXNADCState \<Rightarrow> bool" where
  "adc_irq_active s \<longleftrightarrow>
     (let stat = adc_regs s (ADC_STAT div 4); ie = adc_regs s (ADC_IE div 4)
      in stat AND ie AND (STAT_RDY0 OR STAT_FOF0 OR STAT_RDY1 OR STAT_FOF1 OR STAT_TEXC_INT) \<noteq> 0
         \<or> tst stat STAT_TCOMP_INT \<and> tst ie IE_TCOMP_IE)"

definition adc_req :: "MCXNADCState \<Rightarrow> nat \<Rightarrow> bool" where
  "adc_req s f \<longleftrightarrow> tst (adc_regs s (ADC_DE div 4)) (if f \<noteq> 0 then DE_FWMDE1 else DE_FWMDE0)
     \<and> adc_fifo_count s f > unat (adc_fwmark s f)"

definition adc_publish :: "nat \<Rightarrow> MCXNADCState \<Rightarrow> MCXNADCState" where
  "adc_publish f s =
     (if adc_req s f \<noteq> adc_dma_req_level s f then
        s\<lparr>adc_dma_req_level := (adc_dma_req_level s)(f := adc_req s f),
          adc_lines := qemu_set_irq (Adc_dma_req f) (adc_req s f) (adc_lines s)\<rparr>
      else s)"

definition mcxn_adc_update_irq :: "MCXNADCState \<Rightarrow> MCXNADCState" where
  "mcxn_adc_update_irq s =
     fold adc_publish [0..<MCXN_ADC_NFIFO] (s\<lparr>adc_lines := qemu_set_irq Adc_irq (adc_irq_active s) (adc_lines s)\<rparr>)"

definition adc_update_ready :: "nat \<Rightarrow> MCXNADCState \<Rightarrow> MCXNADCState" where
  "adc_update_ready f s =
     (let rdy = (if f \<noteq> 0 then STAT_RDY1 else STAT_RDY0); stat = adc_regs s (ADC_STAT div 4)
      in s\<lparr>adc_regs := (adc_regs s)(ADC_STAT div 4 :=
             (if adc_fifo_count s f > unat (adc_fwmark s f) then stat OR rdy else stat AND NOT rdy))\<rparr>)"

definition mcxn_adc_update_status :: "MCXNADCState \<Rightarrow> MCXNADCState" where
  "mcxn_adc_update_status s = mcxn_adc_update_irq (fold adc_update_ready [0..<MCXN_ADC_NFIFO] s)"

definition adc_fifo_push :: "MCXNADCState \<Rightarrow> nat \<Rightarrow> u32 \<Rightarrow> MCXNADCState" where
  "adc_fifo_push s f val =
     (if adc_fifo_count s f \<ge> MCXN_ADC_FIFO_DEPTH then
        s\<lparr>adc_regs := (adc_regs s)(ADC_STAT div 4 :=
            adc_regs s (ADC_STAT div 4) OR (if f \<noteq> 0 then STAT_FOF1 else STAT_FOF0))\<rparr>
      else s\<lparr>adc_fifo := (adc_fifo s)(f := (adc_fifo s f)(adc_fifo_count s f := val)),
             adc_fifo_count := (adc_fifo_count s)(f := adc_fifo_count s f + 1)\<rparr>)"

definition adc_fifo_pop :: "MCXNADCState \<Rightarrow> nat \<Rightarrow> u32 \<times> MCXNADCState" where
  "adc_fifo_pop s f =
     (if adc_fifo_count s f = 0 then (0, s)
      else let val = adc_fifo s f 0; n = adc_fifo_count s f - 1
           in (val, s\<lparr>adc_fifo_count := (adc_fifo_count s)(f := n),
                      adc_fifo := (adc_fifo s)(f := (\<lambda>i. if i < n then adc_fifo s f (i + 1) else adc_fifo s f i))\<rparr>))"

definition ctz32 :: "u32 \<Rightarrow> nat" where
  "ctz32 v = length (takeWhile (\<lambda>i. \<not> bit v i) [0..<32])"

text \<open>The command a trigger starts and the channel a command converts.\<close>

definition adc_command :: "MCXNADCState \<Rightarrow> nat \<Rightarrow> u32" where
  "adc_command s trig = (if trig < 4 then drop_bit 24 (adc_regs s ((ADC_TCTRL0 + trig * 4) div 4)) AND 0xF else 0)"

definition adc_channel :: "MCXNADCState \<Rightarrow> u32 \<Rightarrow> nat" where
  "adc_channel s cmd =
     (let ch = (if 1 \<le> cmd \<and> cmd \<le> 15 then unat (adc_regs s ((ADC_CMD_BASE + (unat cmd - 1) * 8) div 4) AND 0x1F) else 0)
      in if ch \<ge> MCXN_ADC_CHANNELS then 0 else ch)"

definition mcxn_adc_do_conversion :: "MCXNADCState \<Rightarrow> u32 \<Rightarrow> MCXNADCState" where
  "mcxn_adc_do_conversion s swtrig =
     (if \<not> tst (adc_regs s (ADC_CTRL div 4)) CTRL_ADCEN then s
      else let trig = (if swtrig \<noteq> 0 then ctz32 swtrig else 0);
               cmd = adc_command s trig;
               ch = adc_channel s cmd;
               fifo = (if trig < 4 \<and> tst (adc_regs s ((ADC_TCTRL0 + trig * 4) div 4)) TCTRL_FIFO_SEL_A then 1 else 0)
           in mcxn_adc_update_status
                (adc_fifo_push s fifo (ucast (adc_ch s ch) OR RESFIFO_VALID OR push_bit 24 (cmd AND 0xF))))"

definition mcxn_adc_hw_trigger :: "MCXNADCState \<Rightarrow> int \<Rightarrow> bool \<Rightarrow> MCXNADCState" where
  "mcxn_adc_hw_trigger s trig level =
     (if \<not> level \<or> trig < 0 \<or> trig \<ge> 4 then s
      else if \<not> tst (adc_regs s ((ADC_TCTRL0 + nat trig * 4) div 4)) TCTRL_HTEN then s
      else mcxn_adc_do_conversion s (flag (nat trig)))"

definition mcxn_adc_read :: "MCXNADCState \<Rightarrow> nat \<Rightarrow> u64 \<times> MCXNADCState" where
  "mcxn_adc_read s offset =
     (if offset = ADC_GCC0 \<or> offset = ADC_GCC1 then
        ((if tst (adc_regs s (ADC_STAT div 4)) STAT_CAL_RDY then ucast GCC_RDY else 0), s)
      else if offset = ADC_VERID then (0x02000209, s)
      else if offset = ADC_PARAM then (0x0F0F0F08, s)
      else if offset = ADC_SWTRIG then (0, s)
      else if offset = ADC_FCTRL0 \<or> offset = ADC_FCTRL1 then
        let f = (if offset = ADC_FCTRL1 then 1 else 0)
        in (ucast ((adc_regs s (offset div 4) AND NOT 0x1F) OR (of_nat (adc_fifo_count s f) AND 0x1F)), s)
      else if offset = ADC_RESFIFO0 \<or> offset = ADC_RESFIFO1 then
        let f = (if offset = ADC_RESFIFO1 then 1 else 0)
        in case adc_fifo_pop s f of (v, s) \<Rightarrow> (ucast v, mcxn_adc_update_status s)
      else (ucast (adc_regs s (offset div 4)), s))"

definition adc_ctrl_write :: "MCXNADCState \<Rightarrow> u32 \<Rightarrow> MCXNADCState" where
  "adc_ctrl_write s v =
     (let stat = (\<lambda>s. adc_regs s (ADC_STAT div 4));
          s = (if tst v (CTRL_CALOFS OR CTRL_CAL_REQ)
               then s\<lparr>adc_regs := (adc_regs s)(ADC_STAT div 4 := stat s OR STAT_CAL_RDY)\<rparr> else s);
          s = (if tst v CTRL_RST
               then s\<lparr>adc_regs := (adc_regs s)(ADC_STAT div 4 := 0),
                      adc_fifo_count := (\<lambda>f. if f < MCXN_ADC_NFIFO then 0 else adc_fifo_count s f)\<rparr> else s);
          s = (if tst v CTRL_RSTFIFO0
               then s\<lparr>adc_fifo_count := (adc_fifo_count s)(0 := 0),
                      adc_regs := (adc_regs s)(ADC_STAT div 4 := stat s AND NOT STAT_FOF0)\<rparr> else s);
          s = (if tst v CTRL_RSTFIFO1
               then s\<lparr>adc_fifo_count := (adc_fifo_count s)(1 := 0),
                      adc_regs := (adc_regs s)(ADC_STAT div 4 := stat s AND NOT STAT_FOF1)\<rparr> else s)
      in mcxn_adc_update_status
           (s\<lparr>adc_regs := (adc_regs s)(ADC_CTRL div 4 := v AND NOT (CTRL_RST OR CTRL_RSTFIFO0 OR CTRL_RSTFIFO1))\<rparr>))"

definition mcxn_adc_write :: "MCXNADCState \<Rightarrow> nat \<Rightarrow> u64 \<Rightarrow> MCXNADCState" where
  "mcxn_adc_write s offset value =
     (let v = ucast value :: u32; store = s\<lparr>adc_regs := (adc_regs s)(offset div 4 := v)\<rparr> in
      if offset = ADC_VERID \<or> offset = ADC_PARAM then s
      else if offset = ADC_DE \<or> offset = ADC_FCTRL0 \<or> offset = ADC_FCTRL1 then mcxn_adc_update_irq store
      else if offset = ADC_CTRL then adc_ctrl_write s v
      else if offset = ADC_STAT then
        mcxn_adc_update_status (s\<lparr>adc_regs := (adc_regs s)(ADC_STAT div 4 := adc_regs s (ADC_STAT div 4)
          AND NOT (v AND (STAT_FOF0 OR STAT_FOF1 OR STAT_TEXC_INT OR STAT_TCOMP_INT)))\<rparr>)
      else if offset = ADC_IE then mcxn_adc_update_irq store
      else if offset = ADC_SWTRIG then (if v \<noteq> 0 then mcxn_adc_do_conversion s v else s)
      else if offset = ADC_RESFIFO0 \<or> offset = ADC_RESFIFO1 then s
      else store)"

definition mcxn_adc_reset :: "MCXNADCState \<Rightarrow> MCXNADCState" where
  "mcxn_adc_reset s =
     s\<lparr>adc_regs := (\<lambda>_. 0)(0x020 div 4 := 0x00800000),
       adc_fifo := (\<lambda>_ _. 0), adc_fifo_count := (\<lambda>_. 0),
       adc_ch := (\<lambda>i. if i < MCXN_ADC_CHANNELS then 0x0800 else adc_ch s i),
       adc_lines := qemu_set_irq Adc_irq False (adc_lines s)\<rparr>"

text \<open>The operator property of an analog input.\<close>

definition adc_set_channel :: "nat \<Rightarrow> u16 \<Rightarrow> MCXNADCState \<Rightarrow> MCXNADCState" where
  "adc_set_channel ch v s = s\<lparr>adc_ch := (adc_ch s)(ch := v)\<rparr>"

definition mcxn_adc_post_load :: "MCXNADCState \<Rightarrow> MCXNADCState" where
  "mcxn_adc_post_load s = mcxn_adc_update_irq s"

section \<open>The lines\<close>

lemma nfifo [simp]: "[0..<MCXN_ADC_NFIFO] = [0, 1]"
  by (simp add: MCXN_ADC_NFIFO_def upt_rec)

lemma adc_cong:
  assumes "adc_regs s = adc_regs t" and "adc_fifo_count s = adc_fifo_count t"
  shows "adc_req s = adc_req t" "adc_irq_active s = adc_irq_active t" "adc_fwmark s = adc_fwmark t"
proof -
  show "adc_fwmark s = adc_fwmark t" using assms by (simp add: adc_fwmark_def fun_eq_iff)
  with assms show "adc_req s = adc_req t" by (simp add: adc_req_def fun_eq_iff)
  show "adc_irq_active s = adc_irq_active t" using assms by (simp add: adc_irq_active_def)
qed

lemma adc_publish_fields [simp]:
  "adc_regs (adc_publish f s) = adc_regs s" "adc_fifo_count (adc_publish f s) = adc_fifo_count s"
  "adc_fifo (adc_publish f s) = adc_fifo s" "adc_ch (adc_publish f s) = adc_ch s"
  by (simp_all add: adc_publish_def)

lemma adc_publish_req [simp]:
  "adc_req (adc_publish f s) = adc_req s" "adc_irq_active (adc_publish f s) = adc_irq_active s"
  by (rule adc_cong; simp)+

lemma adc_publish_lines:
  "adc_dma_req_level (adc_publish f s) g = (if g = f then adc_req s f else adc_dma_req_level s g)"
  "line_level (adc_lines (adc_publish f s)) (Adc_dma_req g) =
     (if g = f \<and> adc_req s f \<noteq> adc_dma_req_level s f then adc_req s f else line_level (adc_lines s) (Adc_dma_req g))"
  "line_level (adc_lines (adc_publish f s)) Adc_irq = line_level (adc_lines s) Adc_irq"
  by (auto simp: adc_publish_def)

lemma adc_update_irq_fields [simp]:
  "adc_regs (mcxn_adc_update_irq s) = adc_regs s" "adc_fifo_count (mcxn_adc_update_irq s) = adc_fifo_count s"
  "adc_fifo (mcxn_adc_update_irq s) = adc_fifo s" "adc_ch (mcxn_adc_update_irq s) = adc_ch s"
  by (simp_all add: mcxn_adc_update_irq_def)

lemma adc_update_irq_req [simp]:
  "adc_req (mcxn_adc_update_irq s) = adc_req s" "adc_irq_active (mcxn_adc_update_irq s) = adc_irq_active s"
  "adc_fwmark (mcxn_adc_update_irq s) = adc_fwmark s"
  by (rule adc_cong; simp)+

lemma adc_update_irq_lines:
  "f < 2 \<Longrightarrow> adc_dma_req_level (mcxn_adc_update_irq s) f = adc_req s f"
  "f < 2 \<Longrightarrow> line_level (adc_lines (mcxn_adc_update_irq s)) (Adc_dma_req f) =
     (if adc_req s f = adc_dma_req_level s f then line_level (adc_lines s) (Adc_dma_req f) else adc_req s f)"
  "line_level (adc_lines (mcxn_adc_update_irq s)) Adc_irq = adc_irq_active s"
proof -
  let ?s = "s\<lparr>adc_lines := qemu_set_irq Adc_irq (adc_irq_active s) (adc_lines s)\<rparr>"
  have req: "adc_req ?s = adc_req s" by (rule adc_cong) simp_all
  show "line_level (adc_lines (mcxn_adc_update_irq s)) Adc_irq = adc_irq_active s"
    by (simp add: mcxn_adc_update_irq_def adc_publish_lines)
  assume "f < 2"
  then have "f = 0 \<or> f = 1" by auto
  then show "adc_dma_req_level (mcxn_adc_update_irq s) f = adc_req s f"
    "line_level (adc_lines (mcxn_adc_update_irq s)) (Adc_dma_req f) =
       (if adc_req s f = adc_dma_req_level s f then line_level (adc_lines s) (Adc_dma_req f) else adc_req s f)"
    by (auto simp: mcxn_adc_update_irq_def adc_publish_lines req)
qed

interpretation adc_dma0: request_line "\<lambda>s. adc_req s 0" "\<lambda>s. adc_dma_req_level s 0"
  "\<lambda>s. line_level (adc_lines s) (Adc_dma_req 0)" mcxn_adc_update_irq
  by unfold_locales (simp_all add: adc_update_irq_lines)

interpretation adc_dma1: request_line "\<lambda>s. adc_req s 1" "\<lambda>s. adc_dma_req_level s 1"
  "\<lambda>s. line_level (adc_lines s) (Adc_dma_req 1)" mcxn_adc_update_irq
  by unfold_locales (simp_all add: adc_update_irq_lines)

text \<open>
  What every operation keeps: the FIFOs stay within their depth, the request lines show the
  remembered levels, which are the request conditions, and the interrupt line shows the enabled
  flags; and what the ready flags mean.
\<close>

definition adc_lines_ok :: "MCXNADCState \<Rightarrow> bool" where
  "adc_lines_ok s \<longleftrightarrow> line_level (adc_lines s) Adc_irq = adc_irq_active s
     \<and> (\<forall>f < 2. adc_fifo_count s f \<le> MCXN_ADC_FIFO_DEPTH \<and> adc_dma_req_level s f = adc_req s f
          \<and> line_level (adc_lines s) (Adc_dma_req f) = adc_req s f)"

definition adc_ready_ok :: "MCXNADCState \<Rightarrow> bool" where
  "adc_ready_ok s \<longleftrightarrow> (\<forall>f < 2. bit (adc_regs s (ADC_STAT div 4)) (2 * f) \<longleftrightarrow> adc_fifo_count s f > unat (adc_fwmark s f))"

definition adc_settled :: "MCXNADCState \<Rightarrow> bool" where
  "adc_settled s \<longleftrightarrow> (\<forall>f < 2. adc_fifo_count s f \<le> MCXN_ADC_FIFO_DEPTH
     \<and> line_level (adc_lines s) (Adc_dma_req f) = adc_dma_req_level s f)"

lemma all_less_2: "(\<forall>f < (2::nat). P f) \<longleftrightarrow> P 0 \<and> P 1"
  by (auto simp: eval_nat_numeral less_Suc_eq)

lemma adc_lines_ok_settled: "adc_lines_ok s \<Longrightarrow> adc_settled s"
  by (simp add: adc_lines_ok_def adc_settled_def)

lemma adc_update_irq_ok:
  assumes "adc_settled s"
  shows "adc_lines_ok (mcxn_adc_update_irq s)"
  using assms adc_dma0.update_tracks [of s] adc_dma1.update_tracks [of s]
  by (simp add: adc_lines_ok_def adc_settled_def all_less_2 adc_update_irq_lines)

lemma adc_update_ready_fields [simp]:
  "adc_fifo_count (adc_update_ready f s) = adc_fifo_count s" "adc_fifo (adc_update_ready f s) = adc_fifo s"
  "adc_ch (adc_update_ready f s) = adc_ch s" "adc_lines (adc_update_ready f s) = adc_lines s"
  "adc_dma_req_level (adc_update_ready f s) = adc_dma_req_level s" "adc_fwmark (adc_update_ready f s) = adc_fwmark s"
  "i \<noteq> ADC_STAT div 4 \<Longrightarrow> adc_regs (adc_update_ready f s) i = adc_regs s i"
  by (simp_all add: adc_update_ready_def Let_def adc_fwmark_def adc_offsets fun_eq_iff)

lemma adc_update_status_fields [simp]:
  "adc_fifo_count (mcxn_adc_update_status s) = adc_fifo_count s" "adc_fifo (mcxn_adc_update_status s) = adc_fifo s"
  "adc_ch (mcxn_adc_update_status s) = adc_ch s" "adc_fwmark (mcxn_adc_update_status s) = adc_fwmark s"
  "i \<noteq> ADC_STAT div 4 \<Longrightarrow> adc_regs (mcxn_adc_update_status s) i = adc_regs s i"
  by (simp_all add: mcxn_adc_update_status_def)

lemma bit_adc_update_status:
  "bit (adc_regs (mcxn_adc_update_status s) (ADC_STAT div 4)) k \<longleftrightarrow>
     (if k = 0 then adc_fifo_count s 0 > unat (adc_fwmark s 0)
      else if k = 2 then adc_fifo_count s 1 > unat (adc_fwmark s 1) else bit (adc_regs s (ADC_STAT div 4)) k)"
proof -
  have "bit (adc_regs (adc_update_ready f s) (ADC_STAT div 4)) k \<longleftrightarrow>
     (if k = (if f \<noteq> 0 then 2 else 0) then adc_fifo_count s f > unat (adc_fwmark s f)
      else bit (adc_regs s (ADC_STAT div 4)) k)" for f s k
    by (auto simp: adc_update_ready_def Let_def)
  then show ?thesis by (simp add: mcxn_adc_update_status_def)
qed

lemma adc_update_status_ok:
  assumes "adc_settled s"
  shows "adc_lines_ok (mcxn_adc_update_status s)" "adc_ready_ok (mcxn_adc_update_status s)"
proof -
  show "adc_lines_ok (mcxn_adc_update_status s)"
    unfolding mcxn_adc_update_status_def
    using assms by (intro adc_update_irq_ok) (simp add: adc_settled_def)
  show "adc_ready_ok (mcxn_adc_update_status s)" by (simp add: adc_ready_ok_def bit_adc_update_status all_less_2)
qed

section \<open>Every operation\<close>

lemma adc_pushed:
  "adc_settled s \<Longrightarrow> adc_settled (adc_fifo_push s f v)"
  by (auto simp: adc_settled_def adc_fifo_push_def)

lemma adc_popped: "adc_settled s \<Longrightarrow> adc_settled (snd (adc_fifo_pop s f))"
  by (auto simp: adc_settled_def adc_fifo_pop_def Let_def intro: le_trans [OF diff_le_self])

lemma adc_conversion_ok:
  assumes "adc_lines_ok s"
  shows "adc_lines_ok (mcxn_adc_do_conversion s v)" "adc_ready_ok s \<Longrightarrow> adc_ready_ok (mcxn_adc_do_conversion s v)"
  using assms adc_lines_ok_settled
  by (simp_all add: mcxn_adc_do_conversion_def Let_def adc_update_status_ok adc_pushed)

lemma adc_hw_trigger_ok:
  assumes "adc_lines_ok s"
  shows "adc_lines_ok (mcxn_adc_hw_trigger s t b)" "adc_ready_ok s \<Longrightarrow> adc_ready_ok (mcxn_adc_hw_trigger s t b)"
  using assms by (simp_all add: mcxn_adc_hw_trigger_def adc_conversion_ok)

lemma adc_read_ok:
  assumes "adc_lines_ok s"
  shows "adc_lines_ok (snd (mcxn_adc_read s off))" "adc_ready_ok s \<Longrightarrow> adc_ready_ok (snd (mcxn_adc_read s off))"
proof -
  have "adc_settled (snd (adc_fifo_pop s f))" for f using assms by (intro adc_popped adc_lines_ok_settled)
  with assms show "adc_lines_ok (snd (mcxn_adc_read s off))" "adc_ready_ok s \<Longrightarrow> adc_ready_ok (snd (mcxn_adc_read s off))"
    by (simp_all add: mcxn_adc_read_def Let_def adc_update_status_ok case_prod_beta)
qed

lemma adc_ctrl_write_ok:
  assumes "adc_lines_ok s"
  shows "adc_lines_ok (adc_ctrl_write s v)" "adc_ready_ok (adc_ctrl_write s v)"
proof -
  have "adc_settled s" using assms by (rule adc_lines_ok_settled)
  then show "adc_lines_ok (adc_ctrl_write s v)" "adc_ready_ok (adc_ctrl_write s v)"
    unfolding adc_ctrl_write_def Let_def
    by (rule_tac adc_update_status_ok, auto simp: adc_settled_def)+
qed

text \<open>A store into a word that none of the lines depends on.\<close>

lemma adc_plain_store:
  assumes "i \<notin> {ADC_STAT div 4, ADC_IE div 4, ADC_DE div 4, ADC_FCTRL0 div 4, ADC_FCTRL1 div 4}"
  shows "adc_lines_ok (s\<lparr>adc_regs := (adc_regs s)(i := v)\<rparr>) = adc_lines_ok s"
    "adc_ready_ok (s\<lparr>adc_regs := (adc_regs s)(i := v)\<rparr>) = adc_ready_ok s"
proof -
  let ?t = "s\<lparr>adc_regs := (adc_regs s)(i := v)\<rparr>"
  have "adc_fwmark ?t = adc_fwmark s" using assms by (auto simp: adc_fwmark_def fun_eq_iff)
  moreover from this have "adc_req ?t = adc_req s" using assms by (auto simp: adc_req_def fun_eq_iff)
  moreover have "adc_irq_active ?t = adc_irq_active s" using assms by (auto simp: adc_irq_active_def Let_def)
  ultimately show "adc_lines_ok ?t = adc_lines_ok s" "adc_ready_ok ?t = adc_ready_ok s"
    using assms by (auto simp: adc_lines_ok_def adc_ready_ok_def)
qed

lemma adc_write_ok:
  assumes ok: "adc_lines_ok s"
  shows "adc_lines_ok (mcxn_adc_write s (4 * i) v)"
    "adc_ready_ok s \<Longrightarrow> 4 * i \<noteq> ADC_FCTRL0 \<Longrightarrow> 4 * i \<noteq> ADC_FCTRL1 \<Longrightarrow> adc_ready_ok (mcxn_adc_write s (4 * i) v)"
proof -
  have settled: "adc_settled (s\<lparr>adc_regs := r\<rparr>)" for r
    using adc_lines_ok_settled [OF ok] by (simp add: adc_settled_def)
  have ready: "adc_ready_ok s \<Longrightarrow> adc_ready_ok (mcxn_adc_update_irq (s\<lparr>adc_regs := (adc_regs s)(j := w)\<rparr>))"
    if "j \<notin> {ADC_STAT div 4, ADC_FCTRL0 div 4, ADC_FCTRL1 div 4}" for j w
    using that by (auto simp: adc_ready_ok_def adc_fwmark_def)
  note ok' = adc_update_irq_ok [OF settled] adc_update_status_ok [OF settled] adc_conversion_ok [OF ok] adc_ctrl_write_ok [OF ok]
  show "adc_lines_ok (mcxn_adc_write s (4 * i) v)"
    using ok by (auto simp: mcxn_adc_write_def Let_def ok' adc_plain_store adc_offsets)
  show "adc_ready_ok s \<Longrightarrow> 4 * i \<noteq> ADC_FCTRL0 \<Longrightarrow> 4 * i \<noteq> ADC_FCTRL1 \<Longrightarrow> adc_ready_ok (mcxn_adc_write s (4 * i) v)"
    by (auto simp: mcxn_adc_write_def Let_def ok' adc_plain_store ready adc_offsets)
qed

text \<open>
  Everything that happens to the device between resets: word accesses of the guest, hardware
  triggers, operator settings of an input, and migration.
\<close>

datatype adc_event = Adc_write nat u64 | Adc_read nat | Adc_trigger int bool | Adc_input nat u16 | Adc_post_load

fun adc_step :: "adc_event \<Rightarrow> MCXNADCState \<Rightarrow> MCXNADCState" where
  "adc_step (Adc_write i v) s = mcxn_adc_write s (4 * i) v"
| "adc_step (Adc_read i) s = snd (mcxn_adc_read s (4 * i))"
| "adc_step (Adc_trigger t b) s = mcxn_adc_hw_trigger s t b"
| "adc_step (Adc_input ch v) s = adc_set_channel ch v s"
| "adc_step Adc_post_load s = mcxn_adc_post_load s"

fun adc_moves_watermark :: "adc_event \<Rightarrow> bool" where
  "adc_moves_watermark (Adc_write i v) = (4 * i = ADC_FCTRL0 \<or> 4 * i = ADC_FCTRL1)"
| "adc_moves_watermark _ = False"

lemma adc_set_channel_ok [simp]:
  "adc_lines_ok (adc_set_channel ch v s) = adc_lines_ok s" "adc_ready_ok (adc_set_channel ch v s) = adc_ready_ok s"
proof -
  have "adc_req (adc_set_channel ch v s) = adc_req s" "adc_irq_active (adc_set_channel ch v s) = adc_irq_active s"
    "adc_fwmark (adc_set_channel ch v s) = adc_fwmark s"
    by (rule adc_cong; simp add: adc_set_channel_def)+
  then show "adc_lines_ok (adc_set_channel ch v s) = adc_lines_ok s" "adc_ready_ok (adc_set_channel ch v s) = adc_ready_ok s"
    by (simp_all add: adc_lines_ok_def adc_ready_ok_def) (simp_all add: adc_set_channel_def)
qed

interpretation adc: total_device adc_step adc_lines_ok
proof
  fix s e
  assume "adc_lines_ok s"
  then show "adc_lines_ok (adc_step e s)"
    by (cases e) (simp_all add: adc_write_ok adc_read_ok adc_hw_trigger_ok mcxn_adc_post_load_def
        adc_update_irq_ok adc_lines_ok_settled)
qed

lemma adc_step_ready:
  assumes "adc_lines_ok s" and "adc_ready_ok s" and "\<not> adc_moves_watermark e"
  shows "adc_ready_ok (adc_step e s)"
  using assms
  by (cases e) (simp_all add: adc_write_ok adc_read_ok adc_hw_trigger_ok mcxn_adc_post_load_def,
      simp add: adc_ready_ok_def)

lemma adc_fold_ready:
  assumes "adc_lines_ok s" and "adc_ready_ok s" and "\<forall>e \<in> set es. \<not> adc_moves_watermark e"
  shows "adc_ready_ok (fold adc_step es s)"
  using assms
  by (induction es arbitrary: s) (simp_all add: adc.handle_good adc_step_ready)

lemma adc_reset_ok:
  assumes "adc_lines s = []" and "\<forall>f. \<not> adc_dma_req_level s f"
  shows "adc_lines_ok (mcxn_adc_reset s)" "adc_ready_ok (mcxn_adc_reset s)"
  using assms
  by (simp_all add: adc_lines_ok_def adc_ready_ok_def mcxn_adc_reset_def adc_req_def adc_irq_active_def adc_offsets Let_def)

section \<open>The result FIFOs\<close>

text \<open>
  A trigger set up to convert channel \<open>ch\<close> into FIFO \<open>f\<close>; one sample is the operator's value on the
  pin followed by the trigger; one read takes a result out of the FIFO, which is kept beside the
  device so that it can be observed.
\<close>

definition adc_armed :: "MCXNADCState \<Rightarrow> nat \<Rightarrow> u32 \<Rightarrow> nat \<Rightarrow> nat \<Rightarrow> bool" where
  "adc_armed s t cmd ch f \<longleftrightarrow> t < 4 \<and> f < 2 \<and> tst (adc_regs s (ADC_CTRL div 4)) CTRL_ADCEN
     \<and> tst (adc_regs s ((ADC_TCTRL0 + t * 4) div 4)) TCTRL_HTEN
     \<and> (tst (adc_regs s ((ADC_TCTRL0 + t * 4) div 4)) TCTRL_FIFO_SEL_A \<longleftrightarrow> f = 1)
     \<and> adc_command s t = cmd \<and> adc_channel s cmd = ch \<and> adc_fifo_count s f \<le> MCXN_ADC_FIFO_DEPTH"

definition adc_word :: "u32 \<Rightarrow> u16 \<Rightarrow> u32" where
  "adc_word cmd v = ucast v OR RESFIFO_VALID OR push_bit 24 (cmd AND 0xF)"

definition adc_sample :: "nat \<Rightarrow> nat \<Rightarrow> u16 \<Rightarrow> MCXNADCState \<Rightarrow> MCXNADCState" where
  "adc_sample t ch v s = mcxn_adc_hw_trigger (adc_set_channel ch v s) (int t) True"

definition adc_take :: "nat \<Rightarrow> MCXNADCState \<times> u64 \<Rightarrow> MCXNADCState \<times> u64" where
  "adc_take f = (\<lambda>(s, _). let (v, s) = mcxn_adc_read s (if f = 1 then ADC_RESFIFO1 else ADC_RESFIFO0) in (s, v))"

definition adc_entries :: "nat \<Rightarrow> MCXNADCState \<Rightarrow> u64 list" where
  "adc_entries f s = map (\<lambda>i. ucast (adc_fifo s f i)) [0..<adc_fifo_count s f]"

lemma ctz32_flag:
  assumes "t < 32"
  shows "ctz32 (flag t) = t"
proof -
  have "[0..<32] = [0..<t] @ t # [Suc t..<32]"
    using assms upt_add_eq_append [of 0 t "32 - t"] by (simp add: upt_conv_Cons del: upt_rec_numeral)
  then have "takeWhile (\<lambda>i. \<not> bit (flag t :: u32) i) [0..<32] = [0..<t]"
    using assms by (simp add: bit_flag_iff takeWhile_append del: upt_rec_numeral)
  then show ?thesis by (simp add: ctz32_def del: upt_rec_numeral)
qed

lemma adc_armed_cong:
  assumes "\<And>i. i \<noteq> ADC_STAT div 4 \<Longrightarrow> adc_regs t i = adc_regs s i" and "adc_fifo_count t f \<le> MCXN_ADC_FIFO_DEPTH"
    and "adc_armed s n cmd ch f"
  shows "adc_armed t n cmd ch f"
proof -
  have r: "adc_regs t (ADC_CTRL div 4) = adc_regs s (ADC_CTRL div 4)"
    "adc_regs t ((ADC_TCTRL0 + k * 4) div 4) = adc_regs s ((ADC_TCTRL0 + k * 4) div 4)"
    "adc_regs t ((ADC_CMD_BASE + k * 8) div 4) = adc_regs s ((ADC_CMD_BASE + k * 8) div 4)" for k
    by (rule assms(1), simp add: adc_offsets)+
  then have "adc_command t n = adc_command s n" "adc_channel t c = adc_channel s c" for c
    by (simp_all add: adc_command_def adc_channel_def)
  with r assms(2,3) show ?thesis by (simp add: adc_armed_def)
qed

lemma adc_sample_eq:
  assumes "adc_armed s t cmd ch f"
  shows "adc_sample t ch v s = mcxn_adc_update_status (adc_fifo_push (adc_set_channel ch v s) f (adc_word cmd v))"
proof -
  have "adc_command (adc_set_channel ch v s) n = adc_command s n" "adc_channel (adc_set_channel ch v s) c = adc_channel s c" for n c
    by (simp_all add: adc_command_def adc_channel_def adc_set_channel_def)
  moreover have "flag t \<noteq> (0 :: u32)"
    using assms bit_flag_iff [where ?'a = 32, of t t] by (auto simp: adc_armed_def)
  moreover have "f = 0 \<or> f = 1" using assms by (auto simp: adc_armed_def)
  ultimately show ?thesis
    using assms
    by (simp add: adc_sample_def mcxn_adc_hw_trigger_def mcxn_adc_do_conversion_def Let_def adc_armed_def ctz32_flag adc_word_def)
      (auto simp add: adc_set_channel_def)
qed

lemma adc_push_entries:
  "adc_fifo_count s f < MCXN_ADC_FIFO_DEPTH \<Longrightarrow> adc_entries f (adc_fifo_push s f v) = adc_entries f s @ [ucast v]"
  "adc_fifo_count s f = MCXN_ADC_FIFO_DEPTH \<Longrightarrow> adc_entries f (adc_fifo_push s f v) = adc_entries f s"
  "adc_fifo_count s f \<le> MCXN_ADC_FIFO_DEPTH \<Longrightarrow> adc_fifo_count (adc_fifo_push s f v) f \<le> MCXN_ADC_FIFO_DEPTH"
  by (auto simp: adc_entries_def adc_fifo_push_def)

lemma adc_pop_entries:
  assumes "adc_entries f s = y # ys"
  shows "ucast (fst (adc_fifo_pop s f)) = y" "adc_entries f (snd (adc_fifo_pop s f)) = ys"
proof -
  from assms obtain n where n: "adc_fifo_count s f = Suc n"
    by (cases "adc_fifo_count s f") (simp_all add: adc_entries_def)
  with assms have "y = ucast (adc_fifo s f 0)" "ys = map (\<lambda>i. ucast (adc_fifo s f (Suc i))) [0..<n]"
    by (simp_all add: adc_entries_def upt_conv_Cons map_Suc_upt [symmetric] o_def del: upt_Suc)
  with n show "ucast (fst (adc_fifo_pop s f)) = y" "adc_entries f (snd (adc_fifo_pop s f)) = ys"
    by (simp_all add: adc_fifo_pop_def adc_entries_def Let_def)
qed

lemma adc_entries_status [simp]: "adc_entries f (mcxn_adc_update_status s) = adc_entries f s"
  "adc_entries f (adc_set_channel ch v s) = adc_entries f s"
  by (simp_all add: adc_entries_def adc_set_channel_def)

lemma adc_take_eq:
  assumes "f < 2"
  shows "adc_take f (s, x) = (mcxn_adc_update_status (snd (adc_fifo_pop s f)), ucast (fst (adc_fifo_pop s f)))"
proof -
  from assms have "f = 0 \<or> f = 1" by auto
  then show ?thesis by (auto simp: adc_take_def mcxn_adc_read_def Let_def adc_offsets case_prod_beta)
qed

lemma adc_sample_armed:
  assumes "adc_armed s t cmd ch f"
  shows "adc_armed (adc_sample t ch v s) t cmd ch f"
  unfolding adc_sample_eq [OF assms]
  by (rule adc_armed_cong [OF _ _ assms])
    (use assms in \<open>simp_all add: adc_armed_def adc_set_channel_def adc_fifo_push_def\<close>)

lemma adc_take_armed:
  assumes "adc_armed s t cmd ch f"
  shows "adc_armed (fst (adc_take f (s, x))) t cmd ch f"
proof -
  from assms have f: "f < 2" by (simp add: adc_armed_def)
  show ?thesis unfolding adc_take_eq [OF f] fst_conv
    by (rule adc_armed_cong [OF _ _ assms]) (use assms in \<open>auto simp: adc_armed_def adc_fifo_pop_def Let_def\<close>)
qed

interpretation adc_fifo: bounded_fifo "\<lambda>v (s, x). (adc_sample t ch v s, x)" "adc_take f" snd
  "\<lambda>v. ucast (adc_word cmd v)" "\<lambda>(s, x). adc_entries f s" MCXN_ADC_FIFO_DEPTH "\<lambda>(s, x). adc_armed s t cmd ch f"
  for t ch f cmd
proof unfold_locales
  fix p :: "MCXNADCState \<times> u64" and v :: u16 and y ys
  obtain s x where p: "p = (s, x)" by (rule prod.exhaust)
  assume "case p of (s, x) \<Rightarrow> adc_armed s t cmd ch f"
  then have a: "adc_armed s t cmd ch f" by (simp add: p)
  then have c: "adc_fifo_count (adc_set_channel ch v s) f = adc_fifo_count s f" "f < 2" "adc_fifo_count s f \<le> MCXN_ADC_FIFO_DEPTH"
    by (simp_all add: adc_set_channel_def adc_armed_def)
  have len: "length (adc_entries f s) = adc_fifo_count s f" by (simp add: adc_entries_def)
  show "length (case p of (s, x) \<Rightarrow> adc_entries f s) \<le> MCXN_ADC_FIFO_DEPTH" using c len by (simp add: p)
  show "case case p of (s, x) \<Rightarrow> (adc_sample t ch v s, x) of (s, x) \<Rightarrow> adc_armed s t cmd ch f"
    using adc_sample_armed [OF a] by (simp add: p)
  show "case adc_take f p of (s, x) \<Rightarrow> adc_armed s t cmd ch f"
    using adc_take_armed [OF a, of x] by (simp add: p case_prod_beta)
  show "(case case p of (s, x) \<Rightarrow> (adc_sample t ch v s, x) of (s, x) \<Rightarrow> adc_entries f s)
     = (case p of (s, x) \<Rightarrow> adc_entries f s) @ [ucast (adc_word cmd v)]"
    if "length (case p of (s, x) \<Rightarrow> adc_entries f s) < MCXN_ADC_FIFO_DEPTH"
    using that c len by (simp add: p adc_sample_eq [OF a] adc_push_entries(1))
  show "(case case p of (s, x) \<Rightarrow> (adc_sample t ch v s, x) of (s, x) \<Rightarrow> adc_entries f s)
     = (case p of (s, x) \<Rightarrow> adc_entries f s)"
    if "length (case p of (s, x) \<Rightarrow> adc_entries f s) = MCXN_ADC_FIFO_DEPTH"
    using that c len by (simp add: p adc_sample_eq [OF a] adc_push_entries(2))
  show "(case adc_take f p of (s, x) \<Rightarrow> adc_entries f s) = ys \<and> snd (adc_take f p) = y"
    if "(case p of (s, x) \<Rightarrow> adc_entries f s) = y # ys"
    using that adc_pop_entries [of f s y ys] by (simp add: p adc_take_eq [OF c(2)])
  show "(case adc_take f p of (s, x) \<Rightarrow> adc_entries f s) = []"
    if "(case p of (s, x) \<Rightarrow> adc_entries f s) = []"
    using that by (simp add: p adc_take_eq [OF c(2)] adc_entries_def adc_fifo_pop_def)
qed

lemma fold_adc_sample:
  "fold (\<lambda>v (s, x). (adc_sample t ch v s, x)) vs (s, x) = (fold (adc_sample t ch) vs s, x)"
  by (induction vs arbitrary: s) simp_all

lemma adc_sample_overflow:
  assumes "adc_armed s t cmd ch f"
  shows "adc_fifo_count (adc_sample t ch v s) f = min MCXN_ADC_FIFO_DEPTH (adc_fifo_count s f + 1)"
    "bit (adc_regs (adc_sample t ch v s) (ADC_STAT div 4)) (Suc (2 * f)) \<longleftrightarrow>
       bit (adc_regs s (ADC_STAT div 4)) (Suc (2 * f)) \<or> adc_fifo_count s f = MCXN_ADC_FIFO_DEPTH"
proof -
  have f: "f = 0 \<or> f = 1" and c: "adc_fifo_count s f \<le> MCXN_ADC_FIFO_DEPTH"
    using assms by (auto simp: adc_armed_def)
  show "adc_fifo_count (adc_sample t ch v s) f = min MCXN_ADC_FIFO_DEPTH (adc_fifo_count s f + 1)"
    using c by (simp add: adc_sample_eq [OF assms] adc_fifo_push_def adc_set_channel_def min_def)
  show "bit (adc_regs (adc_sample t ch v s) (ADC_STAT div 4)) (Suc (2 * f)) \<longleftrightarrow>
       bit (adc_regs s (ADC_STAT div 4)) (Suc (2 * f)) \<or> adc_fifo_count s f = MCXN_ADC_FIFO_DEPTH"
    using f c
    by (auto simp: adc_sample_eq [OF assms] bit_adc_update_status adc_fifo_push_def adc_set_channel_def)
qed

lemma adc_samples_overflow:
  assumes "adc_armed s t cmd ch f"
  shows "bit (adc_regs (fold (adc_sample t ch) vs s) (ADC_STAT div 4)) (Suc (2 * f)) \<longleftrightarrow>
     bit (adc_regs s (ADC_STAT div 4)) (Suc (2 * f)) \<or> MCXN_ADC_FIFO_DEPTH < adc_fifo_count s f + length vs"
  using assms
proof (induction vs arbitrary: s)
  case Nil
  then show ?case by (auto simp: adc_armed_def)
next
  case (Cons v vs)
  let ?c = "adc_fifo_count s f"
  have "?c \<le> MCXN_ADC_FIFO_DEPTH" using Cons.prems by (simp add: adc_armed_def)
  then have "?c = MCXN_ADC_FIFO_DEPTH \<or> MCXN_ADC_FIFO_DEPTH < min MCXN_ADC_FIFO_DEPTH (?c + 1) + length vs
      \<longleftrightarrow> MCXN_ADC_FIFO_DEPTH < ?c + length (v # vs)"
    by (cases "?c = MCXN_ADC_FIFO_DEPTH") (simp_all add: min.absorb2 Suc_le_eq)
  with Cons.IH [OF adc_sample_armed [OF Cons.prems, of v]] show ?case
    by (simp only: fold_simps adc_sample_overflow [OF Cons.prems] disj_assoc)
qed

section \<open>Properties\<close>

text \<open>
  C15: conversions arrive in order and nothing is lost silently.  When a trigger is set up and its
  result FIFO is empty, a sequence of hardware triggers with the operator's values on the pin,
  followed by reads of the result register, delivers exactly the first sixteen values in the order
  they were sampled, each marked valid and with its command number, and the overflow flag of that
  FIFO is set exactly when there were more.
\<close>

theorem adc_results_in_order:
  assumes "adc_armed s t cmd ch f" and "adc_fifo_count s f = 0" and "\<not> bit (adc_regs s (ADC_STAT div 4)) (Suc (2 * f))"
  shows "let u = fold (adc_sample t ch) vs s
     in fifo_outs (adc_take f) snd (min MCXN_ADC_FIFO_DEPTH (length vs)) (u, 0)
          = map (\<lambda>v. ucast (adc_word cmd v)) (take MCXN_ADC_FIFO_DEPTH vs)
      \<and> (bit (adc_regs u (ADC_STAT div 4)) (Suc (2 * f)) \<longleftrightarrow> MCXN_ADC_FIFO_DEPTH < length vs)"
  using adc_fifo.burst [of t cmd ch f "(s, 0)" vs] adc_samples_overflow [OF assms(1), of vs] assms
  by (simp add: Let_def fold_adc_sample adc_entries_def)

theorem adc_results_in_order_witness:
  "let s = \<lparr>adc_lines = [], adc_dma_req_level = (\<lambda>_. False),
        adc_regs = (\<lambda>_. 0)(ADC_CTRL div 4 := 1, (ADC_TCTRL0 + 8) div 4 := 0x03000003, (ADC_CMD_BASE + 16) div 4 := 5),
        adc_ch = (\<lambda>_. 0x800), adc_fifo = (\<lambda>_ _. 7), adc_fifo_count = (\<lambda>_. 0)\<rparr>
   in fifo_outs (adc_take 1) snd 2 (fold (adc_sample 2 5) [0x123, 0xFFFF] s, 0) = [0x83000123, 0x8300FFFF]"
proof -
  define s where "s = \<lparr>adc_lines = [], adc_dma_req_level = (\<lambda>_. False),
        adc_regs = (\<lambda>_. 0)(ADC_CTRL div 4 := 1, (ADC_TCTRL0 + 8) div 4 := 0x03000003, (ADC_CMD_BASE + 16) div 4 := 5),
        adc_ch = (\<lambda>_. 0x800), adc_fifo = (\<lambda>_ _. 7), adc_fifo_count = (\<lambda>_. 0)\<rparr>"
  have "adc_armed s 2 3 5 1" "adc_fifo_count s 1 = 0" "\<not> bit (adc_regs s (ADC_STAT div 4)) (Suc (2 * 1))"
    by (simp_all add: s_def adc_armed_def adc_command_def adc_channel_def Let_def adc_offsets MCXN_ADC_CHANNELS_def)
  note w = adc_results_in_order [OF this, of "[0x123, 0xFFFF]", unfolded Let_def]
  have "min MCXN_ADC_FIFO_DEPTH (length [0x123, 0xFFFF :: u16]) = 2"
    "map (\<lambda>v. ucast (adc_word 3 v)) (take MCXN_ADC_FIFO_DEPTH [0x123, 0xFFFF]) = [0x83000123, 0x8300FFFF :: u64]"
    by (simp_all add: MCXN_ADC_FIFO_DEPTH_def adc_word_def flag_def)
  from w [unfolded this] show ?thesis unfolding s_def [symmetric] Let_def by (rule conjunct1)
qed

text \<open>
  C30: after power-on, over any sequence of word accesses of the guest, hardware triggers, operator
  settings and migrations, no FIFO exceeds its depth, the interrupt line is high exactly when an
  enabled flag is set and each DMA request line exactly when its FIFO is enabled for DMA and above
  its watermark; and as long as no watermark is written the ready flag of a FIFO says exactly
  that it is above its watermark.
\<close>

theorem adc_lines_track:
  assumes "adc_lines s = []" and "\<forall>f. \<not> adc_dma_req_level s f"
  shows "let t = fold adc_step es (mcxn_adc_reset s)
     in line_level (adc_lines t) Adc_irq = adc_irq_active t
      \<and> (\<forall>f < 2. adc_fifo_count t f \<le> MCXN_ADC_FIFO_DEPTH \<and> line_level (adc_lines t) (Adc_dma_req f) = adc_req t f)
      \<and> ((\<forall>e \<in> set es. \<not> adc_moves_watermark e) \<longrightarrow>
           (\<forall>f < 2. bit (adc_regs t (ADC_STAT div 4)) (2 * f) \<longleftrightarrow> adc_fifo_count t f > unat (adc_fwmark t f)))"
  using adc.fold_good [OF adc_reset_ok(1) [OF assms], of es] adc_fold_ready [OF adc_reset_ok [OF assms], of es]
  by (simp add: Let_def adc_lines_ok_def adc_ready_ok_def)

theorem adc_lines_track_witness:
  "let t = fold adc_step [Adc_write 4 1, Adc_write 6 1, Adc_write 13 1]
        (mcxn_adc_reset \<lparr>adc_lines = [], adc_dma_req_level = (\<lambda>_. False), adc_regs = (\<lambda>_. 0), adc_ch = (\<lambda>_. 0),
           adc_fifo = (\<lambda>_ _. 0), adc_fifo_count = (\<lambda>_. 0)\<rparr>)
   in line_level (adc_lines t) Adc_irq = adc_irq_active t
      \<and> (bit (adc_regs t (ADC_STAT div 4)) 0 \<longleftrightarrow> adc_fifo_count t 0 > unat (adc_fwmark t 0))"
  using adc_lines_track [of "\<lparr>adc_lines = [], adc_dma_req_level = (\<lambda>_. False), adc_regs = (\<lambda>_. 0), adc_ch = (\<lambda>_. 0),
           adc_fifo = (\<lambda>_ _. 0), adc_fifo_count = (\<lambda>_. 0)\<rparr>" "[Adc_write 4 1, Adc_write 6 1, Adc_write 13 1]"]
  unfolding Let_def by (simp add: adc_offsets all_less_2 del: fold_simps)

text \<open>
  C35: writing a watermark does not bring the ready flag up to date.  Lowering the watermark of a
  FIFO below its occupancy raises its DMA request, if enabled, but leaves the ready flag clear
  and the interrupt line where it was, although the FIFO is now above its watermark.
\<close>

theorem adc_watermark_write_leaves_ready:
  assumes "adc_lines_ok s" and "adc_ready_ok s" and "f < 2"
    and "adc_fifo_count s f \<le> unat (adc_fwmark s f)"
    and "unat (drop_bit 16 (ucast v :: u32) AND 0xF) < adc_fifo_count s f"
    and "tst (adc_regs s (ADC_DE div 4)) (if f \<noteq> 0 then DE_FWMDE1 else DE_FWMDE0)"
  shows "let t = mcxn_adc_write s (if f \<noteq> 0 then ADC_FCTRL1 else ADC_FCTRL0) v
     in unat (adc_fwmark t f) < adc_fifo_count t f \<and> \<not> bit (adc_regs t (ADC_STAT div 4)) (2 * f)
      \<and> line_level (adc_lines t) Adc_irq = line_level (adc_lines s) Adc_irq
      \<and> \<not> line_level (adc_lines s) (Adc_dma_req f) \<and> line_level (adc_lines t) (Adc_dma_req f)"
proof -
  let ?o = "if f \<noteq> 0 then ADC_FCTRL1 else ADC_FCTRL0"
  define u where "u = s\<lparr>adc_regs := (adc_regs s)(?o div 4 := ucast v)\<rparr>"
  have t: "mcxn_adc_write s ?o v = mcxn_adc_update_irq u" by (simp add: mcxn_adc_write_def u_def Let_def adc_offsets)
  have wm: "adc_fwmark u f = drop_bit 16 (ucast v) AND 0xF" by (simp add: u_def adc_fwmark_def)
  have req: "adc_req u f" "\<not> adc_req s f" using assms(4,5,6) wm by (simp_all add: adc_req_def u_def adc_offsets del: tst_flag split: if_splits)
  have "adc_irq_active u = adc_irq_active s" by (simp add: adc_irq_active_def u_def adc_offsets Let_def)
  moreover have "adc_dma_req_level u f = adc_req s f" "line_level (adc_lines s) (Adc_dma_req f) = adc_req s f"
    using assms(1,3) by (simp_all add: adc_lines_ok_def u_def)
  moreover have "\<not> bit (adc_regs u (ADC_STAT div 4)) (2 * f)"
    using assms(2,3,4) by (simp add: adc_ready_ok_def u_def adc_offsets)
  ultimately show ?thesis unfolding t Let_def
    using assms(1,3,5) req wm by (simp add: adc_update_irq_lines adc_lines_ok_def) (simp add: u_def)
qed

theorem adc_watermark_write_leaves_ready_witness:
  "let s = \<lparr>adc_lines = [], adc_dma_req_level = (\<lambda>_. False),
        adc_regs = (\<lambda>_. 0)(ADC_IE div 4 := 1, ADC_DE div 4 := 1, ADC_FCTRL0 div 4 := 0x50000),
        adc_ch = (\<lambda>_. 0), adc_fifo = (\<lambda>_ _. 0), adc_fifo_count = (\<lambda>_. 0)(0 := 3)\<rparr>;
       t = mcxn_adc_write s ADC_FCTRL0 0x10000
   in unat (adc_fwmark t 0) < adc_fifo_count t 0 \<and> \<not> bit (adc_regs t (ADC_STAT div 4)) 0
     \<and> \<not> line_level (adc_lines t) Adc_irq \<and> line_level (adc_lines t) (Adc_dma_req 0)"
proof -
  define s where "s = \<lparr>adc_lines = [], adc_dma_req_level = (\<lambda>_. False),
        adc_regs = (\<lambda>_. 0)(ADC_IE div 4 := 1, ADC_DE div 4 := 1, ADC_FCTRL0 div 4 := 0x50000),
        adc_ch = (\<lambda>_. 0), adc_fifo = (\<lambda>_ _. 0), adc_fifo_count = (\<lambda>_. 0)(0 := 3)\<rparr>"
  have "adc_lines_ok s" "adc_ready_ok s" "(0::nat) < 2" "adc_fifo_count s 0 \<le> unat (adc_fwmark s 0)"
    "unat (drop_bit 16 (ucast (0x10000 :: u64) :: u32) AND 0xF) < adc_fifo_count s 0"
    "tst (adc_regs s (ADC_DE div 4)) (if (0::nat) \<noteq> 0 then DE_FWMDE1 else DE_FWMDE0)"
    by (simp_all add: s_def adc_lines_ok_def adc_ready_ok_def adc_irq_active_def adc_req_def adc_fwmark_def all_less_2
        MCXN_ADC_FIFO_DEPTH_def Let_def adc_offsets)
  from adc_watermark_write_leaves_ready [OF this] show ?thesis
    unfolding s_def [symmetric] Let_def by (simp add: s_def)
qed

end
