(* ===== verification/Mcxn_Dma_Bus.thy ===== *)
theory Mcxn_Dma_Bus
  imports Mcxn_Edma
begin

unbundle bit_operations_syntax

text \<open>
  What the eDMA engine may rely on when the devices it accesses also drive its request inputs.
  A relation between the request inputs and the bus that every single bus access keeps, the
  calls on the inputs included, is kept by whole transfers, linked and chained descriptors, the
  bottom half and every register write.
\<close>

locale dma_peripherals =
  fixes B :: "('m, 'z) edma_bus_scheme" and sync :: "MCXNEDMAState \<Rightarrow> 'm \<Rightarrow> bool"
  assumes sync_inputs: "req_level s = req_level t \<Longrightarrow> req_edge s = req_edge t \<Longrightarrow> req_enabled s = req_enabled t \<Longrightarrow>
           sync s m = sync t m"
    and sync_read: "sync s m \<Longrightarrow> address_space_read B a n m = (bs, ev, m') \<Longrightarrow> sync (edma_deliver ev s) m'"
    and sync_write: "sync s m \<Longrightarrow> address_space_write B a bs m = (ev, m') \<Longrightarrow> sync (edma_deliver ev s) m'"
    and sync_dma_read: "sync s m \<Longrightarrow> dma_memory_read B a n m = (r, ev, m') \<Longrightarrow> sync (edma_deliver ev s) m'"
    and sync_acknowledge: "sync s m \<Longrightarrow> (\<And>src. l src = req_level s src \<or> req_edge s src) \<Longrightarrow>
           sync (s\<lparr>req_level := l\<rparr>) m"
begin

lemma sync_frame [simp]:
  "sync (edma_upd s n f) m = sync s m" "sync (edma_update_irq s n) m = sync s m"
  "sync (edma_error s n e) m = sync s m" "sync (s\<lparr>in_link := b\<rparr>) m = sync s m"
  "sync (s\<lparr>edma_bh := b\<rparr>) m = sync s m" "sync (s\<lparr>mp_csr := v\<rparr>) m = sync s m"
  "sync (s\<lparr>ch_grpri := g\<rparr>) m = sync s m" "sync (edma_major_done s n) m = sync s m"
  by (rule sync_inputs; simp add: edma_error_def edma_major_done_def Let_def)+

lemma gather_sync:
  "sync s m \<Longrightarrow> edma_gather B ssize soff smod chunk k saddr buf s m = (a, bf, s', m') \<Longrightarrow> sync s' m'"
proof (induction "chunk - k" arbitrary: k saddr buf s m rule: less_induct)
  case less
  show ?case
  proof (cases "k < chunk \<and> 0 < ssize")
    case True
    obtain bs ev m1 where r: "address_space_read B saddr ssize m = (bs, ev, m1)" by (metis prod_cases3)
    from less.prems(2) True r
    have "edma_gather B ssize soff smod chunk (k + ssize) (edma_advance saddr soff smod) (buf @ bs)
        (edma_deliver ev s) m1 = (a, bf, s', m')" by (simp add: edma_gather.simps [of B ssize soff smod chunk k])
    moreover have "chunk - (k + ssize) < chunk - k" using True by arith
    ultimately show ?thesis using less.hyps sync_read [OF less.prems(1) r] by blast
  next
    case False
    with less.prems show ?thesis by (auto simp: edma_gather.simps [of B ssize soff smod chunk k])
  qed
qed

lemma scatter_sync:
  "sync s m \<Longrightarrow> edma_scatter B dsize doff dmod chunk k daddr buf s m = (a, s', m') \<Longrightarrow> sync s' m'"
proof (induction "chunk - k" arbitrary: k daddr s m rule: less_induct)
  case less
  show ?case
  proof (cases "k < chunk \<and> 0 < dsize")
    case True
    obtain ev m1 where r: "address_space_write B daddr (take dsize (drop k buf)) m = (ev, m1)" by force
    from less.prems(2) True r
    have "edma_scatter B dsize doff dmod chunk (k + dsize) (edma_advance daddr doff dmod) buf
        (edma_deliver ev s) m1 = (a, s', m')" by (simp add: edma_scatter.simps [of B dsize doff dmod chunk k])
    moreover have "chunk - (k + dsize) < chunk - k" using True by arith
    ultimately show ?thesis using less.hyps sync_write [OF less.prems(1) r] by blast
  next
    case False
    with less.prems show ?thesis by (auto simp: edma_scatter.simps [of B dsize doff dmod chunk k])
  qed
qed

lemma transfer_sync:
  "sync s m \<Longrightarrow> edma_transfer B c nbytes chunk b saddr daddr s m = (a, d, s', m') \<Longrightarrow> sync s' m'"
proof (induction "nbytes - b" arbitrary: b saddr daddr s m rule: less_induct)
  case less
  show ?case
  proof (cases "b < nbytes \<and> 0 < chunk")
    case True
    let ?g = "edma_gather B (2 ^ ATTR_SSIZE (tcd_attr c)) (tcd_soff c) (ATTR_SMOD (tcd_attr c)) chunk 0 saddr [] s m"
    obtain sa bf s1 m1 where g: "?g = (sa, bf, s1, m1)" by (metis prod_cases4)
    let ?w = "edma_scatter B (2 ^ ATTR_DSIZE (tcd_attr c)) (tcd_doff c) (ATTR_DMOD (tcd_attr c)) chunk 0 daddr bf s1 m1"
    obtain da s2 m2 where w: "?w = (da, s2, m2)" by (metis prod_cases3)
    from less.prems(2) True g w have "edma_transfer B c nbytes chunk (b + chunk) sa da s2 m2 = (a, d, s', m')"
      by (simp add: edma_transfer.simps [of B c nbytes chunk b])
    moreover have "nbytes - (b + chunk) < nbytes - b" using True by arith
    ultimately show ?thesis using less.hyps scatter_sync [OF gather_sync [OF less.prems(1) g] w] by blast
  next
    case False
    with less.prems show ?thesis by (auto simp: edma_transfer.simps [of B c nbytes chunk b])
  qed
qed

lemma minor_commit_sync:
  "edma_minor_commit s n saddr daddr elink cmask citer = (r, s') \<Longrightarrow> sync s' m = sync s m"
  by (auto simp: edma_minor_commit_def Let_def simp del: tst_flag split: if_splits)

lemma minor_body_sync:
  assumes "sync s m" and "edma_minor_body B s n m = (r, s', m')"
  shows "sync s' m'"
proof -
  let ?c = "ch s n"
  let ?tr = "edma_transfer B ?c (unat (tcd_nbytes ?c AND NBYTES_MASK))
     (max (2 ^ ATTR_SSIZE (tcd_attr ?c)) (2 ^ ATTR_DSIZE (tcd_attr ?c))) 0 (tcd_saddr ?c) (tcd_daddr ?c) s m"
  obtain a d s1 m1 where tr: "?tr = (a, d, s1, m1)" by (metis prod_cases4)
  obtain r2 s2 where cm: "edma_minor_commit s1 n a d (tst (tcd_citer ?c) CITER_ELINK)
      (citer_mask (tcd_citer ?c)) (tcd_citer ?c AND citer_mask (tcd_citer ?c)) = (r2, s2)" by force
  have "sync s2 m1" using transfer_sync [OF assms(1) tr] minor_commit_sync [OF cm] by simp
  with assms show ?thesis
    by (auto simp: edma_minor_body_def Let_def tr cm simp del: tst_flag split: if_splits)
qed

lemma load_next_tcd_sync:
  assumes "sync s m"
  shows "sync (fst (snd (edma_load_next_tcd B s n m))) (snd (snd (edma_load_next_tcd B s n m)))"
proof -
  obtain r ev m1 where d: "dma_memory_read B (tcd_dlast (ch s n)) 32 m = (r, ev, m1)" by (metis prod_cases3)
  from assms sync_dma_read [OF assms d] show ?thesis
    by (cases r) (simp_all add: edma_load_next_tcd_def d Let_def)
qed

lemma minor_loop_sync_if:
  assumes "\<And>s l m s' m'. sync s m \<Longrightarrow> in_link s = b \<Longrightarrow> edma_link_channel B s l m = (s', m') \<Longrightarrow> sync s' m'"
    and "sync s m" and "in_link s = b" and "edma_minor_loop B s n m = (r, s', m')"
  shows "sync s' m'"
proof -
  obtain o1 s1 m1 where body: "edma_minor_body B s n m = (o1, s1, m1)" by (metis prod_cases3)
  have 1: "sync s1 m1" "in_link s1 = b"
    using minor_body_sync [OF assms(2) body] edma_minor_body_in_link [OF body] assms(3) by simp_all
  have l: "sync s2 m2" if "(if q then edma_link_channel B s1 l m1 else (s1, m1)) = (s2, m2)" for q l s2 m2
    using that 1 assms(1) [OF 1] by (auto split: if_splits)
  have t: "sync s3 m3" if "(if q then snd (edma_load_next_tcd B s2 n m2) else (s2, m2)) = (s3, m3)" "sync s2 m2"
    for q s2 m2 s3 m3
    using that load_next_tcd_sync [OF that(2), of n] by (cases "edma_load_next_tcd B s2 n m2") (auto split: if_splits)
  show ?thesis
  proof (cases o1)
    case Minor_aborted
    then show ?thesis using assms(4) 1 by (simp add: edma_minor_loop.simps [of B s] body)
  next
    case (Minor_more e)
    then show ?thesis using assms(4)
      by (auto simp: edma_minor_loop.simps [of B s] body split: prod.splits intro: l)
  next
    case Major_complete
    obtain s2 m2 where 2: "(if tst (tcd_csr (ch s1 n)) TCD_CSR_MAJORELINK
        then edma_link_channel B s1 (TCD_CSR_MAJORLINKCH (tcd_csr (ch s1 n))) m1 else (s1, m1)) = (s2, m2)" by force
    obtain s3 m3 where 3: "(if tst (tcd_csr (ch s2 n)) TCD_CSR_ESG
        then snd (edma_load_next_tcd B s2 n m2) else (s2, m2)) = (s3, m3)" by force
    from t [OF 3 l [OF 2]] show ?thesis
      using assms(4) Major_complete 2 3 by (auto simp: edma_minor_loop.simps [of B s] body simp del: tst_flag)
  qed
qed

lemma run_sync_if:
  assumes "\<And>r s' m'. edma_minor_loop B s n m = (r, s', m') \<Longrightarrow> sync s' m'" and "edma_run B s n m = (s', m')"
  shows "sync s' m'"
  using assms by (auto simp: edma_run.simps split: prod.splits)

lemma link_channel_sync:
  assumes "sync s m" and "edma_link_channel B s l m = (s', m')"
  shows "sync s' m'"
proof (cases "l \<ge> MCXN_EDMA_CHANNELS \<or> in_link s")
  case True
  then show ?thesis using assms by (simp add: edma_link_channel.simps)
next
  case False
  let ?t = "edma_upd (s\<lparr>in_link := True\<rparr>) l (\<lambda>c. c\<lparr>ch_csr := ch_csr c AND NOT CH_CSR_DONE\<rparr>)"
  obtain s1 m1 where r: "edma_run B ?t l m = (s1, m1)" by force
  have "sync s1 m1"
    by (rule run_sync_if [OF _ r], rule minor_loop_sync_if [of True]) (use assms(1) in simp_all)
  then show ?thesis using assms(2) r False by (auto simp: edma_link_channel.simps)
qed

lemma minor_loop_sync:
  assumes "sync s m" and "edma_minor_loop B s n m = (r, s', m')"
  shows "sync s' m'"
  by (rule minor_loop_sync_if [OF _ assms(1) refl assms(2)]) (rule link_channel_sync)

lemma run_sync: "sync s m \<Longrightarrow> edma_run B s n m = (s', m') \<Longrightarrow> sync s' m'"
  by (rule run_sync_if) (rule minor_loop_sync)

lemma serve_sync:
  assumes "sync s m" and "edma_serve B n (p, s, m) = (q, s', m')"
  shows "sync s' m'"
proof -
  let ?t = "edma_upd s n (\<lambda>c. c\<lparr>ch_csr := ch_csr c AND NOT CH_CSR_DONE\<rparr>)"
  obtain r s1 m1 where l: "edma_minor_loop B ?t n m = (r, s1, m1)" by (rule prod_cases3)
  have 1: "sync s1 m1" by (rule minor_loop_sync [OF _ l]) (simp add: assms(1))
  have 2: "sync (s1\<lparr>req_level := (req_level s1)(src := False)\<rparr>) m1" if "req_edge s1 src" for src
    by (rule sync_acknowledge [OF 1]) (simp add: that)
  show ?thesis
  proof (cases "edma_wanted s n")
    case True
    with assms(2) 1 2 [of "edma_src s n"] show ?thesis
      by (cases "req_edge s1 (edma_src s n)") (auto simp: edma_serve_def l Let_def)
  next
    case False
    with assms show ?thesis by (simp add: edma_serve_def)
  qed
qed

lemma pass_sync: "sync s m \<Longrightarrow> fold (edma_serve B) ns (p, s, m) = (q, s', m') \<Longrightarrow> sync s' m'"
proof (induction ns arbitrary: p s m)
  case (Cons n ns)
  obtain p1 s1 m1 where 1: "edma_serve B n (p, s, m) = (p1, s1, m1)" by (metis prod_cases3)
  from Cons.IH [OF serve_sync [OF Cons.prems(1) 1]] Cons.prems(2) 1 show ?case by simp
qed simp

lemma drain_sync: "sync s m \<Longrightarrow> edma_drain B g s m = (s', m') \<Longrightarrow> sync s' m'"
proof (induction "MCXN_EDMA_MAX_LOOPS - g" arbitrary: g s m rule: less_induct)
  case less
  obtain p s1 m1 where 1: "edma_pass B s m = (p, s1, m1)" by (metis prod_cases3)
  note s1 = pass_sync [OF less.prems(1) 1 [unfolded edma_pass_def]]
  show ?case
    using less.prems(2) s1 less.hyps [OF _ s1, of "g + 1"]
    by (auto simp: edma_drain.simps [of B g] 1 split: if_splits)
qed

lemma service_bh_sync:
  assumes "sync s m" and "mcxn_edma_service_bh B s m = (s', m')"
  shows "sync s' m'"
proof -
  obtain s1 m1 where 1: "edma_drain B 0 s m = (s1, m1)" by force
  from drain_sync [OF assms(1) 1] have "sync (edma_drop_pulses s1) m1"
    unfolding edma_drop_pulses_def by (rule sync_acknowledge) simp
  with assms(2) 1 show ?thesis by (simp add: mcxn_edma_service_bh_def)
qed

lemma bh_poll_sync: "sync s m \<Longrightarrow> edma_bh_poll B s m = (s', m') \<Longrightarrow> sync s' m'"
  by (auto simp: edma_bh_poll_def dest: service_bh_sync [rotated] split: if_splits)

lemma edma_write_sync:
  assumes "sync s m" and "edma_write B s off v m = (s', m')"
  shows "sync s' m'"
  using assms by (auto simp: edma_write_def Let_def simp del: tst_flag split: if_splits dest: run_sync [rotated])

end

end
