(* ===== verification/Mcxn_Soc.thy ===== *)
theory Mcxn_Soc
  imports Mcxn_Dma_Bus Mcxn_Dac Mcxn_Inputmux Mcxn_Lptmr Mcxn_Pint
begin

unbundle bit_operations_syntax

text \<open>
  The devices as the SoC connects them (\<^verbatim>\<open>hw/arm/mcxn_soc.c\<close>): the eDMA controllers behind the
  gates of the input multiplexer, the DACs and their request lines, the low-power timers as
  trigger sources and the pin interrupts as pulse requests.

  A call a device makes on an output line is recorded in that device's log; here the calls of
  one operation are delivered, in order, to the input the SoC connects the line to.  Lines to
  devices outside this theory (the NVIC, ADC, CMP, QDC and TSI) end here.  The bus of DMA0
  dispatches to the SRAM, to the DACs and to a parameter \<open>rest\<close> for every other address; it is
  modelled for transfers between SRAM, the DACs and such other addresses, not for descriptors
  that write the registers of INPUTMUX, LPTMR, PINT or of the eDMA itself.  The bus traffic of
  DMA1 is not modelled.
\<close>

section \<open>The bus of DMA0\<close>

definition MCXN_SECURE_ALIAS :: nat where "MCXN_SECURE_ALIAS = 0x10000000"
definition MCXN_SRAM_NS :: nat where "MCXN_SRAM_NS = 0x20000000"
definition MCXN_SRAM_S :: nat where "MCXN_SRAM_S = 0x30000000"
definition sram_size :: nat where "sram_size = 416 * 1024"
definition MCXN_NUM_DAC :: nat where "MCXN_NUM_DAC = 3"
definition MCXN_NUM_LPTMR :: nat where "MCXN_NUM_LPTMR = 2"
definition MCXN_DAC_SIZE :: nat where "MCXN_DAC_SIZE = 0x1000"
definition dac_base :: "nat list" where "dac_base = [0x4010F000, 0x40112000, 0x40114000]"
definition MCXN_DMA_REQ_DAC0_FIFO :: nat where "MCXN_DMA_REQ_DAC0_FIFO = 25"
definition MCXN_DMA_REQ_PINT0 :: nat where "MCXN_DMA_REQ_PINT0 = 3"

datatype soc_target = Soc_sram nat | Soc_dac_window nat nat | Soc_elsewhere

definition soc_decode :: "u32 \<Rightarrow> soc_target" where
  "soc_decode a =
     (let x = unat a; hit = (\<lambda>base sz. base \<le> x \<and> x < base + sz) in
      if hit MCXN_SRAM_NS sram_size then Soc_sram (x - MCXN_SRAM_NS)
      else if hit MCXN_SRAM_S sram_size then Soc_sram (x - MCXN_SRAM_S)
      else (case filter (\<lambda>i. hit (dac_base ! i) MCXN_DAC_SIZE) [0..<MCXN_NUM_DAC] of
              i # _ \<Rightarrow> Soc_dac_window i (x - dac_base ! i)
            | [] \<Rightarrow>
                (case filter (\<lambda>i. hit (dac_base ! i + MCXN_SECURE_ALIAS) MCXN_DAC_SIZE) [0..<MCXN_NUM_DAC] of
                   i # _ \<Rightarrow> Soc_dac_window i (x - (dac_base ! i + MCXN_SECURE_ALIAS))
                 | [] \<Rightarrow> Soc_elsewhere)))"

record 'r soc_bus_state =
  sram :: "nat \<Rightarrow> u8"
  soc_dac :: "nat \<Rightarrow> MCXNDACState"
  elsewhere :: 'r

text \<open>
  An access to a DAC window is split as \<^verbatim>\<open>memory_access_size\<close> does for a region with accesses
  of up to 4 bytes and no unaligned ones, and each piece reaches the handler as one call.
\<close>

definition memory_access_size :: "nat \<Rightarrow> nat \<Rightarrow> nat" where
  "memory_access_size l addr =
     (if 4 \<le> l \<and> addr mod 4 = 0 then 4 else if 2 \<le> l \<and> addr mod 2 = 0 then 2 else 1)"

primrec ldn_le :: "u8 list \<Rightarrow> u64" where
  "ldn_le [] = 0"
| "ldn_le (b # bs) = ucast b OR push_bit 8 (ldn_le bs)"

definition stn_le :: "nat \<Rightarrow> u64 \<Rightarrow> u8 list" where
  "stn_le l v = map (\<lambda>i. ucast (drop_bit (8 * i) v)) [0..<l]"

function soc_dac_write :: "nat \<Rightarrow> u8 list \<Rightarrow> MCXNDACState \<Rightarrow> MCXNDACState" where
  "soc_dac_write off bs d =
     (if bs = [] then d
      else let l = memory_access_size (length bs) off
           in soc_dac_write (off + l) (drop l bs) (mcxn_dac_write d off (ldn_le (take l bs)) l))"
  by pat_completeness auto
termination
  by (relation "measure (\<lambda>(off, bs, d). length bs)") (auto simp: memory_access_size_def)

function soc_dac_read :: "nat \<Rightarrow> nat \<Rightarrow> MCXNDACState \<Rightarrow> u8 list" where
  "soc_dac_read off n d =
     (if n = 0 then []
      else let l = memory_access_size n off
           in stn_le l (mcxn_dac_read d off) @ soc_dac_read (off + l) (n - l) d)"
  by pat_completeness auto
termination
  by (relation "measure (\<lambda>(off, n, d). n)") (auto simp: memory_access_size_def)

declare soc_dac_write.simps [simp del] soc_dac_read.simps [simp del]

text \<open>What DAC \<open>i\<close> does to the request inputs of DMA0.\<close>

definition dac_requests :: "nat \<Rightarrow> MCXNDACState \<Rightarrow> MCXNDACState \<Rightarrow> dma_requests" where
  "dac_requests i d d' =
     map (\<lambda>(_, level). (MCXN_DMA_REQ_DAC0_FIFO + i, level))
       (filter (\<lambda>(line, _). line = Dac_dma_req) (new_calls (dac_lines d) (dac_lines d')))"

definition soc_bus_read ::
  "('r, 'z) edma_bus_scheme \<Rightarrow> u32 \<Rightarrow> nat \<Rightarrow> 'r soc_bus_state \<Rightarrow> u8 list \<times> dma_requests \<times> 'r soc_bus_state" where
  "soc_bus_read rest a n m =
     (case soc_decode a of
        Soc_sram off \<Rightarrow> (map (\<lambda>i. sram m (off + i)) [0..<n], [], m)
      | Soc_dac_window i off \<Rightarrow> (soc_dac_read off n (soc_dac m i), [], m)
      | Soc_elsewhere \<Rightarrow>
          (case address_space_read rest a n (elsewhere m) of (bs, ev, r) \<Rightarrow> (bs, ev, m\<lparr>elsewhere := r\<rparr>)))"

definition soc_bus_write ::
  "('r, 'z) edma_bus_scheme \<Rightarrow> u32 \<Rightarrow> u8 list \<Rightarrow> 'r soc_bus_state \<Rightarrow> dma_requests \<times> 'r soc_bus_state" where
  "soc_bus_write rest a bs m =
     (case soc_decode a of
        Soc_sram off \<Rightarrow>
          ([], m\<lparr>sram := (\<lambda>x. if off \<le> x \<and> x < off + length bs then bs ! (x - off) else sram m x)\<rparr>)
      | Soc_dac_window i off \<Rightarrow>
          (let d = soc_dac_write off bs (soc_dac m i)
           in (dac_requests i (soc_dac m i) d, m\<lparr>soc_dac := (soc_dac m)(i := d)\<rparr>))
      | Soc_elsewhere \<Rightarrow>
          (case address_space_write rest a bs (elsewhere m) of (ev, r) \<Rightarrow> (ev, m\<lparr>elsewhere := r\<rparr>)))"

definition soc_bus :: "('r, 'z) edma_bus_scheme \<Rightarrow> 'r soc_bus_state edma_bus" where
  "soc_bus rest =
     \<lparr>address_space_read = soc_bus_read rest,
      address_space_write = soc_bus_write rest,
      dma_memory_read = (\<lambda>a n m.
        case soc_decode a of
          Soc_elsewhere \<Rightarrow>
            (case dma_memory_read rest a n (elsewhere m) of (r, ev, e) \<Rightarrow> (r, ev, m\<lparr>elsewhere := e\<rparr>))
        | _ \<Rightarrow> (case soc_bus_read rest a n m of (bs, ev, m) \<Rightarrow> (Some bs, ev, m)))\<rparr>"

section \<open>The connected devices\<close>

record 'r mcxn_soc =
  soc_inputmux :: MCXNInputMuxState
  soc_edma :: "nat \<Rightarrow> MCXNEDMAState"
  soc_lptmr :: "nat \<Rightarrow> MCXNLPTMRState"
  soc_pint :: MCXNPINTState
  soc_mem :: "'r soc_bus_state"

text \<open>Each device is replaced by its state after an operation, and the calls of the operation are delivered.\<close>

definition soc_set_dac :: "nat \<Rightarrow> MCXNDACState \<Rightarrow> 'r mcxn_soc \<Rightarrow> 'r mcxn_soc" where
  "soc_set_dac i d w =
     w\<lparr>soc_mem := (soc_mem w)\<lparr>soc_dac := (soc_dac (soc_mem w))(i := d)\<rparr>,
       soc_edma := (soc_edma w)(0 := edma_deliver (dac_requests i (soc_dac (soc_mem w) i) d) (soc_edma w 0))\<rparr>"

fun soc_inputmux_call :: "im_line \<times> bool \<Rightarrow> 'r mcxn_soc \<Rightarrow> 'r mcxn_soc" where
  "soc_inputmux_call (Im_dma_req_enable dma src, level) w =
     w\<lparr>soc_edma := (soc_edma w)(dma := mcxn_edma_req_enable (soc_edma w dma) src level)\<rparr>"
| "soc_inputmux_call (Im_dac_trig i, level) w = soc_set_dac i (dac_hw_trigger (soc_dac (soc_mem w) i) level) w"
| "soc_inputmux_call _ w = w"

definition soc_set_inputmux :: "MCXNInputMuxState \<Rightarrow> 'r mcxn_soc \<Rightarrow> 'r mcxn_soc" where
  "soc_set_inputmux im w =
     fold soc_inputmux_call (new_calls (im_lines (soc_inputmux w)) (im_lines im)) (w\<lparr>soc_inputmux := im\<rparr>)"

fun soc_lptmr_call :: "nat \<Rightarrow> lptmr_line \<times> bool \<Rightarrow> 'r mcxn_soc \<Rightarrow> 'r mcxn_soc" where
  "soc_lptmr_call n (Lptmr_trigger, level) w =
     soc_set_inputmux (mcxn_inputmux_trigger (soc_inputmux w)
       (uint (if n = 0 then MCXN_INPUTMUX_SRC_LPTMR0 else MCXN_INPUTMUX_SRC_LPTMR1)) level) w"
| "soc_lptmr_call n (Lptmr_irq, level) w = w"

definition soc_set_lptmr :: "nat \<Rightarrow> MCXNLPTMRState \<Rightarrow> 'r mcxn_soc \<Rightarrow> 'r mcxn_soc" where
  "soc_set_lptmr n t w =
     fold (soc_lptmr_call n) (new_calls (lptmr_lines (soc_lptmr w n)) (lptmr_lines t))
       (w\<lparr>soc_lptmr := (soc_lptmr w)(n := t)\<rparr>)"

fun soc_pint_call :: "pint_line \<times> bool \<Rightarrow> 'r mcxn_soc \<Rightarrow> 'r mcxn_soc" where
  "soc_pint_call (Pint_dma_req k, level) w =
     (if k < MCXN_PINT_DMA_LINES
      then w\<lparr>soc_edma := (soc_edma w)(0 := mcxn_edma_req_pulse (soc_edma w 0) (MCXN_DMA_REQ_PINT0 + k) level)\<rparr>
      else w)"
| "soc_pint_call (Pint_irq, level) w = w"

definition soc_set_pint :: "MCXNPINTState \<Rightarrow> 'r mcxn_soc \<Rightarrow> 'r mcxn_soc" where
  "soc_set_pint p w =
     fold soc_pint_call (new_calls (pint_lines (soc_pint w)) (pint_lines p)) (w\<lparr>soc_pint := p\<rparr>)"

definition soc_set_edma :: "MCXNEDMAState \<times> 'r soc_bus_state \<Rightarrow> 'r mcxn_soc \<Rightarrow> 'r mcxn_soc" where
  "soc_set_edma r w = w\<lparr>soc_edma := (soc_edma w)(0 := fst r), soc_mem := snd r\<rparr>"

text \<open>
  What happens to the SoC: register writes of the guest, the deadline of a low-power timer,
  the operator driving the pins, and the main loop polling the bottom half of DMA0.
\<close>

datatype soc_event = Ev_inputmux nat u64 | Ev_dac nat nat u64 nat | Ev_lptmr nat int nat u64
  | Ev_lptmr_deadline nat | Ev_pint nat u64 | Ev_pins u8 | Ev_edma nat u64 | Ev_edma_bh

fun soc_step :: "('r, 'z) edma_bus_scheme \<Rightarrow> soc_event \<Rightarrow> 'r mcxn_soc \<Rightarrow> 'r mcxn_soc" where
  "soc_step rest (Ev_inputmux off v) w = soc_set_inputmux (mcxn_inputmux_write (soc_inputmux w) off v) w"
| "soc_step rest (Ev_dac i off v sz) w =
     (if i < MCXN_NUM_DAC then soc_set_dac i (mcxn_dac_write (soc_dac (soc_mem w) i) off v sz) w else w)"
| "soc_step rest (Ev_lptmr n now off v) w =
     (if n < MCXN_NUM_LPTMR then soc_set_lptmr n (lptmr_write (soc_lptmr w n) now off v) w else w)"
| "soc_step rest (Ev_lptmr_deadline n) w =
     (if n < MCXN_NUM_LPTMR then
        (case lptmr_timer (soc_lptmr w n) of
           None \<Rightarrow> w
         | Some t \<Rightarrow> soc_set_lptmr n (lptmr_tick ((soc_lptmr w n)\<lparr>lptmr_timer := None\<rparr>) t) w)
      else w)"
| "soc_step rest (Ev_pint off v) w = soc_set_pint (mcxn_pint_write (soc_pint w) off v) w"
| "soc_step rest (Ev_pins level) w = soc_set_pint (mcxn_pint_drive_input (soc_pint w) level) w"
| "soc_step rest (Ev_edma off v) w = soc_set_edma (edma_write (soc_bus rest) (soc_edma w 0) off v (soc_mem w)) w"
| "soc_step rest Ev_edma_bh w = soc_set_edma (edma_bh_poll (soc_bus rest) (soc_edma w 0) (soc_mem w)) w"

text \<open>The devices of this theory after a reset of the machine.\<close>

definition soc_reset :: "'r mcxn_soc \<Rightarrow> 'r mcxn_soc" where
  "soc_reset w =
     w\<lparr>soc_inputmux := mcxn_inputmux_reset (soc_inputmux w),
       soc_edma := mcxn_edma_reset \<circ> soc_edma w,
       soc_lptmr := mcxn_lptmr_reset \<circ> soc_lptmr w,
       soc_pint := mcxn_pint_reset (soc_pint w),
       soc_mem := (soc_mem w)\<lparr>soc_dac := mcxn_dac_reset \<circ> soc_dac (soc_mem w)\<rparr>\<rparr>"

section \<open>Requests in step with the devices\<close>

lemma line_level_append: "line_level (lg @ ls) l = fold (\<lambda>(k, b) a. if k = l then b else a) ls (line_level lg l)"
  by (simp add: line_level_def)

lemma fold_req_level:
  "src \<noteq> x \<Longrightarrow> req_level (edma_deliver (map (\<lambda>(_, b). (src, b)) ls) s) x = req_level s x"
  by (induction ls arbitrary: s) (auto simp: edma_deliver_def mcxn_edma_req_def split_beta)

lemma deliver_calls:
  assumes "src < MCXN_EDMA_REQ_SOURCES"
  shows "req_level (edma_deliver (map (\<lambda>(_, b). (src, b)) (filter (\<lambda>(k, _). k = l) ls)) s) src
       = fold (\<lambda>(k, b) a. if k = l then b else a) ls (req_level s src)"
proof (induction ls arbitrary: s)
  case (Cons c ls)
  obtain k b where c: "c = (k, b)" by force
  have "req_level (mcxn_edma_req s src b) src = b" using assms by (simp add: mcxn_edma_req_def)
  with Cons.IH [of "mcxn_edma_req s src b"] Cons.IH [of s] show ?case by (simp add: c edma_deliver_def)
qed (simp add: edma_deliver_def)

text \<open>A device whose log only grows.\<close>

definition dac_grows :: "MCXNDACState \<Rightarrow> MCXNDACState \<Rightarrow> bool" where
  "dac_grows d d' \<longleftrightarrow> (\<exists>ls. dac_lines d' = dac_lines d @ ls)"

lemma dac_grows_same [intro]: "dac_lines d' = dac_lines d \<Longrightarrow> dac_grows d d'"
  by (simp add: dac_grows_def)

lemma dac_grows_trans: "dac_grows d e \<Longrightarrow> dac_grows e f \<Longrightarrow> dac_grows d f"
  by (auto simp: dac_grows_def)

lemma dac_update_irq_grows: "dac_lines d = dac_lines e \<Longrightarrow> dac_grows e (dac_update_irq d)"
  by (auto simp: dac_grows_def dac_update_irq_def Let_def qemu_set_irq_def)

lemma dac_push_grows: "dac_grows d (dac_push d v)"
  by (simp add: dac_push_def Let_def dac_update_irq_grows dac_grows_same)

lemma dac_trigger_grows: "dac_grows d (dac_trigger d)"
  by (simp add: dac_trigger_def dac_update_irq_grows dac_grows_same)

lemma dac_step_grows: "dac_grows d (dac_step e d)"
  by (cases e) (simp_all add: mcxn_dac_write_def dac_hw_trigger_def Let_def
      dac_update_irq_grows dac_push_grows dac_trigger_grows dac_grows_same)

lemma dac_requests_level:
  assumes "i < MCXN_NUM_DAC" and "dac_grows d d'"
    and "req_level s (MCXN_DMA_REQ_DAC0_FIFO + i) = line_level (dac_lines d) Dac_dma_req"
  shows "req_level (edma_deliver (dac_requests i d d') s) (MCXN_DMA_REQ_DAC0_FIFO + i)
       = line_level (dac_lines d') Dac_dma_req"
proof -
  obtain ls where ls: "dac_lines d' = dac_lines d @ ls" using assms(2) by (auto simp: dac_grows_def)
  have "MCXN_DMA_REQ_DAC0_FIFO + i < MCXN_EDMA_REQ_SOURCES"
    using assms(1) by (simp add: MCXN_NUM_DAC_def MCXN_DMA_REQ_DAC0_FIFO_def MCXN_EDMA_REQ_SOURCES_def)
  from deliver_calls [OF this, of Dac_dma_req ls s] assms(3) show ?thesis
    by (simp add: dac_requests_def ls line_level_append)
qed

lemma dac_requests_other:
  "x \<noteq> MCXN_DMA_REQ_DAC0_FIFO + i \<Longrightarrow> req_level (edma_deliver (dac_requests i d d') s) x = req_level s x"
  by (simp add: dac_requests_def fold_req_level)

lemma soc_dac_write_steps: "\<exists>es. soc_dac_write off bs d = fold dac_step es d"
proof (induction off bs d rule: soc_dac_write.induct)
  case (1 off bs d)
  show ?case
  proof (cases "bs = []")
    case True
    then show ?thesis by (intro exI [of _ "[]"]) (simp add: soc_dac_write.simps)
  next
    case False
    let ?l = "memory_access_size (length bs) off"
    from "1" [OF False refl] obtain es where
      "soc_dac_write (off + ?l) (drop ?l bs) (mcxn_dac_write d off (ldn_le (take ?l bs)) ?l) =
         fold dac_step es (mcxn_dac_write d off (ldn_le (take ?l bs)) ?l)" by blast
    then show ?thesis using False
      by (intro exI [of _ "Dac_write off (ldn_le (take ?l bs)) ?l # es"]) (simp add: soc_dac_write.simps [of off bs] Let_def)
  qed
qed

lemma dac_run_grows: "dac_grows d (fold dac_step es d)"
  by (induction es arbitrary: d) (auto intro: dac_grows_trans [OF dac_step_grows])

text \<open>
  The request inputs of DMA0 that the DACs drive show the level each DAC publishes, which is its
  request condition, and are never pulse inputs.
\<close>

definition dac_requests_ok :: "MCXNEDMAState \<Rightarrow> 'r soc_bus_state \<Rightarrow> bool" where
  "dac_requests_ok s m \<longleftrightarrow> (\<forall>i < MCXN_NUM_DAC. dac_ring_ok (soc_dac m i) \<and> dac_lines_ok (soc_dac m i)
     \<and> req_level s (MCXN_DMA_REQ_DAC0_FIFO + i) = line_level (dac_lines (soc_dac m i)) Dac_dma_req
     \<and> \<not> req_edge s (MCXN_DMA_REQ_DAC0_FIFO + i))"

text \<open>The devices behind \<open>rest\<close> are not wired to the request inputs of the DACs.\<close>

definition drives_other_requests :: "('r, 'z) edma_bus_scheme \<Rightarrow> bool" where
  "drives_other_requests rest \<longleftrightarrow> (\<forall>a n bs r i. i < MCXN_NUM_DAC \<longrightarrow>
     MCXN_DMA_REQ_DAC0_FIFO + i \<notin> fst ` set (fst (snd (address_space_read rest a n r)))
     \<and> MCXN_DMA_REQ_DAC0_FIFO + i \<notin> fst ` set (fst (address_space_write rest a bs r))
     \<and> MCXN_DMA_REQ_DAC0_FIFO + i \<notin> fst ` set (fst (snd (dma_memory_read rest a n r))))"

lemma deliver_other: "x \<notin> fst ` set ev \<Longrightarrow> req_level (edma_deliver ev s) x = req_level s x"
  by (induction ev arbitrary: s) (auto simp: edma_deliver_def mcxn_edma_req_def split_beta)

lemma soc_decode_dac: "soc_decode a = Soc_dac_window i off \<Longrightarrow> i < MCXN_NUM_DAC"
proof -
  have f: "i \<in> set [0..<MCXN_NUM_DAC]" if "filter P [0..<MCXN_NUM_DAC] = i # is" for P i "is"
    using that by (metis filter_is_subset list.set_intros(1) subsetD)
  assume "soc_decode a = Soc_dac_window i off"
  then show ?thesis by (auto simp: soc_decode_def Let_def split: if_splits list.splits dest: f)
qed

lemma dac_requests_ok_dac:
  assumes "dac_requests_ok s m" and "i < MCXN_NUM_DAC" and "d' = fold dac_step es (soc_dac m i)"
  shows "dac_requests_ok (edma_deliver (dac_requests i (soc_dac m i) d') s) (m\<lparr>soc_dac := (soc_dac m)(i := d')\<rparr>)"
proof -
  have d: "dac_ring_ok d'" "dac_lines_ok d'" "dac_grows (soc_dac m i) d'"
    using assms dac_run_ok [of "soc_dac m i" es] dac_run_grows by (auto simp: dac_requests_ok_def)
  show ?thesis unfolding dac_requests_ok_def
    using assms(1,2) d dac_requests_level [OF assms(2) d(3), of s]
    by (auto simp: dac_requests_ok_def dac_requests_other)
qed

lemma dac_requests_ok_elsewhere:
  assumes "dac_requests_ok s m" and "\<And>i. i < MCXN_NUM_DAC \<Longrightarrow> MCXN_DMA_REQ_DAC0_FIFO + i \<notin> fst ` set ev"
  shows "dac_requests_ok (edma_deliver ev s) (m\<lparr>elsewhere := r\<rparr>)"
  using assms by (simp add: dac_requests_ok_def deliver_other)

lemma soc_bus_read_ok:
  assumes "dac_requests_ok s m" and "drives_other_requests rest" and "soc_bus_read rest a n m = (bs, ev, m')"
  shows "dac_requests_ok (edma_deliver ev s) m'"
proof (cases "soc_decode a")
  case Soc_elsewhere
  obtain bs1 ev1 r1 where r: "address_space_read rest a n (elsewhere m) = (bs1, ev1, r1)" by (rule prod_cases3)
  have "MCXN_DMA_REQ_DAC0_FIFO + i \<notin> fst ` set ev1" if "i < MCXN_NUM_DAC" for i
    using assms(2) that unfolding drives_other_requests_def by (metis r fst_conv snd_conv)
  with dac_requests_ok_elsewhere [OF assms(1)] assms(3) Soc_elsewhere r show ?thesis
    by (auto simp: soc_bus_read_def)
qed (use assms in \<open>auto simp: soc_bus_read_def\<close>)

lemma soc_bus_write_ok:
  assumes "dac_requests_ok s m" and "drives_other_requests rest" and "soc_bus_write rest a bs m = (ev, m')"
  shows "dac_requests_ok (edma_deliver ev s) m'"
proof (cases "soc_decode a")
  case (Soc_sram off)
  then show ?thesis using assms by (auto simp: soc_bus_write_def dac_requests_ok_def)
next
  case (Soc_dac_window i off)
  obtain es where "soc_dac_write off bs (soc_dac m i) = fold dac_step es (soc_dac m i)"
    using soc_dac_write_steps by blast
  with dac_requests_ok_dac [OF assms(1) soc_decode_dac [OF Soc_dac_window]] assms(3) Soc_dac_window
  show ?thesis by (auto simp: soc_bus_write_def Let_def)
next
  case Soc_elsewhere
  obtain ev1 r1 where r: "address_space_write rest a bs (elsewhere m) = (ev1, r1)" by force
  have "MCXN_DMA_REQ_DAC0_FIFO + i \<notin> fst ` set ev1" if "i < MCXN_NUM_DAC" for i
    using assms(2) that unfolding drives_other_requests_def by (metis r fst_conv)
  with dac_requests_ok_elsewhere [OF assms(1)] assms(3) Soc_elsewhere r show ?thesis
    by (auto simp: soc_bus_write_def)
qed

lemma soc_dma_read_ok:
  assumes "dac_requests_ok s m" and "drives_other_requests rest"
    and "dma_memory_read (soc_bus rest) a n m = (r, ev, m')"
  shows "dac_requests_ok (edma_deliver ev s) m'"
proof (cases "soc_decode a = Soc_elsewhere")
  case True
  obtain r0 ev1 r1 where r: "dma_memory_read rest a n (elsewhere m) = (r0, ev1, r1)" by (rule prod_cases3)
  have "MCXN_DMA_REQ_DAC0_FIFO + i \<notin> fst ` set ev1" if "i < MCXN_NUM_DAC" for i
    using assms(2) that unfolding drives_other_requests_def by (metis r fst_conv snd_conv)
  with dac_requests_ok_elsewhere [OF assms(1)] assms(3) True r show ?thesis by (auto simp: soc_bus_def)
next
  case False
  then have "\<exists>bs. soc_bus_read rest a n m = (bs, ev, m')"
    using assms(3) by (auto simp: soc_bus_def split: soc_target.splits prod.splits)
  with soc_bus_read_ok [OF assms(1,2)] show ?thesis by blast
qed

interpretation soc_dma: dma_peripherals "soc_bus rest"
  "\<lambda>s m. req_enabled s = g \<and> (drives_other_requests rest \<longrightarrow> dac_requests_ok s m)" for rest g
proof (unfold_locales, goal_cases)
  case (1 s t m)
  then show ?case by (simp add: dac_requests_ok_def)
next
  case (2 s m a n bs ev m')
  then show ?case using soc_bus_read_ok by (auto simp: soc_bus_def)
next
  case (3 s m a bs ev m')
  then show ?case using soc_bus_write_ok by (auto simp: soc_bus_def)
next
  case (4 s m a n r ev m')
  then show ?case using soc_dma_read_ok by auto
next
  case (5 s m l)
  then show ?case by (auto simp: dac_requests_ok_def)
qed

text \<open>
  The whole SoC in step: the requests of the DACs as above, and the request gates of both
  controllers as the registers of the input multiplexer have them.  The reset values leave the
  gates of the unused sources 122 to 127 open in the controllers.
\<close>

definition soc_gates_ok :: "'r mcxn_soc \<Rightarrow> bool" where
  "soc_gates_ok w \<longleftrightarrow> (\<forall>dma src. dma < 2 \<longrightarrow> src < 122 \<longrightarrow>
     req_enabled (soc_edma w dma) src = im_gate (im_regs (soc_inputmux w)) dma src)"

definition soc_in_step :: "'r mcxn_soc \<Rightarrow> bool" where
  "soc_in_step w \<longleftrightarrow> dac_requests_ok (soc_edma w 0) (soc_mem w) \<and> soc_gates_ok w"

lemma soc_set_dac_in_step:
  assumes "soc_in_step w" and "i < MCXN_NUM_DAC"
  shows "soc_in_step (soc_set_dac i (dac_step e (soc_dac (soc_mem w) i)) w)"
  using assms dac_requests_ok_dac [of "soc_edma w 0" "soc_mem w" i _ "[e]"]
  by (simp add: soc_in_step_def soc_set_dac_def soc_gates_ok_def)

lemma soc_trigger_calls:
  assumes "soc_in_step w" and "\<And>c. c \<in> set ls \<Longrightarrow> \<exists>d \<in> set im_destinations. fst c = d"
  shows "soc_in_step (fold soc_inputmux_call ls w)"
  using assms
proof (induction ls arbitrary: w)
  case (Cons c ls)
  obtain d b where c: "c = (d, b)" by force
  with Cons.prems(2) have "d \<in> set im_destinations" by force
  moreover have "i < MCXN_NUM_DAC" if "Im_dac_trig i \<in> set im_destinations" for i
    using that by (auto simp: im_destinations_eq MCXN_NUM_DAC_def)
  moreover have "Im_dma_req_enable i j \<notin> set im_destinations" for i j by (simp add: im_destinations_eq)
  ultimately have "soc_in_step (soc_inputmux_call (d, b) w)"
    using Cons.prems(1) soc_set_dac_in_step [OF Cons.prems(1), of _ "Dac_hw_trigger b"]
    by (induction d) auto
  then have "soc_in_step (soc_inputmux_call c w)" by (simp add: c)
  then show ?case using Cons by simp
qed simp

lemma soc_trigger_in_step:
  assumes "soc_in_step w"
  shows "soc_in_step (soc_set_inputmux (mcxn_inputmux_trigger (soc_inputmux w) src level) w)"
proof (cases "level \<and> 0 \<le> src \<and> src < int MCXN_INPUTMUX_NTRIG_SRC")
  case True
  let ?ds = "filter (\<lambda>d. im_selects (im_regs (soc_inputmux w)) d (of_nat (nat src))) im_destinations"
  have t: "mcxn_inputmux_trigger (soc_inputmux w) src level =
      (soc_inputmux w)\<lparr>im_lines := im_lines (soc_inputmux w) @ im_pulses ?ds\<rparr>"
    using inputmux_routes [of "nat src" "soc_inputmux w"] True by (simp add: nat_less_iff)
  have "soc_in_step (w\<lparr>soc_inputmux := mcxn_inputmux_trigger (soc_inputmux w) src level\<rparr>)"
    using assms by (simp add: t soc_in_step_def soc_gates_ok_def)
  moreover have "\<exists>d \<in> set im_destinations. fst c = d" if "c \<in> set (im_pulses ?ds)" for c
    using that by (auto simp: im_pulses_def)
  ultimately show ?thesis by (simp add: soc_set_inputmux_def t soc_trigger_calls)
next
  case False
  then have "mcxn_inputmux_trigger (soc_inputmux w) src level = soc_inputmux w"
    by (auto simp: mcxn_inputmux_trigger_def)
  then show ?thesis using assms by (simp add: soc_set_inputmux_def new_calls_def)
qed

lemma soc_lptmr_in_step:
  "soc_in_step w \<Longrightarrow> soc_in_step (soc_set_lptmr n t w)"
proof -
  have "soc_in_step (soc_lptmr_call n c w)" if "soc_in_step w" for c w
    using that soc_trigger_in_step by (cases "(n, c, w)" rule: soc_lptmr_call.cases) auto
  then have "soc_in_step (fold (soc_lptmr_call n) ls w)" if "soc_in_step w" for ls w
    using that by (intro fold_invariant [where Q = "\<lambda>_. True" and P = soc_in_step]) simp_all
  moreover assume "soc_in_step w"
  then have "soc_in_step (w\<lparr>soc_lptmr := (soc_lptmr w)(n := t)\<rparr>)" by (simp add: soc_in_step_def soc_gates_ok_def)
  ultimately show ?thesis by (simp add: soc_set_lptmr_def)
qed

lemma soc_pint_in_step:
  "soc_in_step w \<Longrightarrow> soc_in_step (soc_set_pint p w)"
proof -
  have "soc_in_step (soc_pint_call c w)" if "soc_in_step w" for c w
    using that
    by (cases "(c, w)" rule: soc_pint_call.cases)
       (auto simp: soc_in_step_def soc_gates_ok_def dac_requests_ok_def mcxn_edma_req_pulse_def
          MCXN_DMA_REQ_PINT0_def MCXN_DMA_REQ_DAC0_FIFO_def MCXN_PINT_DMA_LINES_def)
  then have "soc_in_step (fold soc_pint_call ls w)" if "soc_in_step w" for ls w
    using that by (intro fold_invariant [where Q = "\<lambda>_. True" and P = soc_in_step]) simp_all
  moreover assume "soc_in_step w"
  then have "soc_in_step (w\<lparr>soc_pint := p\<rparr>)" by (simp add: soc_in_step_def soc_gates_ok_def)
  ultimately show ?thesis by (simp add: soc_set_pint_def)
qed

lemma soc_gate_calls:
  assumes "\<And>l b. (l, b) \<in> set ls \<Longrightarrow> \<exists>dma src. l = Im_dma_req_enable dma src \<and> src < 128 \<and> b = G dma src"
  shows "soc_mem (fold soc_inputmux_call ls w) = soc_mem w
    \<and> soc_inputmux (fold soc_inputmux_call ls w) = soc_inputmux w
    \<and> req_level (soc_edma (fold soc_inputmux_call ls w) dma) = req_level (soc_edma w dma)
    \<and> req_edge (soc_edma (fold soc_inputmux_call ls w) dma) = req_edge (soc_edma w dma)
    \<and> req_enabled (soc_edma (fold soc_inputmux_call ls w) dma) src =
      (if \<exists>b. (Im_dma_req_enable dma src, b) \<in> set ls then G dma src else req_enabled (soc_edma w dma) src)"
  using assms
proof (induction ls arbitrary: w)
  case (Cons c ls)
  obtain l b where lb: "c = (l, b)" by (rule prod.exhaust)
  then have "\<exists>d s. l = Im_dma_req_enable d s \<and> s < 128 \<and> b = G d s" by (intro Cons.prems) simp
  then obtain d s where "l = Im_dma_req_enable d s" "s < 128" "b = G d s" by (elim exE conjE)
  with lb have c: "c = (Im_dma_req_enable d s, G d s)" "s < 128" by simp_all
  let ?v = "soc_inputmux_call c w"
  have v: "soc_mem ?v = soc_mem w" "soc_inputmux ?v = soc_inputmux w"
    "req_level (soc_edma ?v dma) = req_level (soc_edma w dma)" "req_edge (soc_edma ?v dma) = req_edge (soc_edma w dma)"
    "req_enabled (soc_edma ?v dma) src = (if dma = d \<and> src = s then G d s else req_enabled (soc_edma w dma) src)"
    using c(2) by (auto simp: c(1) mcxn_edma_req_enable_def MCXN_EDMA_REQ_SOURCES_def)
  have "\<exists>dma src. l = Im_dma_req_enable dma src \<and> src < 128 \<and> b = G dma src" if "(l, b) \<in> set ls" for l b
    using that by (intro Cons.prems) simp
  note ih = Cons.IH [OF this, of ?v, unfolded v]
  have m: "(\<exists>b. (Im_dma_req_enable dma src, b) \<in> set (c # ls)) \<longleftrightarrow>
      dma = d \<and> src = s \<or> (\<exists>b. (Im_dma_req_enable dma src, b) \<in> set ls)"
    unfolding c by (simp add: ex_disj_distrib)
  show ?case using ih unfolding m fold_simps
    by (cases "dma = d \<and> src = s") (simp_all only: if_True if_False simp_thms if_cancel)
qed simp

lemma soc_inputmux_write_in_step:
  assumes "soc_in_step w"
  shows "soc_in_step (soc_set_inputmux (mcxn_inputmux_write (soc_inputmux w) off v) w)"
proof -
  let ?im = "mcxn_inputmux_write (soc_inputmux w) off v" and ?G = "im_gate (im_regs (mcxn_inputmux_write (soc_inputmux w) off v))"
  obtain ls where ls: "im_lines ?im = im_lines (soc_inputmux w) @ ls"
    and gates: "\<And>l b. (l, b) \<in> set ls \<Longrightarrow> \<exists>dma src. l = Im_dma_req_enable dma src \<and> src < 128 \<and> b = ?G dma src"
    and same: "\<And>dma src. dma < 2 \<Longrightarrow> src < 128 \<Longrightarrow> \<forall>b. (Im_dma_req_enable dma src, b) \<notin> set ls \<Longrightarrow>
        ?G dma src = im_gate (im_regs (soc_inputmux w)) dma src"
    using inputmux_write_gates [of "soc_inputmux w" off v] by blast
  let ?w = "w\<lparr>soc_inputmux := ?im\<rparr>"
  note g = soc_gate_calls [of ls ?G, OF gates]
  have "dac_requests_ok (soc_edma (fold soc_inputmux_call ls ?w) 0) (soc_mem (fold soc_inputmux_call ls ?w))"
    using assms by (simp add: soc_in_step_def dac_requests_ok_def g)
  moreover have "soc_gates_ok (fold soc_inputmux_call ls ?w)"
    using assms same by (auto simp: soc_in_step_def soc_gates_ok_def g)
  ultimately show ?thesis by (simp add: soc_in_step_def soc_set_inputmux_def ls)
qed

lemma soc_edma_in_step:
  assumes "soc_in_step w" and "r = (s', m')"
    and "req_enabled s' = req_enabled (soc_edma w 0)" and "dac_requests_ok s' m'"
  shows "soc_in_step (soc_set_edma r w)"
  using assms by (simp add: soc_in_step_def soc_set_edma_def soc_gates_ok_def)

lemma soc_step_in_step:
  assumes "drives_other_requests rest" and "soc_in_step w"
  shows "soc_in_step (soc_step rest e w)"
proof (cases e)
  case (Ev_edma off v)
  obtain s' m' where r: "edma_write (soc_bus rest) (soc_edma w 0) off v (soc_mem w) = (s', m')" by force
  have "req_enabled s' = req_enabled (soc_edma w 0)" "dac_requests_ok s' m'"
    using soc_dma.edma_write_sync [OF _ r, of "req_enabled (soc_edma w 0)"] assms by (simp_all add: soc_in_step_def)
  then show ?thesis using soc_edma_in_step [OF assms(2) r] Ev_edma by simp
next
  case Ev_edma_bh
  obtain s' m' where r: "edma_bh_poll (soc_bus rest) (soc_edma w 0) (soc_mem w) = (s', m')" by force
  have "req_enabled s' = req_enabled (soc_edma w 0)" "dac_requests_ok s' m'"
    using soc_dma.bh_poll_sync [OF _ r, of "req_enabled (soc_edma w 0)"] assms by (simp_all add: soc_in_step_def)
  then show ?thesis using soc_edma_in_step [OF assms(2) r] Ev_edma_bh by simp
next
  case (Ev_dac i off v sz)
  then show ?thesis using soc_set_dac_in_step [OF assms(2), of i "Dac_write off v sz"] assms(2) by simp
qed (use assms(2) in \<open>auto simp: soc_inputmux_write_in_step soc_lptmr_in_step soc_pint_in_step split: option.splits\<close>)

text \<open>The machine before its first reset: no device has driven a line yet.\<close>

definition soc_fresh :: "'r mcxn_soc \<Rightarrow> bool" where
  "soc_fresh w \<longleftrightarrow> (\<forall>i < MCXN_NUM_DAC. dac_lines (soc_dac (soc_mem w) i) = []
     \<and> \<not> dma_req_level (soc_dac (soc_mem w) i))"

lemma im_reset_gates:
  "map (im_regs (mcxn_inputmux_reset s)) [448, 452, 456, 460, 480, 484, 488, 492]
     = [0xFFFFFFFF, 0xFFFFFFFF, 0xFFFFFFFF, 0x03FFFFFF, 0xFFFFFFFF, 0xFFFFFFFF, 0xFFFFFFFF, 0x03FFFFFF]"
  by (simp add: mcxn_inputmux_reset_def im_reset_def)

lemma im_reset_gate:
  assumes "dma < 2" and "src < 122"
  shows "im_gate (im_regs (mcxn_inputmux_reset s)) dma src"
proof -
  have all: "bit (0xFFFFFFFF :: u32) k" if "k < 32" for k
  proof -
    have m: "(0xFFFFFFFF :: u32) = - 1" by simp
    from that show ?thesis unfolding m by simp
  qed
  have top: "bit (0x03FFFFFF :: u32) k \<longleftrightarrow> k < 26" for k
  proof -
    have m: "(0x03FFFFFF :: u32) = mask 26" by (simp add: mask_eq_exp_minus_1)
    show ?thesis unfolding m by (auto simp: bit_simps)
  qed
  have e: "src = 32 * (src div 32) + src mod 32" "src mod 32 < 32" by simp_all
  then have "src div 32 = 0 \<or> src div 32 = 1 \<or> src div 32 = 2 \<or> src div 32 = 3" using assms(2) by linarith
  moreover have "src mod 32 < 26" if "src div 32 = 3" using e assms(2) that by linarith
  moreover have "dma = 0 \<or> dma = 1" using assms(1) by auto
  ultimately show ?thesis
    using im_reset_gates [of s] e(2) by (elim disjE) (simp_all add: im_gate_def im_req_base_def im_offsets all top del: bit_numeral_word_iff)
qed

lemma soc_reset_in_step:
  assumes "soc_fresh w"
  shows "soc_in_step (soc_reset w)"
proof -
  have "dac_lines_ok (mcxn_dac_reset d) \<and> dac_ring_ok (mcxn_dac_reset d)
      \<and> \<not> line_level (dac_lines (mcxn_dac_reset d)) Dac_dma_req"
    if "dac_lines d = []" "\<not> dma_req_level d" for d
    using that by (simp add: mcxn_dac_reset_def dac_fifo_reset_def Let_def dac_lines_ok_def dac_ring_ok_def dac_req_def
        dac_depth_def tst_def)
  then show ?thesis
    using assms im_reset_gate
    by (simp add: soc_in_step_def soc_fresh_def soc_reset_def dac_requests_ok_def soc_gates_ok_def mcxn_edma_reset_def)
qed

section \<open>Pin edges\<close>

lemma soc_pint_fold:
  assumes "\<forall>k \<in> set ks. k < 8"
  shows "fold soc_pint_call (pint_pulses p level ks) w =
     fold (\<lambda>k w. if (pint_rises p level k \<or> pint_falls p level k) \<and> k < MCXN_PINT_DMA_LINES
                 then w\<lparr>soc_edma := (soc_edma w)(0 := mcxn_edma_req_pulse (soc_edma w 0) (MCXN_DMA_REQ_PINT0 + k) True)\<rparr>
                 else w) ks w"
  using assms
proof (induction ks arbitrary: w)
  case (Cons k ks)
  have p: "mcxn_edma_req_pulse s src False = s" for s src by (simp add: mcxn_edma_req_pulse_def)
  have "pint_pulses p level (k # ks) = pint_pulses p level [k] @ pint_pulses p level ks" by (simp add: pint_pulses_def)
  moreover have "fold soc_pint_call (pint_pulses p level [k]) w =
      (if (pint_rises p level k \<or> pint_falls p level k) \<and> k < MCXN_PINT_DMA_LINES
       then w\<lparr>soc_edma := (soc_edma w)(0 := mcxn_edma_req_pulse (soc_edma w 0) (MCXN_DMA_REQ_PINT0 + k) True)\<rparr> else w)"
    by (simp add: pint_pulses_def p)
  ultimately show ?case using Cons by simp
qed (simp add: pint_pulses_def)

lemma soc_pulse_fold:
  fixes fires :: "nat \<Rightarrow> bool" and w :: "'r mcxn_soc"
  defines "v \<equiv> \<lambda>ks. fold (\<lambda>k w. if fires k \<and> k < MCXN_PINT_DMA_LINES
                 then w\<lparr>soc_edma := (soc_edma w)(0 := mcxn_edma_req_pulse (soc_edma w 0) (MCXN_DMA_REQ_PINT0 + k) True)\<rparr>
                 else w) ks w"
  shows "(req_level (soc_edma (v ks) 0) src \<longleftrightarrow> req_level (soc_edma w 0) src
            \<or> (\<exists>k \<in> set ks. fires k \<and> k < MCXN_PINT_DMA_LINES \<and> src = MCXN_DMA_REQ_PINT0 + k))
    \<and> (req_edge (soc_edma (v ks) 0) src \<longleftrightarrow> req_edge (soc_edma w 0) src
            \<or> (\<exists>k \<in> set ks. fires k \<and> k < MCXN_PINT_DMA_LINES \<and> src = MCXN_DMA_REQ_PINT0 + k))
    \<and> (edma_bh (soc_edma (v ks) 0) \<longleftrightarrow> edma_bh (soc_edma w 0) \<or> (\<exists>k \<in> set ks. fires k \<and> k < MCXN_PINT_DMA_LINES))
    \<and> soc_edma (v ks) 1 = soc_edma w 1"
  unfolding v_def
proof (induction ks rule: rev_induct)
  case (snoc k ks)
  have p: "mcxn_edma_req_pulse s (MCXN_DMA_REQ_PINT0 + k) True =
      s\<lparr>req_edge := (req_edge s)(MCXN_DMA_REQ_PINT0 + k := True), req_level := (req_level s)(MCXN_DMA_REQ_PINT0 + k := True),
        edma_bh := True\<rparr>" if "k < MCXN_PINT_DMA_LINES" for s
    using that by (simp add: mcxn_edma_req_pulse_def MCXN_EDMA_REQ_SOURCES_def MCXN_PINT_DMA_LINES_def MCXN_DMA_REQ_PINT0_def)
  show ?case
  proof (cases "fires k \<and> k < MCXN_PINT_DMA_LINES")
    case True
    then show ?thesis using snoc by (simp add: p bex_Un)
  next
    case False
    then show ?thesis using snoc by (auto simp: bex_Un)
  qed
qed simp

section \<open>Properties\<close>


text \<open>A machine that was just created, and a bus on which nothing else answers.\<close>

definition zero_dac :: "bool \<Rightarrow> MCXNDACState" where
  "zero_dac hp = \<lparr>dac_regs = (\<lambda>_. 0), dma_req_level = False, hpdac = hp, dac_fifo = (\<lambda>_. 0), wptr = 0, rptr = 0,
     dac_count = 0, dac_out = 0, warned_ptg = False, warned_swmd = False, dac_lines = []\<rparr>"

definition zero_soc :: "unit mcxn_soc" where
  "zero_soc = \<lparr>soc_inputmux = \<lparr>im_regs = (\<lambda>_. 0), im_lines = []\<rparr>,
     soc_edma = (\<lambda>n. idle_edma\<lparr>dma_id := of_nat n\<rparr>),
     soc_lptmr = (\<lambda>_. \<lparr>lptmr_lines = [], lptmr_timer = None, lptmr_clk = Some 12000000, lptmr_csr = 0, lptmr_psr = 0,
        lptmr_cmr = 0, lptmr_cnr = 0, lptmr_base_ns = 0\<rparr>),
     soc_pint = \<lparr>pint_lines = [], pint_regs = (\<lambda>_. 0), pin_level = 0\<rparr>,
     soc_mem = \<lparr>sram = (\<lambda>_. 0), soc_dac = (\<lambda>i. zero_dac (i = 2)), elsewhere = ()\<rparr>\<rparr>"

definition silent_bus :: "unit edma_bus" where
  "silent_bus = \<lparr>address_space_read = (\<lambda>a n r. (replicate n 0, [], r)), address_space_write = (\<lambda>a bs r. ([], r)),
     dma_memory_read = (\<lambda>a n r. (None, [], r))\<rparr>"


text \<open>
  An edge on a pin raises a pulse request at DMA0 for exactly the first four channels
  that fire, schedules the bottom half exactly if one of them did, and touches neither the
  other request inputs nor DMA1.
\<close>

theorem soc_pin_edges_request_dma:
  "let v = soc_step rest (Ev_pins level) w;
       fires = (\<lambda>k. k < MCXN_PINT_DMA_LINES \<and> (pint_rises (soc_pint w) level k \<or> pint_falls (soc_pint w) level k))
   in (\<forall>src. req_level (soc_edma v 0) src = (req_level (soc_edma w 0) src \<or> (\<exists>k. fires k \<and> src = MCXN_DMA_REQ_PINT0 + k)))
    \<and> (\<forall>src. req_edge (soc_edma v 0) src = (req_edge (soc_edma w 0) src \<or> (\<exists>k. fires k \<and> src = MCXN_DMA_REQ_PINT0 + k)))
    \<and> edma_bh (soc_edma v 0) = (edma_bh (soc_edma w 0) \<or> (\<exists>k. fires k))
    \<and> soc_edma v 1 = soc_edma w 1"
proof -
  let ?p = "soc_pint w" and ?t = "mcxn_pint_drive_input (soc_pint w) level"
  let ?fires = "\<lambda>k. pint_rises ?p level k \<or> pint_falls ?p level k"
  obtain b where l: "pint_lines ?t = pint_lines ?p @ pint_pulses ?p level [0..<8] @ [(Pint_irq, b)]"
    by (simp add: mcxn_pint_drive_input_def Let_def mcxn_pint_update_irq_def qemu_set_irq_def pint_scan MCXN_PINT_CHANNELS_def)
  have v: "soc_step rest (Ev_pins level) w =
      fold (\<lambda>k w. if ?fires k \<and> k < MCXN_PINT_DMA_LINES
                 then w\<lparr>soc_edma := (soc_edma w)(0 := mcxn_edma_req_pulse (soc_edma w 0) (MCXN_DMA_REQ_PINT0 + k) True)\<rparr>
                 else w) [0..<8] (w\<lparr>soc_pint := ?t\<rparr>)"
    by (simp add: soc_set_pint_def l soc_pint_fold)
  have k: "k < 8" if "k < MCXN_PINT_DMA_LINES" for k using that by (simp add: MCXN_PINT_DMA_LINES_def)
  have e: "(\<exists>k \<in> set [0..<8]. ?fires k \<and> k < MCXN_PINT_DMA_LINES \<and> src = MCXN_DMA_REQ_PINT0 + k)
      \<longleftrightarrow> (\<exists>k. (k < MCXN_PINT_DMA_LINES \<and> ?fires k) \<and> src = MCXN_DMA_REQ_PINT0 + k)" for src
    using k by auto
  have e': "(\<exists>k \<in> set [0..<8]. ?fires k \<and> k < MCXN_PINT_DMA_LINES) \<longleftrightarrow> (\<exists>k. k < MCXN_PINT_DMA_LINES \<and> ?fires k)"
    using k by auto
  note f = soc_pulse_fold [of ?fires "[0..<8]" "w\<lparr>soc_pint := ?t\<rparr>", unfolded e e']
  show ?thesis unfolding Let_def v by (intro conjI allI) (simp_all only: f, simp_all)
qed

text \<open>
  C40: a reset while a DAC requests data breaks the link: the DAC keeps the level it last
  published while DMA0 forgets it, so a guest that enables the DMA request first gets no call
  on the line, and the transfer never starts although the DAC is empty and asks for data.
\<close>

theorem soc_reset_loses_dac_request:
  assumes "i < MCXN_NUM_DAC" and "dma_req_level (soc_dac (soc_mem w) i)"
  shows "let v = fold (soc_step rest) [Ev_dac i DAC_DER 4 4, Ev_dac i DAC_GCR 9 4] (soc_reset w)
     in dac_req (soc_dac (soc_mem v) i) \<and> dac_count (soc_dac (soc_mem v) i) = 0
      \<and> \<not> req_level (soc_edma v 0) (MCXN_DMA_REQ_DAC0_FIFO + i)"
proof -
  let ?d0 = "mcxn_dac_reset (soc_dac (soc_mem w) i)"
  let ?d1 = "mcxn_dac_write ?d0 DAC_DER 4 4"
  let ?d2 = "mcxn_dac_write ?d1 DAC_GCR 9 4"
  have four: "(4 :: u32) = flag 2" by (simp add: flag_def)
  have 1: "dac_regs ?d1 = (\<lambda>_. 0)(DAC_DER div 4 := 4)" "dac_count ?d1 = 0" "dac_req ?d1" "dma_req_level ?d1"
      "dac_requests i ?d0 ?d1 = []"
    using assms(2)
    by (simp_all add: mcxn_dac_write_def mcxn_dac_reset_def dac_fifo_reset_def Let_def dac_offsets dac_update_irq_def
        dac_req_def dac_fsr_def four bit_flag_iff fun_upd_idem dac_requests_def new_calls_def qemu_set_irq_def)
  have 2: "dac_req ?d2" "dac_count ?d2 = 0" "dac_requests i ?d1 ?d2 = []"
    using 1(1,2,4)
    by (simp_all add: mcxn_dac_write_def Let_def dac_offsets dac_update_irq_def
        dac_req_def dac_fsr_def four bit_flag_iff fun_upd_idem dac_requests_def new_calls_def qemu_set_irq_def)
  show ?thesis using assms(1) 1 2
    by (simp add: Let_def soc_set_dac_def soc_reset_def mcxn_edma_reset_def)
qed

theorem soc_reset_loses_dac_request_witness:
  "let w = soc_step silent_bus (Ev_dac 0 DAC_DER 4 4) (soc_reset zero_soc);
       v = fold (soc_step silent_bus) [Ev_dac 0 DAC_DER 4 4, Ev_dac 0 DAC_GCR 9 4] (soc_reset w)
   in req_level (soc_edma w 0) 25 \<and> dac_req (soc_dac (soc_mem v) 0) \<and> \<not> req_level (soc_edma v 0) 25"
proof -
  define w where "w = soc_step silent_bus (Ev_dac 0 DAC_DER 4 4) (soc_reset zero_soc)"
  have four: "(4 :: u32) = flag 2" by (simp add: flag_def)
  have d: "dma_req_level (soc_dac (soc_mem w) 0)" "req_level (soc_edma w 0) 25"
    by (simp_all add: w_def MCXN_NUM_DAC_def soc_set_dac_def soc_reset_def zero_soc_def zero_dac_def mcxn_dac_write_def
        mcxn_dac_reset_def dac_fifo_reset_def Let_def dac_offsets dac_update_irq_def dac_req_def dac_fsr_def four
        bit_flag_iff dac_requests_def new_calls_def qemu_set_irq_def edma_deliver_def mcxn_edma_req_def
        MCXN_EDMA_REQ_SOURCES_def MCXN_DMA_REQ_DAC0_FIFO_def)
  have "0 < MCXN_NUM_DAC" by (simp add: MCXN_NUM_DAC_def)
  from soc_reset_loses_dac_request [OF this d(1), of silent_bus] d(2) show ?thesis
    unfolding Let_def w_def [symmetric] by (simp add: MCXN_DMA_REQ_DAC0_FIFO_def)
qed

end
