(* ===== verification/Mcxn_Stream.thy ===== *)
theory Mcxn_Stream
  imports Mcxn_Soc
begin

unbundle bit_operations_syntax

text \<open>
  Waveform output without the CPU: a DMA0 channel refills a DAC from SRAM on the DAC's request,
  and a low-power timer, routed through the input multiplexer, paces the conversions.
\<close>

section \<open>Refilling the DAC\<close>

text \<open>
  The channel moves one sample of \<open>2^e\<close> bytes per request from consecutive SRAM addresses to the
  DATA register of DAC \<open>i\<close>, whose request line it is connected to.
\<close>

definition dac_data_addr :: "nat \<Rightarrow> u32" where
  "dac_data_addr i = of_nat (dac_base ! i + DAC_DATA)"

definition feeds_dac :: "MCXNEDMAChan \<Rightarrow> nat \<Rightarrow> nat \<Rightarrow> bool" where
  "feeds_dac c i e \<longleftrightarrow> e \<le> 2 \<and> i < MCXN_NUM_DAC \<and> tcd_plain c \<and> tcd_citer c \<noteq> 0
     \<and> ATTR_SSIZE (tcd_attr c) = e \<and> ATTR_DSIZE (tcd_attr c) = e
     \<and> ATTR_SMOD (tcd_attr c) = 0 \<and> ATTR_DMOD (tcd_attr c) = 0
     \<and> tcd_soff c = of_nat (2 ^ e) \<and> tcd_doff c = 0 \<and> tcd_length c = 2 ^ e
     \<and> tcd_daddr c = dac_data_addr i \<and> unat (tcd_saddr c) mod 2 ^ e = 0
     \<and> tst (ch_csr c) CH_CSR_ERQ \<and> unat (ch_mux c AND CH_MUX_SRC_MASK) = MCXN_DMA_REQ_DAC0_FIFO + i"

definition sram_sample :: "(nat \<Rightarrow> u8) \<Rightarrow> nat \<Rightarrow> nat \<Rightarrow> nat \<Rightarrow> u64" where
  "sram_sample ram off e j = ldn_le (map (\<lambda>b. ram (off + j * 2 ^ e + b)) [0..<2 ^ e])"

text \<open>The watermark: the DAC asks for data while its FIFO holds no more samples than this.\<close>

definition dac_watermark :: "MCXNDACState \<Rightarrow> nat" where
  "dac_watermark d = unat (dac_regs d (DAC_FCR div 4) AND (if hpdac d then 0x1F else 0x0F))"

definition dac_requests_data :: "bool \<Rightarrow> MCXNDACState \<Rightarrow> bool" where
  "dac_requests_data hp d \<longleftrightarrow> dac_streaming hp d \<and> dac_lines_ok d \<and> tst (dac_regs d (DAC_DER div 4)) DER_WM_DMAEN"

lemma dac_watermark_below_depth: "dac_watermark d < dac_depth d"
proof -
  have "dac_watermark d \<le> unat (if hpdac d then 0x1F else 0x0F :: u32)"
    unfolding dac_watermark_def by (intro word_le_nat_alt [THEN iffD1] word_and_le1)
  then show ?thesis by (auto simp: dac_depth_def)
qed

lemma dac_req_watermark:
  assumes "dac_requests_data hp d"
  shows "dac_req d \<longleftrightarrow> dac_count d \<le> dac_watermark d"
  using assms
  by (auto simp: dac_requests_data_def dac_req_def dac_fsr_def dac_watermark_def Let_def FSR_W1C_MASK_def bit_simps bit_flag_iff)

lemma dac_data_decode: "i < MCXN_NUM_DAC \<Longrightarrow> soc_decode (dac_data_addr i) = Soc_dac_window i DAC_DATA"
proof -
  assume "i < MCXN_NUM_DAC"
  then have "i = 0 \<or> i = 1 \<or> i = 2" by (auto simp: MCXN_NUM_DAC_def)
  then show ?thesis
    by (elim disjE) (simp_all add: dac_data_addr_def dac_base_def DAC_DATA_def soc_decode_def Let_def MCXN_SRAM_NS_def
        MCXN_SRAM_S_def sram_size_def MCXN_NUM_DAC_def MCXN_DAC_SIZE_def upt_rec)
qed

lemma sram_decode_next:
  assumes "soc_decode a = Soc_sram off" and "off + n < sram_size"
  shows "soc_decode (a + of_nat n) = Soc_sram (off + n)"
proof -
  consider "MCXN_SRAM_NS \<le> unat a" "unat a < MCXN_SRAM_NS + sram_size" "off = unat a - MCXN_SRAM_NS"
    | "\<not> (MCXN_SRAM_NS \<le> unat a \<and> unat a < MCXN_SRAM_NS + sram_size)"
      "MCXN_SRAM_S \<le> unat a" "unat a < MCXN_SRAM_S + sram_size" "off = unat a - MCXN_SRAM_S"
    using assms(1) by (auto simp: soc_decode_def Let_def split: if_splits list.splits)
  then show ?thesis
  proof cases
    case 1
    then have "unat (a + of_nat n) = unat a + n"
      using assms(2) by (simp add: MCXN_SRAM_NS_def sram_size_def unat_plus_if_size word_size unat_of_nat)
    with 1 assms(2) show ?thesis by (simp add: soc_decode_def Let_def less_diff_conv2)
  next
    case 2
    then have "unat (a + of_nat n) = unat a + n"
      using assms(2) by (simp add: MCXN_SRAM_S_def sram_size_def unat_plus_if_size word_size unat_of_nat)
    with 2 assms(2) show ?thesis
      by (simp add: soc_decode_def Let_def MCXN_SRAM_NS_def MCXN_SRAM_S_def sram_size_def)
  qed
qed

lemma soc_dac_write_data:
  assumes "e \<le> 2" and "length bs = 2 ^ e"
  shows "soc_dac_write DAC_DATA bs d = dac_push d (ucast (ldn_le bs))"
proof -
  have "e = 0 \<or> e = 1 \<or> e = 2" using assms(1) by auto
  then have "memory_access_size (length bs) DAC_DATA = length bs"
    using assms(2) by (auto simp: memory_access_size_def DAC_DATA_def)
  moreover have "bs \<noteq> []" using assms(2) by auto
  ultimately show ?thesis
    by (subst soc_dac_write.simps) (simp add: Let_def soc_dac_write.simps [of _ "[]"] mcxn_dac_write_def, simp add: dac_offsets)
qed

lemma feeds_valid:
  assumes "feeds_dac c i e"
  shows "tcd_valid c"
proof -
  have e: "e = 0 \<or> e = 1 \<or> e = 2" using assms by (auto simp: feeds_dac_def)
  have i: "i = 0 \<or> i = 1 \<or> i = 2" using assms by (auto simp: feeds_dac_def MCXN_NUM_DAC_def)
  have "unat (dac_data_addr i) mod 2 ^ e = 0"
    using e i by (elim disjE) (simp_all add: dac_data_addr_def dac_base_def DAC_DATA_def)
  moreover have "sint (of_nat (2 ^ e) :: u16) mod 2 ^ e = 0" using e by (elim disjE) simp_all
  moreover have "(2 :: nat) ^ e \<le> 64" using e by (elim disjE) simp_all
  ultimately show ?thesis using assms
    by (simp add: tcd_valid_def tcd_errors_def Let_def feeds_dac_def tcd_plain_count(1) MCXN_EDMA_MAX_XFER_def
        tcd_length_def)
qed

text \<open>One request: the next sample of the SRAM is pushed into the FIFO.\<close>

definition soc_feed :: "'r soc_bus_state \<Rightarrow> nat \<Rightarrow> u64 \<Rightarrow> 'r soc_bus_state" where
  "soc_feed m i x = m\<lparr>soc_dac := (soc_dac m)(i := dac_push (soc_dac m i) (ucast x))\<rparr>"

lemma feed_move:
  fixes m :: "'r soc_bus_state"
  assumes "feeds_dac c i e" and "soc_decode (tcd_saddr c) = Soc_sram off"
  defines "x \<equiv> sram_sample (sram m) off e 0"
  shows "edma_move (soc_bus rest) c s m =
    (tcd_saddr c + of_nat (2 ^ e), tcd_daddr c,
     edma_deliver (dac_requests i (soc_dac m i) (dac_push (soc_dac m i) (ucast x))) s, soc_feed m i x)"
proof -
  let ?bs = "map (\<lambda>b. sram m (off + b)) [0..<2 ^ e]"
  note f = assms(1) [unfolded feeds_dac_def]
  have fields: "ATTR_SSIZE (tcd_attr c) = e" "ATTR_DSIZE (tcd_attr c) = e" "ATTR_SMOD (tcd_attr c) = 0"
    "ATTR_DMOD (tcd_attr c) = 0" "tcd_doff c = 0" "tcd_length c = 2 ^ e" using f by simp_all
  have x: "x = ldn_le ?bs" by (simp add: x_def sram_sample_def)
  have "(2 :: nat) ^ e \<le> 2 ^ 2" using f by (intro power_increasing) simp_all
  then have so: "(scast (tcd_soff c) :: u32) = of_nat (2 ^ e)" using f scast_of_nat16 [of "2 ^ e"] by simp
  have rd: "address_space_read (soc_bus rest) (tcd_saddr c) (2 ^ e) m = (?bs, [], m)"
    by (simp add: soc_bus_def soc_bus_read_def assms(2))
  have wr: "address_space_write (soc_bus rest) (tcd_daddr c) ?bs m =
      (dac_requests i (soc_dac m i) (dac_push (soc_dac m i) (ucast x)), soc_feed m i x)"
    using f soc_dac_write_data [of e ?bs "soc_dac m i"]
    by (simp add: soc_bus_def soc_bus_write_def dac_data_decode x soc_feed_def Let_def)
  have g: "edma_gather (soc_bus rest) (2 ^ e) (tcd_soff c) 0 (2 ^ e) 0 (tcd_saddr c) [] s m
      = (tcd_saddr c + of_nat (2 ^ e), ?bs, s, m)"
    by (subst edma_gather.simps) (simp add: rd edma_gather.simps edma_advance_def so)
  have w: "edma_scatter (soc_bus rest) (2 ^ e) (tcd_doff c) 0 (2 ^ e) 0 (tcd_daddr c) ?bs s m =
      (tcd_daddr c, edma_deliver (dac_requests i (soc_dac m i) (dac_push (soc_dac m i) (ucast x))) s, soc_feed m i x)"
    by (subst edma_scatter.simps) (simp add: wr edma_scatter.simps edma_advance_def fields)
  show ?thesis
    by (simp add: edma_move_def fields) (subst edma_transfer.simps, simp add: edma_transfer.simps fields(1-4,6) g w)
qed

text \<open>
  Channel \<open>n\<close> of the engine feeds DAC \<open>i\<close> from offset \<open>off\<close> of the SRAM: the request is not gated, the
  request input shows the line of the DAC, and no other channel is served, whatever that request does.
\<close>

definition served_alone :: "MCXNEDMAState \<Rightarrow> nat \<Rightarrow> nat \<Rightarrow> bool" where
  "served_alone s n x \<longleftrightarrow> (\<forall>k < MCXN_EDMA_CHANNELS. k \<noteq> n \<longrightarrow>
     \<not> edma_wanted (s\<lparr>req_level := (req_level s)(x := True)\<rparr>) k)"

definition dac_feeding ::
  "MCXNEDMAState \<Rightarrow> 'r soc_bus_state \<Rightarrow> nat \<Rightarrow> nat \<Rightarrow> nat \<Rightarrow> bool \<Rightarrow> nat \<Rightarrow> bool" where
  "dac_feeding s m n i e hp off \<longleftrightarrow> n < MCXN_EDMA_CHANNELS \<and> feeds_dac (ch s n) i e
     \<and> soc_decode (tcd_saddr (ch s n)) = Soc_sram off
     \<and> req_enabled s (MCXN_DMA_REQ_DAC0_FIFO + i) \<and> \<not> req_edge s (MCXN_DMA_REQ_DAC0_FIFO + i)
     \<and> dac_requests_data hp (soc_dac m i)
     \<and> req_level s (MCXN_DMA_REQ_DAC0_FIFO + i) = dac_req (soc_dac m i)
     \<and> served_alone s n (MCXN_DMA_REQ_DAC0_FIFO + i)"

lemma edma_wanted_cong:
  "ch s k = ch t k \<Longrightarrow> req_level s = req_level t \<Longrightarrow> req_enabled s = req_enabled t \<Longrightarrow> edma_wanted s k = edma_wanted t k"
  by (simp add: edma_wanted_def edma_src_def)

lemma edma_wanted_mono:
  assumes "edma_wanted s k" and "ch s k = ch t k" and "req_enabled s = req_enabled t"
    and "\<And>x. req_level s x \<Longrightarrow> req_level t x"
  shows "edma_wanted t k"
  using assms by (simp add: edma_wanted_def edma_src_def)

lemma served_alone_mono:
  assumes "served_alone s n x" and "edma_only {n} s t" and "\<And>y. y \<noteq> x \<Longrightarrow> req_level t y \<Longrightarrow> req_level s y"
  shows "served_alone t n x"
  unfolding served_alone_def
proof (intro allI impI notI)
  fix k assume k: "k < MCXN_EDMA_CHANNELS" "k \<noteq> n" "edma_wanted (t\<lparr>req_level := (req_level t)(x := True)\<rparr>) k"
  have "edma_wanted (s\<lparr>req_level := (req_level s)(x := True)\<rparr>) k"
    using k(3) by (rule edma_wanted_mono) (use assms(2,3) k(2) in \<open>auto simp: edma_only_def split: if_splits\<close>)
  with assms(1) k(1,2) show False by (simp add: served_alone_def)
qed

lemma served_alone_idle:
  assumes "served_alone s n x" and "k < MCXN_EDMA_CHANNELS" and "k \<noteq> n"
  shows "\<not> edma_wanted s k"
proof
  assume "edma_wanted s k"
  then have "edma_wanted (s\<lparr>req_level := (req_level s)(x := True)\<rparr>) k" by (rule edma_wanted_mono) simp_all
  with assms show False by (simp add: served_alone_def)
qed

lemma dac_push_requests:
  assumes "dac_requests_data hp d" and "dac_count d \<le> dac_watermark d"
  shows "dac_requests_data hp (dac_push d (ucast x))"
    and "dac_watermark (dac_push d (ucast x)) = dac_watermark d"
    and "dac_count (dac_push d (ucast x)) = dac_count d + 1"
    and "dac_contents (dac_push d (ucast x)) = dac_contents d @ [dac_sample_value hp x]"
proof -
  note s = assms(1) [unfolded dac_requests_data_def]
  have room: "dac_count d < dac_depth d" using assms(2) dac_watermark_below_depth [of d] by simp
  have f: "dac_regs (dac_push d (ucast x)) = dac_regs d" "hpdac (dac_push d (ucast x)) = hpdac d"
      "dac_count (dac_push d (ucast x)) = dac_count d + 1"
    using s room by (simp_all add: dac_push_def Let_def dac_streaming_def)
  show "dac_requests_data hp (dac_push d (ucast x))"
    using s f dac_push_contents(1) [of hp d x] dac_push_ok [of d "ucast x"]
    by (simp add: dac_requests_data_def dac_streaming_def)
  show "dac_watermark (dac_push d (ucast x)) = dac_watermark d" by (simp add: dac_watermark_def f)
  show "dac_count (dac_push d (ucast x)) = dac_count d + 1" by (rule f(3))
  show "dac_contents (dac_push d (ucast x)) = dac_contents d @ [dac_sample_value hp x]"
    using dac_push_contents(2) [of hp d x] s room by simp
qed

lemma feeding_serve:
  fixes s :: MCXNEDMAState
  assumes "dac_feeding s m n i e hp off" and "dac_req (soc_dac m i)"
  defines "x \<equiv> sram_sample (sram m) off e 0" and "c \<equiv> (ch s n)\<lparr>ch_csr := ch_csr (ch s n) AND NOT CH_CSR_DONE\<rparr>"
  shows "\<exists>s2. edma_serve (soc_bus rest) n (p, s, m) = (True, s2, soc_feed m i x) \<and> edma_only {n} s s2
     \<and> ch s2 n = tcd_after (tcd_saddr (ch s n) + of_nat (2 ^ e)) (tcd_daddr (ch s n)) c
     \<and> req_level s2 = (req_level s)(MCXN_DMA_REQ_DAC0_FIFO + i := dac_req (soc_dac (soc_feed m i x) i))"
proof -
  let ?src = "MCXN_DMA_REQ_DAC0_FIFO + i"
  let ?s0 = "edma_upd s n (\<lambda>c. c\<lparr>ch_csr := ch_csr c AND NOT CH_CSR_DONE\<rparr>)"
  let ?d = "soc_dac m i" and ?d' = "dac_push (soc_dac m i) (ucast x)"
  note f = assms(1) [unfolded dac_feeding_def]
  have c: "feeds_dac c i e" "tcd_saddr c = tcd_saddr (ch s n)" "tcd_daddr c = tcd_daddr (ch s n)"
    using f by (auto simp: feeds_dac_def c_def tcd_plain_def tcd_length_def bit_simps bit_flag_iff)
  have c0: "ch ?s0 n = c" by (simp add: c_def)
  have src: "edma_src s n = ?src" using f by (simp add: edma_src_def feeds_dac_def)
  have want: "edma_wanted s n"
    using f assms(2) src by (simp add: edma_wanted_def feeds_dac_def MCXN_DMA_REQ_DAC0_FIFO_def)
  have i: "i < MCXN_NUM_DAC" using c(1) by (simp add: feeds_dac_def)
  let ?s1 = "edma_deliver (dac_requests i ?d ?d') ?s0"
  have "edma_move (soc_bus rest) (ch ?s0 n) ?s0 m =
      (tcd_saddr (ch s n) + of_nat (2 ^ e), tcd_daddr (ch s n), ?s1, soc_feed m i x)"
    unfolding c0 using feed_move [OF c(1), where m = m and rest = rest and s = ?s0 and off = off] f c(2,3) by (simp add: x_def)
  then obtain s2 where s2: "edma_minor_loop (soc_bus rest) ?s0 n m = (tcd_citer (ch ?s0 n) = 1, s2, soc_feed m i x)"
    "ch s2 n = tcd_after (tcd_saddr (ch s n) + of_nat (2 ^ e)) (tcd_daddr (ch s n)) (ch ?s0 n)"
    "req_level s2 = req_level ?s1" "edma_only {n} ?s0 s2"
    using edma_minor_loop_plain [of ?s0 n "soc_bus rest" m] feeds_valid [OF c(1)] c(1) unfolding c0
    by (auto simp: feeds_dac_def)
  have lev: "dma_req_level ?d = dac_req ?d" "line_level (dac_lines ?d) Dac_dma_req = dac_req ?d"
    using f by (simp_all add: dac_requests_data_def dac_lines_ok_def)
  have "dac_lines_ok ?d'" using f dac_push_ok by (simp add: dac_requests_data_def dac_streaming_def)
  then have "line_level (dac_lines ?d') Dac_dma_req = dac_req ?d'" by (simp add: dac_lines_ok_def)
  then have "req_level s2 = (req_level s)(?src := dac_req ?d')"
    using dac_requests_level [OF i dac_push_grows, of ?s0 "soc_dac m i" "ucast x"] f lev dac_requests_other [of _ i ?d ?d' ?s0]
    by (auto simp: s2(3) fun_eq_iff)
  moreover have "edma_only {n} s s2" using s2(4) by (auto simp: edma_only_def)
  moreover have "\<not> req_edge s2 ?src" using s2(4) f by (simp add: edma_only_def)
  ultimately show ?thesis
    using s2(1,2) want by (simp add: edma_serve_def Let_def src c_def soc_feed_def)
qed

lemma top_bit_pred: "\<not> bit w 15 \<Longrightarrow> w \<noteq> 0 \<Longrightarrow> \<not> bit (w - 1) 15" for w :: u16
proof -
  have top: "bit v 15 \<longleftrightarrow> 2 ^ 15 \<le> unat v" for v :: u16
  proof -
    have "unat v < 2 ^ 16" using unsigned_less [where ?'a = nat, of v] by simp
    then have "unat v div 2 ^ 15 = (if 2 ^ 15 \<le> unat v then 1 else 0)" by (auto intro: div_nat_eqI)
    then have "odd (unat v div 2 ^ 15) \<longleftrightarrow> 2 ^ 15 \<le> unat v" by simp
    moreover have "bit (unat v) 15 \<longleftrightarrow> odd (unat v div 2 ^ 15)" by (rule bit_iff_odd)
    ultimately show ?thesis by (simp add: bit_unsigned_iff)
  qed
  assume "\<not> bit w 15" "w \<noteq> 0"
  then show ?thesis by (simp add: top unat_minus_one)
qed

lemma unat_add_multiple:
  "e \<le> 2 \<Longrightarrow> unat a mod 2 ^ e = 0 \<Longrightarrow> unat (a + 2 ^ e) mod 2 ^ e = 0" for a :: u32
proof -
  assume "e \<le> 2" and a: "unat a mod 2 ^ e = 0"
  then have "e = 0 \<or> e = 1 \<or> e = 2" by auto
  then show ?thesis using a by (elim disjE) (simp_all add: unat_word_ariths(1) mod_mod_cancel)
qed

text \<open>After one sample the channel feeds on from the next offset, unless the major loop is complete.\<close>

lemma soc_feed_simps [simp]:
  "sram (soc_feed m i x) = sram m" "elsewhere (soc_feed m i x) = elsewhere m"
  "soc_dac (soc_feed m i x) j = (if j = i then dac_push (soc_dac m i) (ucast x) else soc_dac m j)"
  by (simp_all add: soc_feed_def)

lemma feeding_next:
  assumes "dac_feeding s m n i e hp off" and "dac_req (soc_dac m i)" and "off + 2 ^ e < sram_size"
    and "tcd_citer (ch s n) \<noteq> 1" and "edma_only {n} s s2"
    and "ch s2 n = tcd_after (tcd_saddr (ch s n) + of_nat (2 ^ e)) (tcd_daddr (ch s n))
           ((ch s n)\<lparr>ch_csr := ch_csr (ch s n) AND NOT CH_CSR_DONE\<rparr>)"
    and "req_level s2 = (req_level s)(MCXN_DMA_REQ_DAC0_FIFO + i := dac_req (soc_dac (soc_feed m i x) i))"
  shows "dac_feeding s2 (soc_feed m i x) n i e hp (off + 2 ^ e)"
    and "unat (tcd_citer (ch s2 n)) = unat (tcd_citer (ch s n)) - 1"
proof -
  note f = assms(1) [unfolded dac_feeding_def]
  let ?c = "ch s n" and ?a = "tcd_saddr (ch s n) + of_nat (2 ^ e)"
  have c2: "ch s2 n = ?c\<lparr>tcd_saddr := ?a, tcd_daddr := tcd_daddr ?c, tcd_citer := tcd_citer ?c - 1,
      ch_csr := ch_csr ?c AND NOT CH_CSR_DONE\<rparr>"
    using assms(4,6) by (simp add: tcd_after_def)
  have nz: "tcd_citer ?c \<noteq> 0" using f by (simp add: feeds_dac_def)
  show u: "unat (tcd_citer (ch s2 n)) = unat (tcd_citer ?c) - 1"
    using nz by (simp add: c2 unat_minus_one)
  have dec: "soc_decode ?a = Soc_sram (off + 2 ^ e)" using f assms(3) by (intro sram_decode_next) simp_all
  have plain: "\<not> bit (tcd_citer ?c - 1) 15"
  proof -
    have "\<not> bit (tcd_citer ?c) 15" using f by (simp add: feeds_dac_def tcd_plain_def)
    then show ?thesis using nz by (rule top_bit_pred)
  qed
  have al: "unat ?a mod 2 ^ e = 0"
    using f unat_add_multiple [of e "tcd_saddr ?c"] by (simp add: feeds_dac_def)
  have "feeds_dac (ch s2 n) i e"
    using f plain al nz assms(4)
    by (auto simp: feeds_dac_def c2 tcd_plain_def tcd_length_def bit_simps bit_flag_iff)
  moreover have "dac_requests_data hp (soc_dac (soc_feed m i x) i)"
    using f assms(2) dac_push_requests(1) [of hp "soc_dac m i" x] dac_req_watermark [of hp "soc_dac m i"] by simp
  moreover have "served_alone s2 n (MCXN_DMA_REQ_DAC0_FIFO + i)"
    by (rule served_alone_mono [OF _ assms(5)]) (use f assms(7) in auto)
  ultimately show "dac_feeding s2 (soc_feed m i x) n i e hp (off + 2 ^ e)"
    using f dec assms(5,7) by (simp add: dac_feeding_def edma_only_def c2)
qed

definition soc_feeds :: "'r soc_bus_state \<Rightarrow> nat \<Rightarrow> u64 list \<Rightarrow> 'r soc_bus_state" where
  "soc_feeds m i xs = fold (\<lambda>x m. soc_feed m i x) xs m"

lemma sram_sample_next: "sram_sample ram (off + 2 ^ e) e j = sram_sample ram off e (Suc j)"
  by (simp add: sram_sample_def algebra_simps)

lemma samples_Suc:
  "map (sram_sample ram off e) [0..<Suc k] = sram_sample ram off e 0 # map (sram_sample ram (off + 2 ^ e) e) [0..<k]"
  by (simp add: upt_conv_Cons map_Suc_upt [symmetric] sram_sample_next del: upt_Suc)

lemma feeding_pass:
  fixes s :: MCXNEDMAState
  assumes "dac_feeding s m n i e hp off" and "dac_req (soc_dac m i)"
  defines "x \<equiv> sram_sample (sram m) off e 0"
  shows "\<exists>s2. edma_pass (soc_bus rest) s m = (True, s2, soc_feed m i x) \<and> edma_only {n} s s2
     \<and> ch s2 n = tcd_after (tcd_saddr (ch s n) + of_nat (2 ^ e)) (tcd_daddr (ch s n))
           ((ch s n)\<lparr>ch_csr := ch_csr (ch s n) AND NOT CH_CSR_DONE\<rparr>)
     \<and> req_level s2 = (req_level s)(MCXN_DMA_REQ_DAC0_FIFO + i := dac_req (soc_dac (soc_feed m i x) i))
     \<and> served_alone s2 n (MCXN_DMA_REQ_DAC0_FIFO + i)"
proof -
  note f = assms(1) [unfolded dac_feeding_def]
  obtain s2 where s2: "edma_serve (soc_bus rest) n (False, s, m) = (True, s2, soc_feed m i x)" "edma_only {n} s s2"
    "ch s2 n = tcd_after (tcd_saddr (ch s n) + of_nat (2 ^ e)) (tcd_daddr (ch s n))
           ((ch s n)\<lparr>ch_csr := ch_csr (ch s n) AND NOT CH_CSR_DONE\<rparr>)"
    "req_level s2 = (req_level s)(MCXN_DMA_REQ_DAC0_FIFO + i := dac_req (soc_dac (soc_feed m i x) i))"
    using feeding_serve [OF assms(1,2), of rest False] unfolding x_def by blast
  have alone: "served_alone s2 n (MCXN_DMA_REQ_DAC0_FIFO + i)"
    by (rule served_alone_mono [OF _ s2(2)]) (use f s2(4) in auto)
  have "edma_pass (soc_bus rest) s m = (True, s2, soc_feed m i x)"
    by (rule edma_pass_one [OF _ s2(1)]) (use f alone served_alone_idle in auto)
  with s2 alone show ?thesis by blast
qed

lemma drain_satisfied:
  assumes "served_alone s n x" and "edma_src s n = x" and "\<not> req_level s x"
  shows "edma_drain B g s m = (s, m)"
proof (rule edma_drain_idle)
  fix k assume "k < MCXN_EDMA_CHANNELS"
  then show "\<not> edma_wanted s k"
    using served_alone_idle [OF assms(1)] assms(2,3) by (cases "k = n") (auto simp: edma_wanted_def)
qed

text \<open>
  The bottom half refills the FIFO to one sample above the watermark: the next samples of the
  SRAM arrive in order, and the request drops.
\<close>

lemma feeding_drain:
  fixes s :: MCXNEDMAState and m :: "'r soc_bus_state"
  assumes "dac_feeding s m n i e hp off" and "k = dac_watermark (soc_dac m i) + 1 - dac_count (soc_dac m i)"
    and "k \<le> unat (tcd_citer (ch s n))" and "off + k * 2 ^ e < sram_size" and "g + k < MCXN_EDMA_MAX_LOOPS"
  shows "\<exists>s2. edma_drain (soc_bus rest) g s m = (s2, soc_feeds m i (map (sram_sample (sram m) off e) [0..<k]))
     \<and> edma_only {n} s s2 \<and> req_level s2 = (req_level s)(MCXN_DMA_REQ_DAC0_FIFO + i := False)
     \<and> (k < unat (tcd_citer (ch s n)) \<longrightarrow>
          dac_feeding s2 (soc_feeds m i (map (sram_sample (sram m) off e) [0..<k])) n i e hp (off + k * 2 ^ e)
          \<and> unat (tcd_citer (ch s2 n)) = unat (tcd_citer (ch s n)) - k)"
  using assms
proof (induction k arbitrary: s m off g)
  case 0
  note f = "0.prems"(1) [unfolded dac_feeding_def]
  have low: "\<not> dac_req (soc_dac m i)" using f "0.prems"(2) dac_req_watermark [of hp "soc_dac m i"] by auto
  have "edma_drain (soc_bus rest) g s m = (s, m)"
    using f low by (intro drain_satisfied [of s n "MCXN_DMA_REQ_DAC0_FIFO + i"]) (simp_all add: edma_src_def feeds_dac_def)
  moreover have "req_level s = (req_level s)(MCXN_DMA_REQ_DAC0_FIFO + i := False)" using f low by (simp add: fun_upd_idem)
  ultimately show ?case using "0.prems"(1) by (simp add: soc_feeds_def)
next
  case (Suc k)
  let ?x = "sram_sample (sram m) off e 0" and ?src = "MCXN_DMA_REQ_DAC0_FIFO + i"
  let ?m2 = "soc_feed m i ?x" and ?d = "soc_dac m i"
  note f = Suc.prems(1) [unfolded dac_feeding_def]
  have wm: "dac_count ?d \<le> dac_watermark ?d" using Suc.prems(2) by simp
  have req: "dac_req ?d" using f wm dac_req_watermark [of hp ?d] by simp
  note push = dac_push_requests [OF _ wm, of hp ?x]
  obtain s2 where s2: "edma_pass (soc_bus rest) s m = (True, s2, ?m2)" "edma_only {n} s s2"
    "ch s2 n = tcd_after (tcd_saddr (ch s n) + of_nat (2 ^ e)) (tcd_daddr (ch s n))
           ((ch s n)\<lparr>ch_csr := ch_csr (ch s n) AND NOT CH_CSR_DONE\<rparr>)"
    "req_level s2 = (req_level s)(?src := dac_req (soc_dac ?m2 i))" "served_alone s2 n ?src"
    using feeding_pass [OF Suc.prems(1) req] by blast
  have k: "k = dac_watermark (soc_dac ?m2 i) + 1 - dac_count (soc_dac ?m2 i)"
    using Suc.prems(2) f push by simp
  have drain: "edma_drain (soc_bus rest) g s m = edma_drain (soc_bus rest) (g + 1) s2 ?m2"
    using Suc.prems(5) by (intro edma_drain_step [OF s2(1)]) simp
  have feeds: "soc_feeds ?m2 i (map (sram_sample (sram m) (off + 2 ^ e) e) [0..<k]) =
      soc_feeds m i (map (sram_sample (sram m) off e) [0..<Suc k])"
    unfolding samples_Suc by (simp add: soc_feeds_def)
  show ?case
  proof (cases "tcd_citer (ch s n) = 1")
    case True
    then have k0: "k = 0" using Suc.prems(3) by simp
    have low: "\<not> dac_req (soc_dac ?m2 i)" using k k0 f push dac_req_watermark [of hp "soc_dac ?m2 i"] by simp
    have "ch_mux (ch s2 n) = ch_mux (ch s n)" by (simp add: s2(3) tcd_after_def)
    then have "edma_drain (soc_bus rest) (g + 1) s2 ?m2 = (s2, ?m2)"
      using f low s2(4) by (intro drain_satisfied [OF s2(5)]) (simp_all add: edma_src_def feeds_dac_def)
    then show ?thesis using drain s2(2,4) low k0 True by (simp add: soc_feeds_def fun_eq_iff)
  next
    case False
    have nx: "dac_feeding s2 ?m2 n i e hp (off + 2 ^ e)" "unat (tcd_citer (ch s2 n)) = unat (tcd_citer (ch s n)) - 1"
      using feeding_next [OF Suc.prems(1) req _ False s2(2,3,4)] Suc.prems(4) by simp_all
    have "\<exists>s3. edma_drain (soc_bus rest) (g + 1) s2 ?m2 =
          (s3, soc_feeds ?m2 i (map (sram_sample (sram ?m2) (off + 2 ^ e) e) [0..<k]))
       \<and> edma_only {n} s2 s3 \<and> req_level s3 = (req_level s2)(?src := False)
       \<and> (k < unat (tcd_citer (ch s2 n)) \<longrightarrow>
            dac_feeding s3 (soc_feeds ?m2 i (map (sram_sample (sram ?m2) (off + 2 ^ e) e) [0..<k])) n i e hp
              (off + 2 ^ e + k * 2 ^ e)
            \<and> unat (tcd_citer (ch s3 n)) = unat (tcd_citer (ch s2 n)) - k)"
      using Suc.prems(3,4,5) nx(2) by (intro Suc.IH [OF nx(1) k]) (simp_all add: algebra_simps)
    then obtain s3 where s3: "edma_drain (soc_bus rest) (g + 1) s2 ?m2 =
          (s3, soc_feeds m i (map (sram_sample (sram m) off e) [0..<Suc k]))"
       "edma_only {n} s2 s3" "req_level s3 = (req_level s2)(?src := False)"
       "k < unat (tcd_citer (ch s2 n)) \<Longrightarrow>
            dac_feeding s3 (soc_feeds m i (map (sram_sample (sram m) off e) [0..<Suc k])) n i e hp
              (off + 2 ^ e + k * 2 ^ e)
            \<and> unat (tcd_citer (ch s3 n)) = unat (tcd_citer (ch s2 n)) - k"
      unfolding soc_feed_simps feeds by blast
    have "edma_only {n} s s3" using edma_only_trans [OF s2(2) s3(2)] by simp
    then show ?thesis using s3(1,3,4) s2(4) drain nx(2)
      by (intro exI [of _ s3]) (simp add: add.assoc)
  qed
qed

lemma soc_feeds_contents:
  assumes "dac_requests_data hp (soc_dac m i)" and "length xs \<le> dac_watermark (soc_dac m i) + 1 - dac_count (soc_dac m i)"
  shows "dac_contents (soc_dac (soc_feeds m i xs) i) = dac_contents (soc_dac m i) @ map (dac_sample_value hp) xs
    \<and> dac_requests_data hp (soc_dac (soc_feeds m i xs) i)
    \<and> dac_watermark (soc_dac (soc_feeds m i xs) i) = dac_watermark (soc_dac m i)
    \<and> dac_out (soc_dac (soc_feeds m i xs) i) = dac_out (soc_dac m i)
    \<and> dac_regs (soc_dac (soc_feeds m i xs) i) = dac_regs (soc_dac m i)"
  using assms
proof (induction xs arbitrary: m)
  case (Cons x xs)
  let ?d = "soc_dac m i"
  have wm: "dac_count ?d \<le> dac_watermark ?d" using Cons.prems(2) by simp
  note p = dac_push_requests [OF Cons.prems(1) wm, of x]
  have "dac_out (dac_push ?d (ucast x)) = dac_out ?d" "dac_regs (dac_push ?d (ucast x)) = dac_regs ?d"
    using Cons.prems(1) wm dac_watermark_below_depth [of ?d]
    by (simp_all add: dac_push_def Let_def dac_requests_data_def dac_streaming_def)
  with Cons.IH [of "soc_feed m i x"] p Cons.prems show ?case by (simp add: soc_feeds_def)
qed (simp add: soc_feeds_def)

lemma soc_feeds_other:
  "sram (soc_feeds m i xs) = sram m" "elsewhere (soc_feeds m i xs) = elsewhere m"
  "j \<noteq> i \<Longrightarrow> soc_dac (soc_feeds m i xs) j = soc_dac m j"
  by (induction xs arbitrary: m) (simp_all add: soc_feeds_def)

lemma feeding_drop_pulses:
  assumes "dac_feeding s m n i e hp off"
  shows "dac_feeding (edma_drop_pulses s) m n i e hp off"
proof -
  have "served_alone (edma_drop_pulses s) n (MCXN_DMA_REQ_DAC0_FIFO + i)"
    by (rule served_alone_mono [of s])
       (use assms in \<open>auto simp: dac_feeding_def edma_drop_pulses_def edma_only_def split: if_splits\<close>)
  with assms show ?thesis by (simp add: dac_feeding_def edma_drop_pulses_def)
qed

lemma feeding_service:
  fixes s :: MCXNEDMAState and m :: "'r soc_bus_state"
  assumes "dac_feeding s m n i e hp off" and "k = dac_watermark (soc_dac m i) + 1 - dac_count (soc_dac m i)"
    and "k \<le> unat (tcd_citer (ch s n))" and "off + k * 2 ^ e < sram_size"
  shows "\<exists>s2. mcxn_edma_service_bh (soc_bus rest) s m = (s2, soc_feeds m i (map (sram_sample (sram m) off e) [0..<k]))
     \<and> edma_only {n} s s2 \<and> \<not> req_level s2 (MCXN_DMA_REQ_DAC0_FIFO + i)
     \<and> (k < unat (tcd_citer (ch s n)) \<longrightarrow>
          dac_feeding s2 (soc_feeds m i (map (sram_sample (sram m) off e) [0..<k])) n i e hp (off + k * 2 ^ e)
          \<and> unat (tcd_citer (ch s2 n)) = unat (tcd_citer (ch s n)) - k)"
proof -
  have "k \<le> 32" using assms(2) dac_watermark_below_depth [of "soc_dac m i"] by (auto simp: dac_depth_def split: if_splits)
  then have "0 + k < MCXN_EDMA_MAX_LOOPS" by (simp add: MCXN_EDMA_MAX_LOOPS_def)
  from feeding_drain [OF assms this, of rest] obtain s2 where s2:
    "edma_drain (soc_bus rest) 0 s m = (s2, soc_feeds m i (map (sram_sample (sram m) off e) [0..<k]))"
    "edma_only {n} s s2" "req_level s2 = (req_level s)(MCXN_DMA_REQ_DAC0_FIFO + i := False)"
    "k < unat (tcd_citer (ch s n)) \<longrightarrow>
       dac_feeding s2 (soc_feeds m i (map (sram_sample (sram m) off e) [0..<k])) n i e hp (off + k * 2 ^ e)
       \<and> unat (tcd_citer (ch s2 n)) = unat (tcd_citer (ch s n)) - k" by blast
  have "edma_only {n} s (edma_drop_pulses s2)" "ch (edma_drop_pulses s2) = ch s2"
    "\<not> req_level (edma_drop_pulses s2) (MCXN_DMA_REQ_DAC0_FIFO + i)"
    using s2(2,3) by (simp_all add: edma_only_def edma_drop_pulses_def)
  with s2(1,4) feeding_drop_pulses show ?thesis
    by (intro exI [of _ "edma_drop_pulses s2"]) (auto simp: mcxn_edma_service_bh_def)
qed

section \<open>Pacing by the timer\<close>

text \<open>
  The whole chain set up: channel \<open>n\<close> feeds DAC \<open>i\<close>, whose FIFO is full to one sample above the
  watermark and which converts on hardware triggers; LPTMR0 runs periodically with its next match
  at \<open>t\<close>, and the only destination that selects it is DAC \<open>i\<close>.
\<close>

definition waveform :: "'r mcxn_soc \<Rightarrow> nat \<Rightarrow> nat \<Rightarrow> nat \<Rightarrow> bool \<Rightarrow> nat \<Rightarrow> int \<Rightarrow> bool" where
  "waveform w n i e hp off t \<longleftrightarrow> dac_feeding (soc_edma w 0) (soc_mem w) n i e hp off
     \<and> dac_count (soc_dac (soc_mem w) i) = dac_watermark (soc_dac (soc_mem w) i) + 1
     \<and> \<not> tst (dac_regs (soc_dac (soc_mem w) i) (DAC_GCR div 4)) GCR_TRGSEL
     \<and> lptmr_periodic (soc_lptmr w 0) \<and> lptmr_timer (soc_lptmr w 0) = Some t
     \<and> filter (\<lambda>d. im_selects (im_regs (soc_inputmux w)) d MCXN_INPUTMUX_SRC_LPTMR0) im_destinations = [Im_dac_trig i]"

lemma deliver_schedules: "req_level (edma_deliver ev s) x \<Longrightarrow> req_level s x \<or> edma_bh (edma_deliver ev s)"
proof (induction ev arbitrary: s)
  case (Cons c ev)
  obtain src b where c: "c = (src, b)" by (rule prod.exhaust)
  have bh: "edma_bh s' \<Longrightarrow> edma_bh (edma_deliver ev s')" for s'
    by (induction ev arbitrary: s') (simp_all add: edma_deliver_def split_beta mcxn_edma_req_def)
  have d: "edma_deliver (c # ev) s = edma_deliver ev (mcxn_edma_req s src b)" by (simp add: edma_deliver_def c)
  show ?case
    using Cons.IH [of "mcxn_edma_req s src b"] Cons.prems bh [of "mcxn_edma_req s src b"]
    unfolding d by (auto simp: mcxn_edma_req_def split: if_splits)
qed simp

text \<open>A timer match pops one sample and schedules the refill.\<close>

lemma soc_set_dac_same [simp]: "soc_set_dac i (soc_dac (soc_mem w) i) w = w"
  by (simp add: soc_set_dac_def dac_requests_def new_calls_def)

lemma soc_set_inputmux_same [simp]: "soc_set_inputmux (soc_inputmux w) w = w"
  by (simp add: soc_set_inputmux_def new_calls_def)

lemma waveform_match:
  fixes w :: "'r mcxn_soc"
  assumes "waveform w n i e hp off t"
  shows "\<exists>lt im. soc_step rest (Ev_lptmr_deadline 0) w =
      soc_set_dac i (dac_trigger (soc_dac (soc_mem w) i)) (w\<lparr>soc_lptmr := (soc_lptmr w)(0 := lt), soc_inputmux := im\<rparr>)
    \<and> im_regs im = im_regs (soc_inputmux w) \<and> lptmr_periodic lt \<and> lptmr_period lt = lptmr_period (soc_lptmr w 0)
    \<and> lptmr_timer lt = Some (t + int (lptmr_period (soc_lptmr w 0)))"
proof -
  note f = assms [unfolded waveform_def]
  let ?lt0 = "(soc_lptmr w 0)\<lparr>lptmr_timer := None\<rparr>" and ?im0 = "soc_inputmux w" and ?d = "soc_dac (soc_mem w) i"
  have per: "lptmr_periodic ?lt0" "lptmr_period ?lt0 = lptmr_period (soc_lptmr w 0)"
    using f by (simp_all add: lptmr_periodic_def lptmr_period_def)
  obtain ls where tick: "lptmr_tick ?lt0 t = ?lt0\<lparr>lptmr_csr := lptmr_csr ?lt0 OR CSR_TCF, lptmr_cnr := 0, lptmr_base_ns := t,
       lptmr_lines := ls, lptmr_timer := Some (t + int (lptmr_period (soc_lptmr w 0)))\<rparr>"
    "ls = lptmr_lines ?lt0 @ [(Lptmr_irq, tst (lptmr_csr ?lt0) CSR_TIE), (Lptmr_trigger, True), (Lptmr_trigger, False)]"
    using lptmr_tick_periodic [OF per(1), of t] unfolding per(2) by blast
  define lt where "lt = lptmr_tick ?lt0 t"
  have lt: "lptmr_periodic lt" "lptmr_period lt = lptmr_period (soc_lptmr w 0)"
    "lptmr_timer lt = Some (t + int (lptmr_period (soc_lptmr w 0)))"
    "new_calls (lptmr_lines (soc_lptmr w 0)) (lptmr_lines lt) =
       [(Lptmr_irq, tst (lptmr_csr ?lt0) CSR_TIE), (Lptmr_trigger, True), (Lptmr_trigger, False)]"
    using per by (simp_all add: lt_def tick lptmr_periodic_def lptmr_period_def del: tst_flag) (simp_all add: bit_simps)
  define im where "im = ?im0\<lparr>im_lines := im_lines ?im0 @ im_pulses [Im_dac_trig i]\<rparr>"
  have im: "mcxn_inputmux_trigger ?im0 50 True = im"
    using inputmux_routes [of 50 ?im0] f by (simp add: im_def im_sizes MCXN_INPUTMUX_SRC_LPTMR0_def)
  have low: "mcxn_inputmux_trigger x 50 False = x" for x by (simp add: mcxn_inputmux_trigger_def)
  let ?w1 = "w\<lparr>soc_lptmr := (soc_lptmr w)(0 := lt)\<rparr>"
  have trg: "dac_hw_trigger ?d True = dac_trigger ?d" "dac_hw_trigger x False = x" for x
    using f by (simp_all add: dac_hw_trigger_def)
  have mux: "soc_set_inputmux im ?w1 = soc_set_dac i (dac_trigger ?d) (?w1\<lparr>soc_inputmux := im\<rparr>)"
    by (simp add: soc_set_inputmux_def im_def im_pulses_def trg)
  have "soc_step rest (Ev_lptmr_deadline 0) w = soc_set_lptmr 0 lt w"
    using f by (simp add: lt_def MCXN_NUM_LPTMR_def)
  also have "\<dots> = soc_set_dac i (dac_trigger ?d) (?w1\<lparr>soc_inputmux := im\<rparr>)"
    by (simp add: soc_set_lptmr_def lt(4) MCXN_INPUTMUX_SRC_LPTMR0_def im mux low)
  finally show ?thesis using lt(1-3) by (intro exI [of _ lt] exI [of _ im]) (simp add: im_def)
qed

lemma dac_trigger_requests:
  assumes "dac_requests_data hp d" and "dac_count d = dac_watermark d + 1"
  shows "dac_requests_data hp (dac_trigger d)" "dac_count (dac_trigger d) = dac_watermark d"
    "dac_watermark (dac_trigger d) = dac_watermark d" "dac_regs (dac_trigger d) = dac_regs d"
    "dac_contents (dac_trigger d) = tl (dac_contents d)" "dac_out (dac_trigger d) = ucast (hd (dac_contents d))"
proof -
  note s = assms(1) [unfolded dac_requests_data_def]
  have f: "dac_regs (dac_trigger d) = dac_regs d" "hpdac (dac_trigger d) = hpdac d" "dac_count (dac_trigger d) = dac_watermark d"
    using s assms(2) by (simp_all add: dac_trigger_def dac_streaming_def)
  show "dac_requests_data hp (dac_trigger d)"
    using s f dac_trigger_contents(1) [of hp d] dac_trigger_ok [of d] by (simp add: dac_requests_data_def dac_streaming_def)
  show "dac_count (dac_trigger d) = dac_watermark d" "dac_regs (dac_trigger d) = dac_regs d" by (rule f)+
  show "dac_watermark (dac_trigger d) = dac_watermark d" by (simp add: dac_watermark_def f)
  obtain y ys where c: "dac_contents d = y # ys" using assms(2) by (cases "dac_contents d") (auto dest: arg_cong [of _ _ length])
  show "dac_contents (dac_trigger d) = tl (dac_contents d)" "dac_out (dac_trigger d) = ucast (hd (dac_contents d))"
    using dac_trigger_contents(3) [OF _ c, of hp] s by (simp_all add: c)
qed

text \<open>One period: a match followed by the bottom half it scheduled.\<close>

definition waveform_round :: "('r, 'z) edma_bus_scheme \<Rightarrow> 'r mcxn_soc \<Rightarrow> 'r mcxn_soc" where
  "waveform_round rest w = fold (soc_step rest) [Ev_lptmr_deadline 0, Ev_edma_bh] w"

lemma waveform_requests:
  assumes "waveform w n i e hp off t"
  defines "d \<equiv> soc_dac (soc_mem w) i"
  defines "s \<equiv> edma_deliver (dac_requests i d (dac_trigger d)) (soc_edma w 0)"
  shows "edma_bh s"
    and "dac_feeding (s\<lparr>edma_bh := False\<rparr>) ((soc_mem w)\<lparr>soc_dac := (soc_dac (soc_mem w))(i := dac_trigger d)\<rparr>) n i e hp off"
proof -
  note f = assms(1) [unfolded waveform_def dac_feeding_def]
  let ?src = "MCXN_DMA_REQ_DAC0_FIFO + i"
  have dat: "dac_requests_data hp d" and cnt: "dac_count d = dac_watermark d + 1" using f by (simp_all add: d_def)
  note tr = dac_trigger_requests [OF dat cnt]
  have i: "i < MCXN_NUM_DAC" using f by (simp add: feeds_dac_def)
  have low: "\<not> dac_req d" and high: "dac_req (dac_trigger d)"
    using dac_req_watermark [OF dat] dac_req_watermark [OF tr(1)] cnt tr(2,3) by simp_all
  have line: "line_level (dac_lines d) Dac_dma_req = dac_req d" "line_level (dac_lines (dac_trigger d)) Dac_dma_req"
    using dat tr(1) high by (simp_all add: dac_requests_data_def dac_lines_ok_def)
  have lev: "req_level s ?src" "\<not> req_level (soc_edma w 0) ?src"
    using dac_requests_level [OF i dac_trigger_grows, of "soc_edma w 0" d] f line low
    by (simp_all add: s_def d_def)
  then show "edma_bh s" using deliver_schedules unfolding s_def by blast
  have other: "req_level s x = req_level (soc_edma w 0) x" if "x \<noteq> ?src" for x
    using that by (simp add: s_def dac_requests_other)
  have "served_alone (s\<lparr>edma_bh := False\<rparr>) n ?src"
    by (rule served_alone_mono [of "soc_edma w 0"]) (use f other in \<open>auto simp: s_def edma_only_def\<close>)
  then show "dac_feeding (s\<lparr>edma_bh := False\<rparr>) ((soc_mem w)\<lparr>soc_dac := (soc_dac (soc_mem w))(i := dac_trigger d)\<rparr>) n i e hp off"
    using f lev(1) high tr(1) by (simp add: dac_feeding_def s_def)
qed

lemma waveform_step:
  fixes w :: "'r mcxn_soc" and rest :: "('r, 'z) edma_bus_scheme"
  assumes "waveform w n i e hp off t" and "1 < unat (tcd_citer (ch (soc_edma w 0) n))" and "off + 2 ^ e < sram_size"
  defines "v \<equiv> waveform_round rest w" and "p \<equiv> lptmr_period (soc_lptmr w 0)"
  shows "waveform v n i e hp (off + 2 ^ e) (t + int p)"
    and "unat (tcd_citer (ch (soc_edma v 0) n)) = unat (tcd_citer (ch (soc_edma w 0) n)) - 1"
    and "dac_contents (soc_dac (soc_mem v) i) = tl (dac_contents (soc_dac (soc_mem w) i))
           @ [dac_sample_value hp (sram_sample (sram (soc_mem w)) off e 0)]"
    and "dac_out (soc_dac (soc_mem v) i) = ucast (hd (dac_contents (soc_dac (soc_mem w) i)))"
    and "sram (soc_mem v) = sram (soc_mem w)" and "lptmr_period (soc_lptmr v 0) = p"
proof -
  note f = assms(1) [unfolded waveform_def]
  let ?d = "soc_dac (soc_mem w) i"
  let ?x = "sram_sample (sram (soc_mem w)) off e 0"
  obtain lt im where w1: "soc_step rest (Ev_lptmr_deadline 0) w =
      soc_set_dac i (dac_trigger ?d) (w\<lparr>soc_lptmr := (soc_lptmr w)(0 := lt), soc_inputmux := im\<rparr>)"
    and lt: "im_regs im = im_regs (soc_inputmux w)" "lptmr_periodic lt" "lptmr_period lt = p" "lptmr_timer lt = Some (t + int p)"
    using waveform_match [OF assms(1), of rest] unfolding p_def by blast
  let ?s = "edma_deliver (dac_requests i ?d (dac_trigger ?d)) (soc_edma w 0)"
  let ?m = "(soc_mem w)\<lparr>soc_dac := (soc_dac (soc_mem w))(i := dac_trigger ?d)\<rparr>"
  note r = waveform_requests [OF assms(1)]
  have dat: "dac_requests_data hp ?d" using f by (simp add: dac_feeding_def)
  note tr = dac_trigger_requests [OF dat conjunct1 [OF conjunct2 [OF f]]]
  have k: "1 = dac_watermark (soc_dac ?m i) + 1 - dac_count (soc_dac ?m i)" using tr(2,3) by simp
  let ?m2 = "soc_feeds ?m i [?x]"
  obtain s2 where s2: "mcxn_edma_service_bh (soc_bus rest) (?s\<lparr>edma_bh := False\<rparr>) ?m = (s2, ?m2)"
    "dac_feeding s2 ?m2 n i e hp (off + 2 ^ e)"
    "unat (tcd_citer (ch s2 n)) = unat (tcd_citer (ch (soc_edma w 0) n)) - 1"
    using feeding_service [OF r(2) k, of rest] assms(2,3) by auto
  have v: "v = (w\<lparr>soc_lptmr := (soc_lptmr w)(0 := lt), soc_inputmux := im, soc_mem := ?m2,
      soc_edma := (soc_edma w)(0 := s2)\<rparr>)"
  proof -
    have "v = soc_step rest Ev_edma_bh (soc_step rest (Ev_lptmr_deadline 0) w)"
      by (simp add: v_def waveform_round_def del: soc_step.simps)
    then show ?thesis unfolding w1 using r(1) s2(1) by (simp add: soc_set_dac_def edma_bh_poll_def soc_set_edma_def)
  qed
  have c: "dac_contents (soc_dac ?m2 i) = dac_contents (dac_trigger ?d) @ map (dac_sample_value hp) [?x]
      \<and> dac_requests_data hp (soc_dac ?m2 i) \<and> dac_watermark (soc_dac ?m2 i) = dac_watermark (dac_trigger ?d)
      \<and> dac_out (soc_dac ?m2 i) = dac_out (dac_trigger ?d) \<and> dac_regs (soc_dac ?m2 i) = dac_regs (dac_trigger ?d)"
    using soc_feeds_contents [of hp ?m i "[?x]"] tr(1,2,3) by simp
  then have cc: "dac_contents (soc_dac ?m2 i) = tl (dac_contents ?d) @ [dac_sample_value hp ?x]" using tr(5) by simp
  have "dac_count (soc_dac ?m2 i) = dac_watermark ?d + 1"
    using arg_cong [OF cc, of length] f by simp
  then show "waveform v n i e hp (off + 2 ^ e) (t + int p)"
    using f s2(2) c tr(3,4) lt by (simp add: waveform_def v)
  show "unat (tcd_citer (ch (soc_edma v 0) n)) = unat (tcd_citer (ch (soc_edma w 0) n)) - 1" by (simp add: v s2(3))
  show "dac_contents (soc_dac (soc_mem v) i) = tl (dac_contents ?d) @ [dac_sample_value hp ?x]" by (simp add: v cc)
  show "dac_out (soc_dac (soc_mem v) i) = ucast (hd (dac_contents ?d))" using c tr(6) by (simp add: v)
  show "sram (soc_mem v) = sram (soc_mem w)" by (simp add: v soc_feeds_other)
  show "lptmr_period (soc_lptmr v 0) = p" by (simp add: v lt)
qed

section \<open>Properties\<close>

text \<open>
  C10: on the request of a DAC, one run of the bottom half of DMA0 moves exactly as many samples
  as are missing to one above the watermark: the next ones of the SRAM, in order, masked to the
  width of the DAC.  The request drops, the SRAM and the other DACs and channels are unchanged.
\<close>

theorem dma_refills_dac:
  fixes s :: MCXNEDMAState and m :: "'r soc_bus_state"
  assumes "dac_feeding s m n i e hp off" and "k = dac_watermark (soc_dac m i) + 1 - dac_count (soc_dac m i)"
    and "k \<le> unat (tcd_citer (ch s n))" and "off + k * 2 ^ e < sram_size"
  shows "\<exists>s' m'. mcxn_edma_service_bh (soc_bus rest) s m = (s', m')
     \<and> dac_contents (soc_dac m' i) = dac_contents (soc_dac m i)
         @ map (\<lambda>j. dac_sample_value hp (sram_sample (sram m) off e j)) [0..<k]
     \<and> \<not> dac_req (soc_dac m' i) \<and> \<not> req_level s' (MCXN_DMA_REQ_DAC0_FIFO + i)
     \<and> sram m' = sram m \<and> (\<forall>j. j \<noteq> i \<longrightarrow> soc_dac m' j = soc_dac m j) \<and> (\<forall>c. c \<noteq> n \<longrightarrow> ch s' c = ch s c)"
proof -
  let ?xs = "map (sram_sample (sram m) off e) [0..<k]"
  obtain s2 where s2: "mcxn_edma_service_bh (soc_bus rest) s m = (s2, soc_feeds m i ?xs)" "edma_only {n} s s2"
    "\<not> req_level s2 (MCXN_DMA_REQ_DAC0_FIFO + i)"
    using feeding_service [OF assms, of rest] by blast
  have d: "dac_requests_data hp (soc_dac m i)" using assms(1) by (simp add: dac_feeding_def)
  have c: "dac_contents (soc_dac (soc_feeds m i ?xs) i) = dac_contents (soc_dac m i) @ map (dac_sample_value hp) ?xs"
    "dac_requests_data hp (soc_dac (soc_feeds m i ?xs) i)"
    "dac_watermark (soc_dac (soc_feeds m i ?xs) i) = dac_watermark (soc_dac m i)"
    using soc_feeds_contents [OF d, of ?xs] assms(2) by simp_all
  have "dac_count (soc_dac (soc_feeds m i ?xs) i) = dac_count (soc_dac m i) + k"
    using arg_cong [OF c(1), of length] by simp
  then have "\<not> dac_req (soc_dac (soc_feeds m i ?xs) i)"
    using dac_req_watermark [OF c(2)] c(3) assms(2) by simp
  with s2 c(1) show ?thesis
    by (intro exI [of _ s2] exI [of _ "soc_feeds m i ?xs"]) (simp add: soc_feeds_other edma_only_def comp_def)
qed

text \<open>
  C1: the chain plays a waveform with no CPU involvement: at each of its matches, one timer
  period apart, the DAC outputs the next sample of the stream that starts with its FIFO and
  continues with the samples in SRAM, and the chain is set up again for the next match, for as
  long as the major loop of the channel lasts.
\<close>

theorem waveform_plays:
  fixes w :: "'r mcxn_soc" and rest :: "('r, 'z) edma_bus_scheme"
  assumes "waveform w n i e hp off t" and "j + 1 < unat (tcd_citer (ch (soc_edma w 0) n))"
    and "off + (j + 1) * 2 ^ e < sram_size"
  shows "let v = (waveform_round rest ^^ (j + 1)) w;
             stream = dac_contents (soc_dac (soc_mem w) i)
               @ map (\<lambda>k. dac_sample_value hp (sram_sample (sram (soc_mem w)) off e k)) [0..<j + 1]
     in dac_out (soc_dac (soc_mem v) i) = ucast (stream ! j)
      \<and> waveform v n i e hp (off + (j + 1) * 2 ^ e) (t + int (j + 1) * int (lptmr_period (soc_lptmr w 0)))"
  using assms
proof (induction j arbitrary: w off t)
  case 0
  let ?d = "soc_dac (soc_mem w) i"
  note s = waveform_step [OF "0.prems"(1), of rest]
  have pos: "0 < dac_count ?d" using "0.prems"(1) by (simp add: waveform_def)
  then have "dac_contents ?d \<noteq> []" using length_dac_contents [of ?d] by (cases "dac_contents ?d") simp_all
  then show ?case using s(1,4) "0.prems"(2,3) pos by (simp add: hd_conv_nth nth_append)
next
  case (Suc j)
  let ?v = "waveform_round rest w" and ?c = "dac_contents (soc_dac (soc_mem w) i)"
  let ?smp = "\<lambda>k. dac_sample_value hp (sram_sample (sram (soc_mem w)) off e k)"
  have s: "waveform ?v n i e hp (off + 2 ^ e) (t + int (lptmr_period (soc_lptmr w 0)))"
    "unat (tcd_citer (ch (soc_edma ?v 0) n)) = unat (tcd_citer (ch (soc_edma w 0) n)) - 1"
    "dac_contents (soc_dac (soc_mem ?v) i) = tl ?c @ [?smp 0]"
    "sram (soc_mem ?v) = sram (soc_mem w)" "lptmr_period (soc_lptmr ?v 0) = lptmr_period (soc_lptmr w 0)"
    using waveform_step [OF Suc.prems(1), of rest] Suc.prems(2,3) by simp_all
  obtain y ys where c: "?c = y # ys"
    using Suc.prems(1) length_dac_contents [of "soc_dac (soc_mem w) i"]
    by (cases ?c) (auto simp: waveform_def simp del: length_dac_contents)
  have stream: "(tl ?c @ [?smp 0]) @ map (\<lambda>k. ?smp (Suc k)) [0..<Suc j] = ys @ map ?smp [0..<Suc (Suc j)]"
    by (simp add: c upt_conv_Cons map_Suc_upt [symmetric] del: upt_Suc)
  have pw: "(waveform_round rest ^^ (Suc j + 1)) w = (waveform_round rest ^^ (j + 1)) ?v"
    by (simp add: funpow_swap1)
  have "j + 1 < unat (tcd_citer (ch (soc_edma ?v 0) n))" "off + 2 ^ e + (j + 1) * 2 ^ e < sram_size"
    using s(2) Suc.prems(2,3) by (simp_all add: algebra_simps)
  from Suc.IH [OF s(1) this] show ?case
    unfolding pw Let_def s(3,4,5) sram_sample_next
    using stream by (simp add: c algebra_simps del: upt_Suc)
qed

text \<open>
  A concrete setup: DAC0 with watermark 0 and one sample in its FIFO, fed in halfwords by channel
  0 from the start of the SRAM, paced by LPTMR0 with a period of 16 counts of the 16 kHz clock.
\<close>

definition stream_soc :: "unit mcxn_soc" where
  "stream_soc = zero_soc
     \<lparr>soc_inputmux := \<lparr>im_regs = (\<lambda>_. 0x7F)(192 := 50), im_lines = []\<rparr>,
      soc_edma := (\<lambda>_. edma_upd idle_edma 0 (\<lambda>c. c\<lparr>ch_csr := 1, ch_mux := 25, tcd_saddr := 0x20000000,
        tcd_daddr := 0x4010F008, tcd_attr := 0x0101, tcd_soff := 2, tcd_doff := 0, tcd_nbytes := 2,
        tcd_citer := 1000, tcd_biter := 1000\<rparr>)),
      soc_lptmr := (\<lambda>_. \<lparr>lptmr_lines = [], lptmr_timer = Some 1000000, lptmr_clk = Some 12000000, lptmr_csr = 1,
        lptmr_psr = 5, lptmr_cmr = 15, lptmr_cnr = 0, lptmr_base_ns = 0\<rparr>),
      soc_mem := \<lparr>sram = (\<lambda>a. of_nat a), soc_dac = (\<lambda>_. (zero_dac False)
        \<lparr>dac_regs := (\<lambda>_. 0)(3 := 9, 8 := 4), dac_fifo := (\<lambda>_. 7), wptr := 1, dac_count := 1\<rparr>), elsewhere = ()\<rparr>\<rparr>"

lemma stream_soc_channel:
  "feeds_dac (ch (soc_edma stream_soc 0) 0) 0 1" "soc_decode (tcd_saddr (ch (soc_edma stream_soc 0) 0)) = Soc_sram 0"
  "served_alone (soc_edma stream_soc 0) 0 25" "req_enabled (soc_edma stream_soc 0) 25" "\<not> req_edge (soc_edma stream_soc 0) 25"
  "\<not> req_level (soc_edma stream_soc 0) 25"
proof -
  show "feeds_dac (ch (soc_edma stream_soc 0) 0) 0 1"
    by (simp add: feeds_dac_def stream_soc_def MCXN_NUM_DAC_def tcd_plain_def idle_edma_def mcxn_edma_reset_def edma_chan_zero_def
        ATTR_SSIZE_def ATTR_DSIZE_def ATTR_SMOD_def ATTR_DMOD_def tcd_length_def NBYTES_MASK_def dac_data_addr_def dac_base_def
        DAC_DATA_def CH_MUX_SRC_MASK_def MCXN_DMA_REQ_DAC0_FIFO_def)
  show "soc_decode (tcd_saddr (ch (soc_edma stream_soc 0) 0)) = Soc_sram 0"
    by (simp add: stream_soc_def soc_decode_def Let_def MCXN_SRAM_NS_def sram_size_def)
  show "served_alone (soc_edma stream_soc 0) 0 25"
    by (simp add: served_alone_def edma_wanted_def edma_src_def stream_soc_def idle_edma_def mcxn_edma_reset_def edma_chan_zero_def)
  show "req_enabled (soc_edma stream_soc 0) 25" "\<not> req_edge (soc_edma stream_soc 0) 25"
    "\<not> req_level (soc_edma stream_soc 0) 25"
    by (simp_all add: stream_soc_def idle_edma_def mcxn_edma_reset_def)
qed

lemma stream_soc_dac:
  "dac_requests_data False (soc_dac (soc_mem stream_soc) 0)" "\<not> dac_req (soc_dac (soc_mem stream_soc) 0)"
  "dac_count (soc_dac (soc_mem stream_soc) 0) = dac_watermark (soc_dac (soc_mem stream_soc) 0) + 1"
  "\<not> tst (dac_regs (soc_dac (soc_mem stream_soc) 0) (DAC_GCR div 4)) GCR_TRGSEL"
  by (simp_all add: dac_requests_data_def dac_streaming_def dac_ring_ok_def dac_lines_ok_def dac_req_def dac_fsr_def Let_def
      stream_soc_def zero_dac_def dac_depth_def dac_watermark_def dac_offsets FSR_W1C_MASK_def tst_def [of _ "0 :: u32"])

lemma stream_soc_waveform: "waveform stream_soc 0 0 1 False 0 1000000"
proof -
  have "lptmr_periodic (soc_lptmr stream_soc 0)" "lptmr_timer (soc_lptmr stream_soc 0) = Some 1000000"
    by (simp_all add: lptmr_periodic_def lptmr_freq_def lptmr_source_hz_def lptmr_divider_def stream_soc_def PSR_PCS_def FRO_16K_HZ_def)
  moreover have "filter (\<lambda>d. im_selects (im_regs (soc_inputmux stream_soc)) d MCXN_INPUTMUX_SRC_LPTMR0) im_destinations = [Im_dac_trig 0]"
    by (simp add: stream_soc_def im_destinations_eq im_offsets Let_def IM_TRIG_NONE_def IM_TRIG_SEL_MASK_def IM_TRIG6_NONE_def
        IM_TRIG6_MASK_def IM_TRIG2_MASK_def IM_TRIG2_NONE_def im_adc_sel_to_src_def MCXN_INPUTMUX_SRC_LPTMR0_def numeral_3_eq_3)
  ultimately show ?thesis
    using stream_soc_channel stream_soc_dac
    by (simp add: waveform_def dac_feeding_def MCXN_EDMA_CHANNELS_def MCXN_DMA_REQ_DAC0_FIFO_def)
qed

theorem waveform_plays_witness:
  "let v = (waveform_round silent_bus ^^ 3) stream_soc
   in dac_out (soc_dac (soc_mem v) 0) = 0x302 \<and> waveform v 0 0 1 False 6 4000000"
proof -
  have c: "dac_contents (soc_dac (soc_mem stream_soc) 0) = [7]"
    by (simp add: dac_contents_def stream_soc_def zero_dac_def)
  have "2 + 1 < unat (tcd_citer (ch (soc_edma stream_soc 0) 0))" "0 + (2 + 1) * 2 ^ 1 < sram_size"
    by (simp_all add: stream_soc_def sram_size_def)
  note w = waveform_plays [OF stream_soc_waveform this, of silent_bus]
  have p: "lptmr_period (soc_lptmr stream_soc 0) = 1000000"
    by (simp add: lptmr_period_def lptmr_freq_def lptmr_source_hz_def lptmr_divider_def stream_soc_def PSR_PCS_def FRO_16K_HZ_def)
  have x: "dac_sample_value False (sram_sample (sram (soc_mem stream_soc)) 0 1 1) = 0x302"
    by (simp add: sram_sample_def stream_soc_def dac_sample_value_def upt_rec)
  have three: "(2 :: nat) + 1 = 3" by simp
  from w show ?thesis unfolding three Let_def c p by (simp add: x [unfolded One_nat_def] upt_rec)
qed

theorem dma_refills_dac_witness:
  "let s = mcxn_edma_req (soc_edma stream_soc 0) 25 True;
       d = (soc_dac (soc_mem stream_soc) 0)\<lparr>dac_regs := (\<lambda>_. 0)(3 := 9, 4 := 3, 8 := 4), dma_req_level := True,
             dac_lines := [(Dac_dma_req, True)]\<rparr>;
       m = (soc_mem stream_soc)\<lparr>soc_dac := (\<lambda>_. d)\<rparr>
   in \<exists>s' m'. mcxn_edma_service_bh (soc_bus silent_bus) s m = (s', m') \<and> dac_contents (soc_dac m' 0) = [7, 0x100, 0x302, 0x504]"
proof -
  define s where "s = mcxn_edma_req (soc_edma stream_soc 0) 25 True"
  define d where "d = (soc_dac (soc_mem stream_soc) 0)\<lparr>dac_regs := (\<lambda>_. 0)(3 := 9, 4 := 3, 8 := 4), dma_req_level := True,
             dac_lines := [(Dac_dma_req, True)]\<rparr>"
  define m where "m = (soc_mem stream_soc)\<lparr>soc_dac := (\<lambda>_. d)\<rparr>"
  have ch: "ch s = ch (soc_edma stream_soc 0)" "req_enabled s = req_enabled (soc_edma stream_soc 0)"
    "req_edge s = req_edge (soc_edma stream_soc 0)" "req_level s 25"
    by (simp_all add: s_def mcxn_edma_req_def MCXN_EDMA_REQ_SOURCES_def)
  have wm: "dac_count d = 1" "dac_watermark d = 3" by (simp_all add: d_def stream_soc_def zero_dac_def dac_watermark_def dac_offsets)
  have "dac_requests_data False d" "dac_req d"
    by (simp_all add: dac_requests_data_def dac_streaming_def dac_ring_ok_def dac_lines_ok_def dac_req_def dac_fsr_def Let_def
        d_def stream_soc_def zero_dac_def dac_depth_def dac_offsets FSR_W1C_MASK_def tst_def [of _ "0 :: u32"] line_level_def bit_flag_iff)
  moreover have "served_alone s 0 25"
    using ch(1) by (simp add: served_alone_def edma_wanted_def edma_src_def stream_soc_def idle_edma_def mcxn_edma_reset_def
        edma_chan_zero_def)
  ultimately have "dac_feeding s m 0 0 1 False 0"
    using stream_soc_channel ch
    by (simp add: dac_feeding_def m_def MCXN_EDMA_CHANNELS_def MCXN_DMA_REQ_DAC0_FIFO_def)
  moreover have "3 = dac_watermark (soc_dac m 0) + 1 - dac_count (soc_dac m 0)" by (simp add: m_def wm)
  moreover have "3 \<le> unat (tcd_citer (ch s 0))" "0 + 3 * 2 ^ 1 < sram_size" by (simp_all add: ch(1) stream_soc_def sram_size_def)
  ultimately obtain s' m' where r: "mcxn_edma_service_bh (soc_bus silent_bus) s m = (s', m')"
    "dac_contents (soc_dac m' 0) = dac_contents (soc_dac m 0) @ map (\<lambda>j. dac_sample_value False (sram_sample (sram m) 0 1 j)) [0..<3]"
    using dma_refills_dac by blast
  have "dac_contents (soc_dac m 0) = [7]" by (simp add: m_def d_def dac_contents_def stream_soc_def zero_dac_def)
  with r(2) have "dac_contents (soc_dac m' 0) = [7, 0x100, 0x302, 0x504]"
    by (simp add: m_def sram_sample_def stream_soc_def dac_sample_value_def upt_rec)
  with r(1) show ?thesis unfolding Let_def s_def d_def m_def by blast
qed

end
