(* ===== verification/Spec2Isabelle.thy ===== *)
theory Spec2Isabelle
  imports Mcxn_Flexcan Mcxn_Inputmux Mcxn_Gpio Mcxn_Pint Mcxn_Fmu Mcxn_Ostimer Mcxn_Mrt Mcxn_Lptmr Mcxn_Edma Mcxn_Sema42 Mcxn_Mailbox Mcxn_Crc Mcxn_Dac Mcxn_Sai Mcxn_Clock_Tree Mcxn_Rtc Mcxn_Adc Mcxn_Stream
begin

text \<open>
  A verification development for the device models of the NXP MCX N947 machine.
\<close>

end
